(* ===== verification/Net_Prelude.thy ===== *)
theory Net_Prelude
  imports Main "HOL-Library.Word"
begin

unbundle bit_operations_syntax

text \<open>
  Prelude of the development: the machine types of the VAX network kernel, the modular
  comparison of TCP sequence numbers (the SEQ macros of bbnnet-oct82/tcp.h), the byte order
  routines, and the generic facts on lists and words that the component theories share.

  The collection \<open>net_simps\<close> gathers the unfolding facts of the small macros.
\<close>

named_theorems net_simps

type_synonym byte = "8 word"
type_synonym u16 = "16 word"
type_synonym u32 = "32 word"
type_synonym seq = "32 word"
type_synonym addr = "32 word"

section \<open>Sequence number comparison\<close>

text \<open>The macros cast the 32 bit difference to a signed long and compare it with zero.\<close>

definition SEQ_LT :: "seq \<Rightarrow> seq \<Rightarrow> bool" where
  "SEQ_LT a b \<longleftrightarrow> sint (a - b) < 0"

definition SEQ_LEQ :: "seq \<Rightarrow> seq \<Rightarrow> bool" where
  "SEQ_LEQ a b \<longleftrightarrow> sint (a - b) \<le> 0"

definition SEQ_GT :: "seq \<Rightarrow> seq \<Rightarrow> bool" where
  "SEQ_GT a b \<longleftrightarrow> sint (a - b) > 0"

definition SEQ_GEQ :: "seq \<Rightarrow> seq \<Rightarrow> bool" where
  "SEQ_GEQ a b \<longleftrightarrow> sint (a - b) \<ge> 0"

definition SEQ_EQ :: "seq \<Rightarrow> seq \<Rightarrow> bool" where
  "SEQ_EQ a b \<longleftrightarrow> a = b"

definition SEQ_NEQ :: "seq \<Rightarrow> seq \<Rightarrow> bool" where
  "SEQ_NEQ a b \<longleftrightarrow> a \<noteq> b"

definition SEQ_MIN :: "seq \<Rightarrow> seq \<Rightarrow> seq" where
  "SEQ_MIN a b = (if SEQ_LT a b then a else b)"

definition SEQ_MAX :: "seq \<Rightarrow> seq \<Rightarrow> seq" where
  "SEQ_MAX a b = (if SEQ_GT a b then a else b)"

lemmas seq_defs = SEQ_LT_def SEQ_LEQ_def SEQ_GT_def SEQ_GEQ_def SEQ_EQ_def SEQ_NEQ_def

text \<open>
  Offsets: relative to a base \<open>b\<close> a sequence number \<open>x\<close> is the natural number
  \<open>seq_off b x\<close>. As long as the numbers compared stay within half of the sequence
  space of the base, the macros compare the offsets, wherever the 32 bit counter wraps.
\<close>

definition seq_off :: "seq \<Rightarrow> seq \<Rightarrow> nat" where
  "seq_off b x = unat (x - b)"

lemma signed_take_bit_31:
  fixes u :: int
  assumes "0 \<le> u" "u < 2 ^ 32"
  shows "signed_take_bit 31 u = (if u < 2 ^ 31 then u else u - 2 ^ 32)"
proof -
  have n: "Suc 31 = (32 :: nat)"
    by simp
  have e: "signed_take_bit 31 u = (u + 2 ^ 31) mod 2 ^ 32 - 2 ^ 31"
    by (simp only: signed_take_bit_eq_take_bit_shift take_bit_eq_mod n)
  show ?thesis
  proof (cases "u < 2 ^ 31")
    case True
    then have "(u + 2 ^ 31) mod 2 ^ 32 = u + 2 ^ 31"
      using assms by (intro mod_pos_pos_trivial) auto
    with True show ?thesis by (simp add: e)
  next
    case False
    have "(u + 2 ^ 31) mod 2 ^ 32 = (u - 2 ^ 31 + 2 ^ 32) mod 2 ^ 32"
      by (simp add: add.commute)
    also have "\<dots> = (u - 2 ^ 31) mod 2 ^ 32"
      by (rule mod_add_self2)
    also have "\<dots> = u - 2 ^ 31"
      using assms False by (intro mod_pos_pos_trivial) auto
    finally show ?thesis using False by (simp add: e)
  qed
qed

lemma int_less_2_31: "int n < 2 ^ 31 \<longleftrightarrow> n < 2 ^ 31"
  by simp

lemma sint_word32_unat:
  fixes x :: "32 word"
  shows "sint x = (if unat x < 2 ^ 31 then int (unat x) else int (unat x) - 2 ^ 32)"
proof -
  have "0 \<le> uint x" "uint x < 2 ^ 32"
    using uint_lt2p [of x] by simp_all
  then have "signed_take_bit 31 (uint x)
      = (if uint x < 2 ^ 31 then uint x else uint x - 2 ^ 32)"
    by (rule signed_take_bit_31)
  moreover have "sint x = signed_take_bit 31 (uint x)"
    by (simp add: sint_uint)
  moreover have u: "uint x = int (unat x)"
    by simp
  moreover have "int (unat x) < 2 ^ 31 \<longleftrightarrow> unat x < 2 ^ 31"
    by (rule int_less_2_31)
  ultimately show ?thesis by (simp only: u)
qed

lemma seq_off_self [simp]: "seq_off b b = 0"
  by (simp add: seq_off_def)

lemma seq_off_eq_iff [simp]: "seq_off b x = seq_off b y \<longleftrightarrow> x = y"
  by (metis diff_add_cancel seq_off_def word_eq_iff_unsigned)

lemma seq_off_less: "seq_off b x < 2 ^ 32"
  unfolding seq_off_def by (rule order.strict_trans2 [OF unsigned_less]) simp

lemma unat_diff_seq_off:
  "unat (x - y) = (if seq_off b y \<le> seq_off b x then seq_off b x - seq_off b y
                   else 2 ^ 32 + seq_off b x - seq_off b y)"
proof -
  have d: "x - y = (x - b) - (y - b)" by simp
  have "unat (x - y) = unat ((x - b) - (y - b))" by (simp only: d)
  then show ?thesis
    unfolding seq_off_def
    by (simp only: unat_sub_if_size word_size) auto
qed

lemma SEQ_LT_off:
  assumes "seq_off b x < 2 ^ 31" "seq_off b y < 2 ^ 31"
  shows "SEQ_LT x y \<longleftrightarrow> seq_off b x < seq_off b y"
  using assms unfolding SEQ_LT_def sint_word32_unat unat_diff_seq_off [of x y b] by auto

lemma SEQ_LEQ_off:
  assumes "seq_off b x < 2 ^ 31" "seq_off b y < 2 ^ 31"
  shows "SEQ_LEQ x y \<longleftrightarrow> seq_off b x \<le> seq_off b y"
  using assms unfolding SEQ_LEQ_def sint_word32_unat unat_diff_seq_off [of x y b] by auto

lemma SEQ_GT_off:
  assumes "seq_off b x < 2 ^ 31" "seq_off b y < 2 ^ 31"
  shows "SEQ_GT x y \<longleftrightarrow> seq_off b y < seq_off b x"
  using assms unfolding SEQ_GT_def sint_word32_unat unat_diff_seq_off [of x y b] by auto

lemma SEQ_GEQ_off:
  assumes "seq_off b x < 2 ^ 31" "seq_off b y < 2 ^ 31"
  shows "SEQ_GEQ x y \<longleftrightarrow> seq_off b y \<le> seq_off b x"
  using assms unfolding SEQ_GEQ_def sint_word32_unat unat_diff_seq_off [of x y b] by auto

lemmas seq_offs = SEQ_LT_off SEQ_LEQ_off SEQ_GT_off SEQ_GEQ_off

lemma sint_diff_off:
  assumes "seq_off b x < 2 ^ 31" "seq_off b y < 2 ^ 31"
  shows "sint (x - y) = int (seq_off b x) - int (seq_off b y)"
  using assms unfolding sint_word32_unat unat_diff_seq_off [of x y b] by auto

lemma seq_off_add:
  assumes "seq_off b x + n < 2 ^ 32"
  shows "seq_off b (x + word_of_nat n) = seq_off b x + n"
proof -
  have n: "n < 2 ^ 32" using assms by simp
  have "x + word_of_nat n - b = (x - b) + word_of_nat n" by simp
  then have "seq_off b (x + word_of_nat n) = unat ((x - b) + (word_of_nat n :: seq))"
    by (simp only: seq_off_def)
  also have "\<dots> = (unat (x - b) + unat (word_of_nat n :: seq)) mod 2 ^ 32"
    by (simp add: unat_word_ariths)
  also have "unat (word_of_nat n :: seq) = n"
    using n by (simp add: unat_of_nat take_bit_nat_eq_self)
  finally show ?thesis using assms by (simp add: seq_off_def)
qed

section \<open>Byte order\<close>

text \<open>The routines of host.c that swap the bytes of a header field (VAX is little endian).\<close>

definition ntohs :: "u16 \<Rightarrow> u16" where
  "ntohs ls = push_bit 8 (ls AND 0xff) OR drop_bit 8 (ls AND 0xff00)"

definition ntohl :: "u32 \<Rightarrow> u32" where
  "ntohl lx = push_bit 24 (lx AND 0xff) OR push_bit 8 (lx AND 0xff00)
     OR drop_bit 8 (lx AND 0xff0000) OR drop_bit 24 (lx AND 0xff000000)"

end
