(* ===== verification/Mbuf.thy ===== *)
theory Mbuf
  imports Net_Prelude
begin

text \<open>
  Message buffers (bbnnet-oct82/mbuf.h) and the operation of mbuf.c that works on a chain alone.

  A chain is a list of buffers: the list replaces the m_next pointers, NULL is the empty list.
  \<open>m_id\<close> is the address of the buffer, counted in units of MSIZE from the base of the
  buffer memory (netutl).  The data is indexed, as the code indexes it, by the offset from the
  start of the buffer: offsets 0..9 are the buffer's own header, 10..127 is \<open>m_dat\<close>, and
  \<open>mtod\<close> is the offset \<open>m_off\<close>.  Multi-byte fields are little endian (VAX).
  \<open>m_act\<close> is kept where the code uses it as the end of message mark of a user's receive
  queue (0 is NULL); the queues of packets that the source chains through m_act are lists of
  chains.
\<close>

record mbuf =
  m_id :: nat
  m_off :: nat
  m_len :: nat
  m_act :: nat
  m_dat :: "nat \<Rightarrow> byte"

definition MSIZE :: nat where [net_simps]: "MSIZE = 128"
definition MHEAD :: nat where [net_simps]: "MHEAD = 10"
definition MLEN :: nat where [net_simps]: "MLEN = 118"
definition NMBPG :: nat where [net_simps]: "NMBPG = 8"

text \<open>Assignment to a u_char, a u_short and a short.\<close>

definition uchar :: "int \<Rightarrow> nat" where "uchar i = nat (i mod 256)"
definition ushort :: "int \<Rightarrow> nat" where "ushort i = nat (i mod 65536)"
definition sshort :: "int \<Rightarrow> int" where "sshort i = (i + 32768) mod 65536 - 32768"

lemma uchar_id [simp]: "0 \<le> i \<Longrightarrow> i < 256 \<Longrightarrow> uchar i = nat i"
  by (simp add: uchar_def)

lemma uchar_less [simp]: "uchar i < 256"
  by (simp add: uchar_def nat_less_iff)

lemma ushort_id [simp]: "0 \<le> i \<Longrightarrow> i < 65536 \<Longrightarrow> ushort i = nat i"
  by (simp add: ushort_def)

lemma sshort_id [simp]: "- 32768 \<le> i \<Longrightarrow> i < 32768 \<Longrightarrow> sshort i = i"
  by (simp add: sshort_def)

section \<open>Access to the data\<close>

definition rd8 :: "mbuf \<Rightarrow> nat \<Rightarrow> byte" where
  "rd8 m i = m_dat m i"

definition rd16 :: "mbuf \<Rightarrow> nat \<Rightarrow> u16" where
  "rd16 m i = word_of_nat (unat (m_dat m i) + 256 * unat (m_dat m (i + 1)))"

definition rd32 :: "mbuf \<Rightarrow> nat \<Rightarrow> u32" where
  "rd32 m i = word_of_nat (unat (m_dat m i) + 256 * unat (m_dat m (i + 1))
     + 65536 * unat (m_dat m (i + 2)) + 16777216 * unat (m_dat m (i + 3)))"

definition wr8 :: "nat \<Rightarrow> byte \<Rightarrow> mbuf \<Rightarrow> mbuf" where
  "wr8 i v m = m\<lparr>m_dat := (m_dat m)(i := v)\<rparr>"

definition wr16 :: "nat \<Rightarrow> u16 \<Rightarrow> mbuf \<Rightarrow> mbuf" where
  "wr16 i v m = m\<lparr>m_dat := (m_dat m)(i := ucast v, i + 1 := ucast (drop_bit 8 v))\<rparr>"

definition wr32 :: "nat \<Rightarrow> u32 \<Rightarrow> mbuf \<Rightarrow> mbuf" where
  "wr32 i v m = m\<lparr>m_dat := (m_dat m)(i := ucast v, i + 1 := ucast (drop_bit 8 v),
     i + 2 := ucast (drop_bit 16 v), i + 3 := ucast (drop_bit 24 v))\<rparr>"

text \<open>The bytes of a buffer, of a chain, and its length.\<close>

definition mbytes :: "mbuf \<Rightarrow> byte list" where
  "mbytes m = map (m_dat m) [m_off m ..< m_off m + m_len m]"

definition chain_bytes :: "mbuf list \<Rightarrow> byte list" where
  "chain_bytes ms = concat (map mbytes ms)"

definition chain_len :: "mbuf list \<Rightarrow> nat" where
  "chain_len ms = sum_list (map m_len ms)"

definition mbuf_ok :: "mbuf \<Rightarrow> bool" where
  "mbuf_ok m \<longleftrightarrow> m_off m + m_len m \<le> MSIZE"

lemma length_mbytes [simp]: "length (mbytes m) = m_len m"
  by (simp add: mbytes_def)

lemma chain_bytes_simps [simp]:
  "chain_bytes [] = []"
  "chain_bytes (m # ms) = mbytes m @ chain_bytes ms"
  "chain_bytes (ms @ ns) = chain_bytes ms @ chain_bytes ns"
  by (simp_all add: chain_bytes_def)

lemma chain_len_simps [simp]:
  "chain_len [] = 0"
  "chain_len (m # ms) = m_len m + chain_len ms"
  "chain_len (ms @ ns) = chain_len ms + chain_len ns"
  by (simp_all add: chain_len_def)

lemma length_chain_bytes [simp]: "length (chain_bytes ms) = chain_len ms"
  by (induction ms) auto

lemma mbytes_empty: "m_len m = 0 \<Longrightarrow> mbytes m = []"
  by (simp add: mbytes_def)

lemma mbytes_drop:
  "n \<le> m_len m \<Longrightarrow> mbytes (m\<lparr>m_len := m_len m - n, m_off := m_off m + n\<rparr>) = drop n (mbytes m)"
  by (simp add: mbytes_def drop_map drop_upt add.assoc)

lemma mbytes_take:
  "n \<le> m_len m \<Longrightarrow> mbytes (m\<lparr>m_len := n\<rparr>) = take n (mbytes m)"
  by (simp add: mbytes_def take_map take_upt)

section \<open>m_adj: trimming a chain\<close>

fun adj_front :: "int \<Rightarrow> mbuf list \<Rightarrow> mbuf list" where
  "adj_front len [] = []"
| "adj_front len (m # ms) =
    (if len > 0 then
       (if int (m_len m) \<le> len then m\<lparr>m_len := 0\<rparr> # adj_front (len - int (m_len m)) ms
        else m\<lparr>m_len := uchar (int (m_len m) - len), m_off := uchar (int (m_off m) + len)\<rparr> # ms)
     else m # ms)"

text \<open>
  Trimming the end: \<open>find_end\<close> is the inner loop that walks until \<open>nlen\<close> reaches
  \<open>mlen\<close> and leaves \<open>n\<close> on the last buffer visited, here its position (\<open>n\<close>
  keeps its previous value when the loop does not run).  Every round of the outer loop that does
  not return empties one more buffer, so the length of the chain bounds the rounds.
\<close>

fun find_end :: "nat \<Rightarrow> nat \<Rightarrow> nat \<Rightarrow> nat \<Rightarrow> mbuf list \<Rightarrow> nat" where
  "find_end mlen nlen i n [] = n"
| "find_end mlen nlen i n (m # ms) =
    (if nlen < mlen then find_end mlen (nlen + m_len m) (i + 1) i ms else n)"

fun adj_back_loop :: "nat \<Rightarrow> int \<Rightarrow> nat \<Rightarrow> nat \<Rightarrow> mbuf list \<Rightarrow> mbuf list" where
  "adj_back_loop 0 len mlen n ms = ms"
| "adj_back_loop (Suc fuel) len mlen n ms =
    (if len > 0 then
       (let n = find_end mlen 0 0 n ms; k = m_len (ms ! n) in
        if int k \<le> len
        then adj_back_loop fuel (len - int k) (mlen - k) n (ms[n := (ms ! n)\<lparr>m_len := 0\<rparr>])
        else ms[n := (ms ! n)\<lparr>m_len := uchar (int k - len)\<rparr>])
     else ms)"

definition m_adj :: "mbuf list \<Rightarrow> int \<Rightarrow> mbuf list" where
  "m_adj mp len =
    (if mp = [] then []
     else if len \<ge> 0 then adj_front len mp
     else
       (let len = - len; mlen = chain_len mp; n = length mp - 1; k = m_len (mp ! n) in
        if len \<ge> int mlen then map (\<lambda>m. m\<lparr>m_len := 0\<rparr>) mp
        else if len < int k then mp[n := (mp ! n)\<lparr>m_len := uchar (int k - len)\<rparr>]
        else adj_back_loop (length mp) (len - int k) (mlen - k) n
               (mp[n := (mp ! n)\<lparr>m_len := 0\<rparr>])))"

section \<open>What m_adj does to the bytes\<close>

lemma mbuf_ok_bounds:
  assumes "mbuf_ok m" shows "m_len m \<le> 128" "m_off m \<le> 128"
  using assms by (auto simp: mbuf_ok_def net_simps)

lemma adj_front_bytes:
  "\<forall>m\<in>set ms. mbuf_ok m \<Longrightarrow> 0 \<le> len \<Longrightarrow>
   chain_bytes (adj_front len ms) = drop (nat len) (chain_bytes ms)"
proof (induction len ms rule: adj_front.induct)
  case (2 len m ms)
  have ok: "m_off m + m_len m \<le> 128" using 2(2) by (simp add: mbuf_ok_def net_simps)
  consider "len = 0" | "0 < len" "int (m_len m) \<le> len" | "0 < len" "len < int (m_len m)"
    using 2(3) by linarith
  then show ?case
  proof cases
    case 2
    have "nat (len - int (m_len m)) = nat len - m_len m" by simp
    moreover have "mbytes (m\<lparr>m_len := 0\<rparr>) = []" by (simp add: mbytes_empty)
    ultimately show ?thesis using 2 "2.IH" "2.prems" by (simp add: drop_eq_Nil)
  next
    case 3
    obtain k where k: "len = int k" "k < m_len m" using 3 by (metis nat_int nonneg_int_cases
        of_nat_less_iff order_less_imp_le)
    have "mbytes (m\<lparr>m_len := uchar (int (m_len m) - len), m_off := uchar (int (m_off m) + len)\<rparr>)
        = drop k (mbytes m)"
      using k ok mbytes_drop [of k m] by (simp add: nat_diff_distrib nat_add_distrib)
    then show ?thesis using k 3 by simp
  qed simp
qed simp

lemma find_end_spec:
  assumes "nlen + chain_len ms = mlen" "nlen < mlen"
  shows "\<exists>j < length ms. find_end mlen nlen i n ms = i + j \<and> 0 < m_len (ms ! j)
     \<and> (\<forall>j' < length ms. j < j' \<longrightarrow> m_len (ms ! j') = 0)"
  using assms
proof (induction ms arbitrary: nlen i n)
  case (Cons m ms)
  show ?case
  proof (cases "nlen + m_len m < mlen")
    case True
    have "nlen + m_len m + chain_len ms = mlen" using Cons.prems(1) by simp
    from Cons.IH [OF this True, of "i + 1" i] obtain j where j: "j < length ms"
      "find_end mlen (nlen + m_len m) (i + 1) i ms = i + 1 + j" "0 < m_len (ms ! j)"
      "\<forall>j' < length ms. j < j' \<longrightarrow> m_len (ms ! j') = 0"
      by blast
    show ?thesis
      using j Cons.prems(2) by (intro exI [of _ "Suc j"]) (auto simp: nth_Cons split: nat.splits)
  next
    case False
    then have z: "chain_len ms = 0" and m: "0 < m_len m" using Cons.prems by auto
    have all0: "m_len (ms ! j') = 0" if "j' < length ms" for j'
      using z that nth_mem [OF that] by (force simp: chain_len_def)
    have "find_end mlen (nlen + m_len m) (i + 1) i ms = i"
      using False by (cases ms) auto
    then show ?thesis using Cons.prems(2) m all0
      by (intro exI [of _ 0]) (auto simp: nth_Cons split: nat.splits)
  qed
qed simp

lemma take_take_nat_diff:
  "int k \<le> len \<Longrightarrow> take (n - k - nat (len - int k)) (take (n - k) xs) = take (n - nat len) xs"
proof -
  assume "int k \<le> len"
  then have "n - k - nat (len - int k) = n - nat len" "n - nat len \<le> n - k" by linarith+
  then show ?thesis by (simp add: min_absorb1)
qed

lemma chain_bytes_all_empty: "(\<forall>m\<in>set ms. m_len m = 0) \<Longrightarrow> chain_bytes ms = []"
  by (induction ms) (auto simp: mbytes_empty)

text \<open>Cutting the last non-empty buffer of a chain.\<close>

lemma cut_last:
  assumes n: "n < length ms" and tail: "\<forall>j < length ms. n < j \<longrightarrow> m_len (ms ! j) = 0"
    and k: "k \<le> m_len (ms ! n)"
  shows "chain_bytes (ms[n := (ms ! n)\<lparr>m_len := m_len (ms ! n) - k\<rparr>])
       = take (chain_len ms - k) (chain_bytes ms)"
proof -
  have split: "ms = take n ms @ ms ! n # drop (Suc n) ms"
    using n by (rule id_take_nth_drop)
  have "\<forall>m\<in>set (drop (Suc n) ms). m_len m = 0"
    using tail by (fastforce simp: in_set_conv_nth)
  then have t: "chain_bytes (drop (Suc n) ms) = []" "chain_len (drop (Suc n) ms) = 0"
    by (auto simp: chain_bytes_all_empty chain_len_def)
  have b: "chain_bytes ms = chain_bytes (take n ms) @ mbytes (ms ! n)"
    and l: "chain_len ms = chain_len (take n ms) + m_len (ms ! n)"
    using t by (subst split, simp)+
  have "chain_bytes (ms[n := (ms ! n)\<lparr>m_len := m_len (ms ! n) - k\<rparr>])
      = chain_bytes (take n ms) @ mbytes ((ms ! n)\<lparr>m_len := m_len (ms ! n) - k\<rparr>)"
    using n t by (simp add: upd_conv_take_nth_drop)
  also have "\<dots> = take (chain_len ms - k) (chain_bytes ms)"
    using k by (simp add: b l mbytes_take)
  finally show ?thesis .
qed

lemma chain_len_upd:
  assumes "n < length ms"
  shows "chain_len (ms[n := m]) + m_len (ms ! n) = chain_len ms + m_len m"
  using assms
  by (induction ms arbitrary: n) (auto simp: nth_Cons split: nat.splits)

definition live :: "mbuf list \<Rightarrow> nat" where
  "live ms = length (filter (\<lambda>m. m_len m \<noteq> 0) ms)"

lemma live_upd:
  "n < length ms \<Longrightarrow> m_len (ms ! n) \<noteq> 0 \<Longrightarrow> live ms = Suc (live (ms[n := (ms ! n)\<lparr>m_len := 0\<rparr>]))"
  by (induction ms arbitrary: n) (auto simp: live_def nth_Cons split: nat.splits)

lemma adj_back_loop_bytes:
  assumes "live ms \<le> fuel" "0 \<le> len" "len < int mlen" "mlen = chain_len ms"
    "\<forall>m\<in>set ms. m_len m < 256"
  shows "chain_bytes (adj_back_loop fuel len mlen n ms) = take (mlen - nat len) (chain_bytes ms)"
  using assms
proof (induction fuel arbitrary: len mlen n ms)
  case 0
  then have "chain_len ms = 0"
    by (auto simp: live_def filter_empty_conv chain_len_def)
  with 0 show ?case by simp
next
  case (Suc fuel)
  show ?case
  proof (cases "len = 0")
    case False
    let ?n = "find_end mlen 0 0 n ms"
    obtain "?n < length ms" and pos: "0 < m_len (ms ! ?n)"
      and tail: "\<forall>j' < length ms. ?n < j' \<longrightarrow> m_len (ms ! j') = 0"
      using find_end_spec [of 0 ms mlen 0 n] Suc.prems False by auto
    note n = \<open>?n < length ms\<close>
    let ?k = "m_len (ms ! ?n)"
    have k256: "?k < 256" using Suc.prems(5) n by simp
    show ?thesis
    proof (cases "int ?k \<le> len")
      case True
      let ?ms = "ms[?n := (ms ! ?n)\<lparr>m_len := 0\<rparr>]"
      have l: "chain_len ?ms = mlen - ?k"
        using chain_len_upd [OF n, of "(ms ! ?n)\<lparr>m_len := 0\<rparr>"] Suc.prems(4) by simp
      have "chain_bytes (adj_back_loop fuel (len - int ?k) (mlen - ?k) ?n ?ms)
          = take (mlen - ?k - nat (len - int ?k)) (chain_bytes ?ms)"
      proof (rule Suc.IH)
        show "live ?ms \<le> fuel" using live_upd [OF n] pos Suc.prems(1) by simp
        show "\<forall>m\<in>set ?ms. m_len m < 256"
          using Suc.prems(5) by (auto dest!: set_update_subset_insert [THEN subsetD])
      qed (use True Suc.prems l in auto)
      also have "chain_bytes ?ms = take (mlen - ?k) (chain_bytes ms)"
        using cut_last [OF n tail, of ?k] Suc.prems(4) by simp
      also have "take (mlen - ?k - nat (len - int ?k)) (take (mlen - ?k) (chain_bytes ms))
          = take (mlen - nat len) (chain_bytes ms)"
        using True by (rule take_take_nat_diff)
      finally show ?thesis using True False Suc.prems(2) by (simp add: Let_def)
    next
      case nk: False
      obtain j where j: "len = int j" "j < ?k" using nk Suc.prems(2)
        by (metis linorder_not_le nonneg_int_cases of_nat_less_iff)
      have "uchar (int ?k - len) = ?k - j" using j k256 by (simp add: nat_diff_distrib)
      then show ?thesis
        using cut_last [OF n tail, of j] nk False j Suc.prems
        by (simp add: Let_def)
    qed
  qed (use Suc.prems in simp)
qed

lemma m_adj_chain_bytes:
  assumes "\<forall>m\<in>set mp. mbuf_ok m"
  shows "chain_bytes (m_adj mp len) =
    (if len \<ge> 0 then drop (nat len) (chain_bytes mp)
     else take (chain_len mp - nat (- len)) (chain_bytes mp))"
proof (cases "mp = [] \<or> len \<ge> 0")
  case True
  then show ?thesis using assms by (auto simp: m_adj_def adj_front_bytes)
next
  case False
  then have ne: "mp \<noteq> []" and neg: "len < 0" by auto
  let ?n = "length mp - 1"
  have n: "?n < length mp" using ne by (simp add: length_greater_0_conv)
  have tail: "\<forall>j < length mp. ?n < j \<longrightarrow> m_len (mp ! j) = 0" by auto
  let ?k = "m_len (mp ! ?n)"
  have small: "\<forall>m\<in>set mp. m_len m < 256" using assms by (force dest: mbuf_ok_bounds)
  have k256: "?k < 256" using small n by simp
  obtain j where j: "- len = int j" "0 < j" using neg
    by (metis neg_0_less_iff_less of_nat_0_less_iff zero_less_imp_eq_int)
  consider "chain_len mp \<le> j" | "j < chain_len mp" "j < ?k" | "j < chain_len mp" "?k \<le> j"
    by linarith
  then show ?thesis
  proof cases
    case 1
    then have "m_adj mp len = map (\<lambda>m. m\<lparr>m_len := 0\<rparr>) mp"
      using ne neg j by (simp add: m_adj_def Let_def)
    then show ?thesis using 1 neg j by (simp add: chain_bytes_all_empty)
  next
    case 2
    then have "m_adj mp len = mp[?n := (mp ! ?n)\<lparr>m_len := ?k - j\<rparr>]"
      using ne neg j k256 by (simp add: m_adj_def Let_def nat_diff_distrib)
    then show ?thesis using cut_last [OF n tail, of j] 2 neg j by simp
  next
    case 3
    let ?ms = "mp[?n := (mp ! ?n)\<lparr>m_len := 0\<rparr>]"
    have l: "chain_len ?ms = chain_len mp - ?k"
      using chain_len_upd [OF n, of "(mp ! ?n)\<lparr>m_len := 0\<rparr>"] by simp
    have "m_adj mp len = adj_back_loop (length mp) (int j - int ?k) (chain_len mp - ?k) ?n ?ms"
      using 3 ne neg j by (simp add: m_adj_def Let_def)
    moreover have "chain_bytes (adj_back_loop (length mp) (int j - int ?k) (chain_len mp - ?k) ?n ?ms)
        = take (chain_len mp - ?k - nat (int j - int ?k)) (chain_bytes ?ms)"
    proof (rule adj_back_loop_bytes)
      show "live ?ms \<le> length mp" unfolding live_def
        by (metis length_filter_le length_list_update)
      show "\<forall>m\<in>set ?ms. m_len m < 256"
        using small by (auto dest!: set_update_subset_insert [THEN subsetD])
    qed (use 3 l in auto)
    moreover have "chain_bytes ?ms = take (chain_len mp - ?k) (chain_bytes mp)"
      using cut_last [OF n tail, of ?k] by simp
    moreover have "take (chain_len mp - ?k - nat (int j - int ?k)) (take (chain_len mp - ?k) (chain_bytes mp))
        = take (chain_len mp - j) (chain_bytes mp)"
      using 3 take_take_nat_diff [of ?k "int j"] by simp
    ultimately show ?thesis using neg j by simp
  qed
qed

lemma adj_front_keeps:
  "\<forall>m\<in>set ms. mbuf_ok m \<Longrightarrow> 0 \<le> len \<Longrightarrow>
   map m_id (adj_front len ms) = map m_id ms \<and> (\<forall>m\<in>set (adj_front len ms). mbuf_ok m)"
proof (induction len ms rule: adj_front.induct)
  case (2 len m ms)
  have ok: "m_off m + m_len m \<le> 128" using 2(2) by (simp add: mbuf_ok_def net_simps)
  consider "len = 0" | "0 < len" "int (m_len m) \<le> len" | "0 < len" "len < int (m_len m)"
    using 2(3) by linarith
  then show ?case
  proof cases
    case 2
    then show ?thesis using "2.IH" "2.prems" by (simp add: mbuf_ok_def)
  next
    case 3
    then show ?thesis using "2.prems" ok
      by (auto simp: mbuf_ok_def net_simps nat_diff_distrib nat_add_distrib)
  qed (use "2.prems" in simp)
qed simp

lemma upd_len_keeps:
  assumes "\<forall>m\<in>set ms. mbuf_ok m" "n < length ms" "k \<le> m_len (ms ! n)"
  shows "map m_id (ms[n := (ms ! n)\<lparr>m_len := k\<rparr>]) = map m_id ms"
    "\<forall>m\<in>set (ms[n := (ms ! n)\<lparr>m_len := k\<rparr>]). mbuf_ok m"
proof -
  show "map m_id (ms[n := (ms ! n)\<lparr>m_len := k\<rparr>]) = map m_id ms"
    using assms(2) by (simp add: map_update list_update_same_conv)
  have "mbuf_ok (ms ! n)" using assms by simp
  then have "mbuf_ok ((ms ! n)\<lparr>m_len := k\<rparr>)" using assms(3) by (simp add: mbuf_ok_def)
  then show "\<forall>m\<in>set (ms[n := (ms ! n)\<lparr>m_len := k\<rparr>]). mbuf_ok m"
    using assms(1) by (auto dest!: set_update_subset_insert [THEN subsetD])
qed

lemma find_end_less: "ms \<noteq> [] \<Longrightarrow> nlen < mlen \<Longrightarrow> find_end mlen nlen i n ms < i + length ms"
proof (induction ms arbitrary: nlen i n)
  case (Cons m ms)
  have "find_end mlen (nlen + m_len m) (i + 1) i ms < i + 1 + length ms"
    using Cons.IH [of "nlen + m_len m" "i + 1" i] by (cases ms) auto
  then show ?case using Cons.prems by simp
qed simp

lemma uchar_diff_le: "int k > len \<Longrightarrow> 0 \<le> len \<Longrightarrow> k < 256 \<Longrightarrow> uchar (int k - len) \<le> k"
  by simp

lemma adj_back_keeps:
  "\<forall>m\<in>set ms. mbuf_ok m \<Longrightarrow> ms \<noteq> [] \<Longrightarrow> len < int mlen \<Longrightarrow> 0 \<le> len \<Longrightarrow>
   map m_id (adj_back_loop fuel len mlen n ms) = map m_id ms
   \<and> (\<forall>m\<in>set (adj_back_loop fuel len mlen n ms). mbuf_ok m)"
proof (induction fuel arbitrary: len mlen n ms)
  case (Suc fuel)
  show ?case
  proof (cases "len = 0")
    case False
    let ?n = "find_end mlen 0 0 n ms" let ?k = "m_len (ms ! ?n)"
    have n: "?n < length ms" using find_end_less [of ms 0 mlen 0 n] Suc.prems False by simp
    have k: "?k < 256" using Suc.prems(1) n mbuf_ok_bounds(1) [of "ms ! ?n"] by force
    show ?thesis
    proof (cases "int ?k \<le> len")
      case True
      note u = upd_len_keeps [OF Suc.prems(1) n, of 0]
      have "map m_id (adj_back_loop fuel (len - int ?k) (mlen - ?k) ?n (ms[?n := (ms ! ?n)\<lparr>m_len := 0\<rparr>]))
          = map m_id (ms[?n := (ms ! ?n)\<lparr>m_len := 0\<rparr>])
        \<and> (\<forall>m\<in>set (adj_back_loop fuel (len - int ?k) (mlen - ?k) ?n (ms[?n := (ms ! ?n)\<lparr>m_len := 0\<rparr>])).
            mbuf_ok m)"
        by (rule Suc.IH) (use u Suc.prems True in auto)
      then show ?thesis using True False Suc.prems(4) u(1) by (simp add: Let_def)
    next
      case nk: False
      have "uchar (int ?k - len) \<le> ?k" using uchar_diff_le nk Suc.prems(4) k by simp
      then show ?thesis
        using upd_len_keeps [OF Suc.prems(1) n, of "uchar (int ?k - len)"] nk False Suc.prems(4)
        by (simp add: Let_def)
    qed
  qed (use Suc.prems in simp)
qed simp

lemma m_adj_keeps:
  assumes "\<forall>m\<in>set mp. mbuf_ok m"
  shows "map m_id (m_adj mp len) = map m_id mp \<and> (\<forall>m\<in>set (m_adj mp len). mbuf_ok m)"
proof (cases "mp = [] \<or> len \<ge> 0")
  case True
  then show ?thesis using assms adj_front_keeps [OF assms, of len] by (auto simp: m_adj_def)
next
  case False
  let ?n = "length mp - 1" let ?k = "m_len (mp ! ?n)"
  have n: "?n < length mp" using False by simp
  have k: "?k < 256" using assms n mbuf_ok_bounds(1) [of "mp ! ?n"] by force
  have sum: "?k \<le> chain_len mp" using n by (auto simp: chain_len_def intro: member_le_sum_list)
  have neg: "len < 0" and ne: "mp \<noteq> []" using False by auto
  consider "- len \<ge> int (chain_len mp)" | "- len < int (chain_len mp)" "- len < int ?k"
    | "- len < int (chain_len mp)" "int ?k \<le> - len"
    by linarith
  then show ?thesis
  proof cases
    case 1
    then show ?thesis using neg ne assms by (auto simp: m_adj_def Let_def mbuf_ok_def comp_def)
  next
    case 2
    have "uchar (int ?k - - len) \<le> ?k" using uchar_diff_le 2 neg k by simp
    then show ?thesis using upd_len_keeps [OF assms n, of "uchar (int ?k - - len)"] 2 neg ne
      by (simp add: m_adj_def Let_def)
  next
    case 3
    note u = upd_len_keeps [OF assms n, of 0]
    have "map m_id (adj_back_loop (length mp) (- len - int ?k) (chain_len mp - ?k) ?n
             (mp[?n := (mp ! ?n)\<lparr>m_len := 0\<rparr>])) = map m_id (mp[?n := (mp ! ?n)\<lparr>m_len := 0\<rparr>])
        \<and> (\<forall>m\<in>set (adj_back_loop (length mp) (- len - int ?k) (chain_len mp - ?k) ?n
             (mp[?n := (mp ! ?n)\<lparr>m_len := 0\<rparr>])). mbuf_ok m)"
      by (rule adj_back_keeps) (use u 3 ne sum in auto)
    then show ?thesis using 3 neg ne u(1) by (simp add: m_adj_def Let_def)
  qed
qed

text \<open>C3: m_adj with a positive length removes exactly that many bytes from the front of the
  chain, with a negative one exactly that many from its end, whatever the layout of the bytes over
  the buffers; a length beyond the chain's removes everything.  No buffer leaves the chain, and the
  data of every buffer stays inside it.\<close>

theorem m_adj_bytes:
  assumes "\<forall>m\<in>set mp. mbuf_ok m"
  shows "chain_bytes (m_adj mp len) =
      (if len \<ge> 0 then drop (nat len) (chain_bytes mp)
       else take (chain_len mp - nat (- len)) (chain_bytes mp))
    \<and> map m_id (m_adj mp len) = map m_id mp \<and> (\<forall>m\<in>set (m_adj mp len). mbuf_ok m)"
  using m_adj_chain_bytes [OF assms] m_adj_keeps [OF assms] by blast

definition sample_chain :: "mbuf list" where
  "sample_chain =
    [\<lparr>m_id = 1, m_off = 10, m_len = 3, m_act = 0, m_dat = (\<lambda>i. word_of_nat i)\<rparr>,
     \<lparr>m_id = 2, m_off = 84, m_len = 2, m_act = 0, m_dat = (\<lambda>i. word_of_nat i)\<rparr>]"

theorem m_adj_bytes_witness:
  "chain_bytes (m_adj sample_chain 4) = [85] \<and> chain_bytes (m_adj sample_chain (-3)) = [10, 11]"
proof -
  have ok: "\<forall>m\<in>set sample_chain. mbuf_ok m"
    by (simp add: sample_chain_def mbuf_ok_def net_simps)
  have b: "chain_bytes sample_chain = [10, 11, 12, 84, 85]" "chain_len sample_chain = 5"
    by (simp_all add: sample_chain_def mbytes_def upt_conv_Cons)
  show ?thesis
    using m_adj_bytes [OF ok, of 4] m_adj_bytes [OF ok, of "-3"] by (simp add: b)
qed

end
