(* ===== verification/Rmap.thy ===== *)
theory Rmap
  imports Net_Prelude
begin

text \<open>
  The resource map allocator of sys/rmap.c, from which the buffer pool takes its pages
  (\<open>rmalloc (netmap, n)\<close> in pg_alloc, \<open>rmfree (netmap, 1, ndx)\<close> in pg_relse).

  A map is the list of its segments in front of the delimiter; every slot from the delimiter
  on holds size 0.  \<open>m_limit\<close> is the number of slots behind the map header (mapsize - 1),
  the delimiter's slot included.  The walks over the array become recursions over the list.
  A panic is \<open>Inl\<close>.  Two maps are special in the source: the swap map, whose
  segments are split at multiples of DMMAX, and the kernel map, whose waiters are woken.
\<close>

record mapent =
  m_size :: int
  m_addr :: int

datatype map_name = Swapmap | Kernelmap | Othermap

datatype rm_event =
    Rmap_ovflo int int
  | Wakeup_kernelmap

record rmap =
  m_name :: map_name
  m_limit :: nat
  m_ents :: "mapent list"
  kmapwnt :: bool

definition DMMAX :: int where "DMMAX = 1024"
definition CLSIZE :: int where "CLSIZE = 2"

section \<open>The operations\<close>

definition rminit :: "map_name \<Rightarrow> int \<Rightarrow> int \<Rightarrow> nat \<Rightarrow> rmap" where
  "rminit name sz addr mapsize =
    \<lparr>m_name = name, m_limit = mapsize - 1,
     m_ents = (if sz = 0 then [] else [\<lparr>m_size = sz, m_addr = addr\<rparr>]), kmapwnt = False\<rparr>"

text \<open>The insertion of rmfree into the list behind the entries at or below \<open>addr\<close>.\<close>

definition rm_left :: "int \<Rightarrow> mapent list \<Rightarrow> mapent list" where
  "rm_left addr es = takeWhile (\<lambda>e. m_addr e \<le> addr \<and> m_size e \<noteq> 0) es"

definition rm_right :: "int \<Rightarrow> mapent list \<Rightarrow> mapent list" where
  "rm_right addr es = dropWhile (\<lambda>e. m_addr e \<le> addr \<and> m_size e \<noteq> 0) es"

fun rmfree_ents :: "int \<Rightarrow> int \<Rightarrow> mapent list \<Rightarrow> mapent list \<Rightarrow> (mapent list) option" where
  "rmfree_ents sz addr l r =
    (if l \<noteq> [] \<and> m_addr (last l) + m_size (last l) \<ge> addr then
       (if m_addr (last l) + m_size (last l) > addr then None
        else (case r of
            [] \<Rightarrow> Some (butlast l @ [(last l)\<lparr>m_size := m_size (last l) + sz\<rparr>])
          | e # r' \<Rightarrow>
              (if m_addr e \<noteq> 0 \<and> addr + sz \<ge> m_addr e then
                 (if addr + sz > m_addr e then None
                  else Some (butlast l @ [(last l)\<lparr>m_size := m_size (last l) + sz + m_size e\<rparr>] @ r'))
               else Some (butlast l @ [(last l)\<lparr>m_size := m_size (last l) + sz\<rparr>] @ e # r'))))
     else (case r of
         [] \<Rightarrow> Some (l @ [\<lparr>m_size = sz, m_addr = addr\<rparr>])
       | e # r' \<Rightarrow>
           (if addr + sz \<ge> m_addr e \<and> m_size e \<noteq> 0 then
              (if addr + sz > m_addr e then None
               else Some (l @ \<lparr>m_size = m_size e + sz, m_addr = m_addr e - sz\<rparr> # r'))
            else Some (l @ \<lparr>m_size = sz, m_addr = addr\<rparr> # e # r'))))"

text \<open>
  When a new segment leaves no slot for the delimiter, the second to last segment is
  discarded.  The merging branches never grow the list, so the test of the source (made only
  after an insertion) can be made on the length.
\<close>

definition rm_trim :: "nat \<Rightarrow> mapent list \<Rightarrow> mapent list \<times> rm_event list" where
  "rm_trim limit es =
    (if length es + 1 > limit then
       (let lost = last (butlast es) in
        (butlast (butlast es) @ [last es],
         [Rmap_ovflo (m_addr lost) (m_addr lost + m_size lost)]))
     else (es, []))"

definition rmfree :: "rmap \<Rightarrow> int \<Rightarrow> int \<Rightarrow> string + rmap \<times> rm_event list" where
  "rmfree mp sz addr =
    (if addr \<le> 0 \<or> sz \<le> 0 then Inl ''bad rmfree''
     else (case rmfree_ents sz addr (rm_left addr (m_ents mp)) (rm_right addr (m_ents mp)) of
         None \<Rightarrow> Inl ''bad rmfree''
       | Some es \<Rightarrow>
           (let (es', ev) = (if length es > length (m_ents mp) then rm_trim (m_limit mp) es else (es, []));
                wake = (m_name mp = Kernelmap \<and> kmapwnt mp) in
            Inr (mp\<lparr>m_ents := es', kmapwnt := (kmapwnt mp \<and> \<not> wake)\<rparr>,
                 ev @ (if wake then [Wakeup_kernelmap] else [])))))"

text \<open>
  The search of rmalloc: \<open>pre\<close> holds the segments already passed.  The result carries the
  new segment list, the address and, for the swap map, the rest to be given to rmfree.
\<close>

fun rmalloc_ents :: "bool \<Rightarrow> int \<Rightarrow> mapent list \<Rightarrow> mapent list
    \<Rightarrow> (mapent list \<times> int \<times> int option) option" where
  "rmalloc_ents swap sz pre [] = None"
| "rmalloc_ents swap sz pre (e # es) =
    (if m_size e \<ge> sz then
       (let first = DMMAX - m_addr e mod DMMAX in
        if swap \<and> first < m_size e then
          (if m_size e - first < sz then rmalloc_ents swap sz (pre @ [e]) es
           else Some (pre @ e\<lparr>m_size := first\<rparr> # es, m_addr e + first,
                      Some (m_size e - first - sz)))
        else if m_size e - sz = 0 then Some (pre @ es, m_addr e, None)
        else Some (pre @ e\<lparr>m_addr := m_addr e + sz, m_size := m_size e - sz\<rparr> # es,
                   m_addr e, None))
     else rmalloc_ents swap sz (pre @ [e]) es)"

definition rmalloc :: "rmap \<Rightarrow> int \<Rightarrow> string + rmap \<times> int \<times> rm_event list" where
  "rmalloc mp sz =
    (let swap = (m_name mp = Swapmap) in
     if sz \<le> 0 \<or> (swap \<and> sz > DMMAX) then Inl ''rmalloc''
     else (case rmalloc_ents swap sz [] (m_ents mp) of
         None \<Rightarrow> Inr (mp, 0, [])
       | Some (es, addr, Some rest) \<Rightarrow>
           (if rest \<noteq> 0 then
              (case rmfree (mp\<lparr>m_ents := es\<rparr>) rest (addr + sz) of
                 Inl p \<Rightarrow> Inl p
               | Inr (mp', ev) \<Rightarrow> Inr (mp', addr, ev))
            else Inr (mp\<lparr>m_ents := es\<rparr>, addr, []))
       | Some (es, addr, None) \<Rightarrow>
           (if swap \<and> addr mod CLSIZE \<noteq> 0 then Inl ''rmalloc swapmap''
            else Inr (mp\<lparr>m_ents := es\<rparr>, addr, []))))"

section \<open>The set of free units\<close>

definition seg_units :: "mapent \<Rightarrow> int set" where
  "seg_units e = {m_addr e ..< m_addr e + m_size e}"

definition rm_units :: "mapent list \<Rightarrow> int set" where
  "rm_units es = (\<Union>e\<in>set es. seg_units e)"

text \<open>Segments are positive, above a bound, in address order and never adjacent.\<close>

fun rm_sorted :: "int \<Rightarrow> mapent list \<Rightarrow> bool" where
  "rm_sorted lo [] = True"
| "rm_sorted lo (e # es) \<longleftrightarrow>
    lo < m_addr e \<and> 0 < m_size e \<and> rm_sorted (m_addr e + m_size e) es"

definition rm_inv :: "rmap \<Rightarrow> bool" where
  "rm_inv mp \<longleftrightarrow> rm_sorted 0 (m_ents mp)"

lemma rm_units_simps [simp]:
  "rm_units [] = {}"
  "rm_units (e # es) = seg_units e \<union> rm_units es"
  "rm_units (es @ fs) = rm_units es \<union> rm_units fs"
  by (auto simp: rm_units_def)

lemma rm_sorted_mono: "rm_sorted lo es \<Longrightarrow> lo' \<le> lo \<Longrightarrow> rm_sorted lo' es"
  by (cases es) auto

lemma rm_sorted_units: "rm_sorted lo es \<Longrightarrow> a \<in> rm_units es \<Longrightarrow> lo < a"
  by (induction es arbitrary: lo) (force simp: seg_units_def)+

fun rm_end :: "int \<Rightarrow> mapent list \<Rightarrow> int" where
  "rm_end lo [] = lo"
| "rm_end lo (e # es) = rm_end (m_addr e + m_size e) es"

lemma rm_sorted_append:
  "rm_sorted lo (es @ fs) \<longleftrightarrow> rm_sorted lo es \<and> rm_sorted (rm_end lo es) fs"
  by (induction es arbitrary: lo) auto

lemma rm_end_append [simp]: "rm_end lo (es @ fs) = rm_end (rm_end lo es) fs"
  by (induction es arbitrary: lo) auto

lemma rm_end_ge: "rm_sorted lo es \<Longrightarrow> lo \<le> rm_end lo es"
  by (induction es arbitrary: lo) force+

lemma rm_units_below: "rm_sorted lo es \<Longrightarrow> a \<in> rm_units es \<Longrightarrow> a < rm_end lo es"
proof (induction es arbitrary: lo)
  case (Cons e es)
  then have "m_addr e + m_size e \<le> rm_end (m_addr e + m_size e) es"
    by (auto intro: rm_end_ge)
  with Cons show ?case by (fastforce simp: seg_units_def)
qed simp

lemma rm_end_snoc: "es \<noteq> [] \<Longrightarrow> rm_end lo es = m_addr (last es) + m_size (last es)"
  by (induction es arbitrary: lo) auto


lemma rm_split: "rm_left addr es @ rm_right addr es = es"
  by (simp add: rm_left_def rm_right_def)

lemma rm_left_le: "e \<in> set (rm_left addr es) \<Longrightarrow> m_addr e \<le> addr"
  unfolding rm_left_def by (drule set_takeWhileD) simp

lemma rm_sorted_pos: "rm_sorted lo es \<Longrightarrow> e \<in> set es \<Longrightarrow> 0 < m_size e"
  by (induction es arbitrary: lo) auto

lemma rm_right_hd:
  assumes "rm_sorted lo es" "rm_right addr es = e # r"
  shows "addr < m_addr e"
proof -
  have "e \<in> set es" using assms(2) unfolding rm_right_def
    by (metis list.set_intros(1) set_dropWhileD)
  then have "m_size e \<noteq> 0" using rm_sorted_pos [OF assms(1)] by fastforce
  moreover have "\<not> (m_addr e \<le> addr \<and> m_size e \<noteq> 0)"
    using assms(2) unfolding rm_right_def dropWhile_eq_Cons_conv by simp
  ultimately show ?thesis by auto
qed

definition seg_set :: "int \<Rightarrow> int \<Rightarrow> int set" where
  "seg_set addr sz = {addr ..< addr + sz}"

definition rm_cons :: "mapent list \<Rightarrow> mapent list \<Rightarrow> int \<Rightarrow> int \<Rightarrow> bool" where
  "rm_cons es es' addr sz \<longleftrightarrow>
     rm_sorted 0 es' \<and> rm_units es' = rm_units es \<union> seg_set addr sz"

definition rmfree_ok :: "mapent list \<Rightarrow> int \<Rightarrow> int \<Rightarrow> (mapent list) option \<Rightarrow> bool" where
  "rmfree_ok es addr sz res \<longleftrightarrow>
    (case res of
       None \<Rightarrow> seg_set addr sz \<inter> rm_units es \<noteq> {}
     | Some es' \<Rightarrow> seg_set addr sz \<inter> rm_units es = {} \<and> rm_cons es es' addr sz
                    \<and> length es' \<le> Suc (length es))"

lemma rmfree_ok_None:
  "a \<in> seg_set addr sz \<Longrightarrow> a \<in> rm_units es \<Longrightarrow> rmfree_ok es addr sz None"
  by (auto simp: rmfree_ok_def)

lemma rmfree_ok_Some:
  assumes "\<And>a. a \<in> rm_units es \<Longrightarrow> addr \<le> a \<Longrightarrow> a < addr + sz \<Longrightarrow> False"
    and "rm_sorted 0 es'" "rm_units es' = rm_units es \<union> {addr ..< addr + sz}"
    and "length es' \<le> Suc (length es)"
  shows "rmfree_ok es addr sz (Some es')"
  using assms by (auto simp: rmfree_ok_def rm_cons_def seg_set_def)

lemma seg_units_join:
  "addr \<le> b \<Longrightarrow> b \<le> c \<Longrightarrow> {addr ..< b} \<union> {b ..< c} = {addr ..< (c::int)}"
  by auto

declare rmfree_ents.simps [simp del]

text \<open>The two shapes of the left neighbour.\<close>

lemma rmfree_ents_left_abut:
  assumes l: "l = l0 @ [x]" and s: "rm_sorted 0 (l @ r)" and sz: "0 < sz"
    and abut: "m_addr x + m_size x = addr"
  shows "rmfree_ok (l @ r) addr sz (rmfree_ents sz addr l r)"
proof -
  have x: "rm_sorted 0 l0" "rm_end 0 l0 < m_addr x" "0 < m_size x" "rm_sorted addr r"
    using s l abut by (auto simp: rm_sorted_append)
  have l0: "a < m_addr x" if "a \<in> rm_units l0" for a
    using rm_units_below [OF x(1) that] x(2) by simp
  show ?thesis
  proof (cases r)
    case Nil
    have v: "rmfree_ents sz addr l r = Some (l0 @ [x\<lparr>m_size := m_size x + sz\<rparr>])"
      using Nil l abut by (simp add: rmfree_ents.simps)
    show ?thesis unfolding v
    proof (rule rmfree_ok_Some)
      show "rm_units (l0 @ [x\<lparr>m_size := m_size x + sz\<rparr>]) = rm_units (l @ r) \<union> {addr ..< addr + sz}"
        using Nil l abut x sz by (auto simp: seg_units_def)
    qed (use Nil l abut x sz l0 in \<open>force simp: rm_sorted_append seg_units_def\<close>)+
  next
    case (Cons e r')
    have e: "addr < m_addr e" "0 < m_size e" "rm_sorted (m_addr e + m_size e) r'"
      using x Cons by auto
    have r': "m_addr e + m_size e < a" if "a \<in> rm_units r'" for a
      using rm_sorted_units [OF e(3) that] by simp
    have pos: "0 < m_addr e"
      using rm_end_ge [OF x(1)] x abut e by simp
    consider "addr + sz > m_addr e" | "addr + sz = m_addr e" | "addr + sz < m_addr e"
      by linarith
    then show ?thesis
    proof cases
      case 1
      then have v: "rmfree_ents sz addr l r = None"
        using Cons l abut pos by (simp add: rmfree_ents.simps)
      show ?thesis unfolding v
        by (rule rmfree_ok_None [of "m_addr e"]) (use 1 e Cons in \<open>auto simp: seg_set_def seg_units_def\<close>)
    next
      case 2
      then have v: "rmfree_ents sz addr l r
          = Some (l0 @ x\<lparr>m_size := m_size x + sz + m_size e\<rparr> # r')"
        using Cons l abut pos by (simp add: rmfree_ents.simps)
      show ?thesis unfolding v
      proof (rule rmfree_ok_Some)
        show "rm_units (l0 @ x\<lparr>m_size := m_size x + sz + m_size e\<rparr> # r')
            = rm_units (l @ r) \<union> {addr ..< addr + sz}"
          using Cons l abut x sz 2 e by (auto simp: seg_units_def)
        show "rm_sorted 0 (l0 @ x\<lparr>m_size := m_size x + sz + m_size e\<rparr> # r')"
          using x e sz by (simp add: rm_sorted_append abut [symmetric] 2 [symmetric] add.assoc)
        show "False" if "a \<in> rm_units (l @ r)" "addr \<le> a" "a < addr + sz" for a
          using that l Cons abut 2 x by (auto simp: seg_units_def dest: l0 r')
      qed (use Cons l in simp)
    next
      case 3
      then have v: "rmfree_ents sz addr l r = Some (l0 @ x\<lparr>m_size := m_size x + sz\<rparr> # e # r')"
        using Cons l abut pos by (simp add: rmfree_ents.simps)
      show ?thesis unfolding v
      proof (rule rmfree_ok_Some)
        show "rm_units (l0 @ x\<lparr>m_size := m_size x + sz\<rparr> # e # r')
            = rm_units (l @ r) \<union> {addr ..< addr + sz}"
          using Cons l abut x sz e by (auto simp: seg_units_def)
        show "rm_sorted 0 (l0 @ x\<lparr>m_size := m_size x + sz\<rparr> # e # r')"
          using x e sz 3 abut by (simp add: rm_sorted_append)
        show "False" if "a \<in> rm_units (l @ r)" "addr \<le> a" "a < addr + sz" for a
          using that l Cons abut 3 x by (auto simp: seg_units_def dest: l0 r')
      qed (use Cons l in simp)
    qed
  qed
qed

lemma rmfree_ents_no_abut:
  assumes s: "rm_sorted 0 (l @ r)" and sz: "0 < sz" and pos: "0 < addr"
    and noabut: "rm_end 0 l < addr"
    and right: "\<And>e r'. r = e # r' \<Longrightarrow> addr < m_addr e"
  shows "rmfree_ok (l @ r) addr sz (rmfree_ents sz addr l r)"
proof -
  have l: "rm_sorted 0 l" "rm_sorted (rm_end 0 l) r"
    using s by (auto simp: rm_sorted_append)
  have na: "\<not> (l \<noteq> [] \<and> m_addr (last l) + m_size (last l) \<ge> addr)"
    using noabut rm_end_snoc [of l 0] by auto
  have lu: "a < addr" if "a \<in> rm_units l" for a
    using rm_units_below [OF l(1) that] noabut by simp
  show ?thesis
  proof (cases r)
    case Nil
    have v: "rmfree_ents sz addr l r = Some (l @ [\<lparr>m_size = sz, m_addr = addr\<rparr>])"
      using Nil na by (auto simp: rmfree_ents.simps)
    show ?thesis unfolding v
      by (rule rmfree_ok_Some)
        (use Nil l noabut sz in \<open>auto simp: rm_sorted_append seg_units_def dest: lu\<close>)
  next
    case (Cons e r')
    have e: "addr < m_addr e" "0 < m_size e" "rm_sorted (m_addr e + m_size e) r'"
      using l Cons right by auto
    have r': "m_addr e + m_size e < a" if "a \<in> rm_units r'" for a
      using rm_sorted_units [OF e(3) that] by simp
    consider "addr + sz > m_addr e" | "addr + sz = m_addr e" | "addr + sz < m_addr e"
      by linarith
    then show ?thesis
    proof cases
      case 1
      then have v: "rmfree_ents sz addr l r = None"
        using Cons na e by (auto simp: rmfree_ents.simps)
      show ?thesis unfolding v
        by (rule rmfree_ok_None [of "m_addr e"]) (use 1 e Cons in \<open>auto simp: seg_set_def seg_units_def\<close>)
    next
      case 2
      then have v: "rmfree_ents sz addr l r
          = Some (l @ \<lparr>m_size = m_size e + sz, m_addr = m_addr e - sz\<rparr> # r')"
        using Cons na e by (auto simp: rmfree_ents.simps)
      show ?thesis unfolding v
        by (rule rmfree_ok_Some)
          (use Cons l noabut sz 2 e in \<open>auto simp: rm_sorted_append seg_units_def dest: lu r'\<close>)
    next
      case 3
      then have v: "rmfree_ents sz addr l r = Some (l @ \<lparr>m_size = sz, m_addr = addr\<rparr> # e # r')"
        using Cons na e by (auto simp: rmfree_ents.simps)
      show ?thesis unfolding v
        by (rule rmfree_ok_Some)
          (use Cons l noabut sz 3 e in \<open>auto simp: rm_sorted_append seg_units_def dest: lu r'\<close>)
    qed
  qed
qed


lemma rmfree_ents_ok:
  assumes s: "rm_sorted 0 es" and sz: "0 < sz" and pos: "0 < addr"
  shows "rmfree_ok es addr sz (rmfree_ents sz addr (rm_left addr es) (rm_right addr es))"
proof -
  let ?l = "rm_left addr es" and ?r = "rm_right addr es"
  have s': "rm_sorted 0 (?l @ ?r)" using s by (simp add: rm_split)
  have right: "addr < m_addr e" if "?r = e # r'" for e r'
    using rm_right_hd [OF s that] .
  have "rmfree_ok (?l @ ?r) addr sz (rmfree_ents sz addr ?l ?r)"
  proof (cases "?l = []")
    case True
    with s' sz pos right show ?thesis
      by (intro rmfree_ents_no_abut) auto
  next
    case False
    then obtain l0 x where l: "?l = l0 @ [x]" by (metis rev_exhaust)
    have xe: "rm_end 0 ?l = m_addr x + m_size x" using l by simp
    have xle: "m_addr x \<le> addr" using rm_left_le [of x addr es] l by simp
    have xpos: "0 < m_size x" using rm_sorted_pos [OF s', of x] l by simp
    consider "m_addr x + m_size x < addr" | "m_addr x + m_size x = addr"
      | "m_addr x + m_size x > addr" by linarith
    then show ?thesis
    proof cases
      case 1
      with s' sz pos right xe show ?thesis
        by (intro rmfree_ents_no_abut) auto
    next
      case 2
      with l s' sz show ?thesis by (intro rmfree_ents_left_abut) auto
    next
      case 3
      then have v: "rmfree_ents sz addr ?l ?r = None"
        using l by (simp add: rmfree_ents.simps)
      show ?thesis unfolding v
        by (rule rmfree_ok_None [of addr])
          (use l 3 xle sz in \<open>auto simp: seg_set_def seg_units_def\<close>)
    qed
  qed
  then show ?thesis by (simp add: rm_split)
qed

text \<open>The ranges that a table overflow gives up.\<close>

fun ev_lost :: "rm_event \<Rightarrow> int set" where
  "ev_lost (Rmap_ovflo a b) = {a ..< b}"
| "ev_lost Wakeup_kernelmap = {}"

definition rm_lost :: "rm_event list \<Rightarrow> int set" where
  "rm_lost evs = (\<Union>ev\<in>set evs. ev_lost ev)"

lemma rm_lost_simps [simp]:
  "rm_lost [] = {}" "rm_lost (ev # evs) = ev_lost ev \<union> rm_lost evs"
  "rm_lost (evs @ fvs) = rm_lost evs \<union> rm_lost fvs"
  by (auto simp: rm_lost_def)

lemma rm_trim_ok:
  assumes s: "rm_sorted 0 es" and lim: "2 \<le> limit"
  shows "rm_sorted 0 (fst (rm_trim limit es))"
    and "rm_units (fst (rm_trim limit es)) = rm_units es - rm_lost (snd (rm_trim limit es))"
proof -
  have *: "rm_sorted 0 (fst (rm_trim limit es)) \<and>
      rm_units (fst (rm_trim limit es)) = rm_units es - rm_lost (snd (rm_trim limit es))"
  proof (cases "length es + 1 > limit")
    case True
    then have len: "2 \<le> length es" using lim by simp
    then obtain es1 y where es1: "es = es1 @ [y]" by (cases es rule: rev_cases) auto
    with len obtain es0 x where "es1 = es0 @ [x]" by (cases es1 rule: rev_cases) auto
    with es1 have es: "es = es0 @ [x, y]" by simp
    have o: "rm_sorted 0 es0" "rm_end 0 es0 < m_addr x" "0 < m_size x"
        "m_addr x + m_size x < m_addr y" "0 < m_size y"
      using s es by (auto simp: rm_sorted_append)
    have lu: "a < m_addr x" if "a \<in> rm_units es0" for a
      using rm_units_below [OF o(1) that] o by simp
    have v: "rm_trim limit es = (es0 @ [y], [Rmap_ovflo (m_addr x) (m_addr x + m_size x)])"
      using True es by (simp add: rm_trim_def Let_def butlast_append)
    show ?thesis unfolding v using o es
      by (auto simp: rm_sorted_append seg_units_def dest: lu)
  next
    case False
    with s show ?thesis by (simp add: rm_trim_def)
  qed
  then show "rm_sorted 0 (fst (rm_trim limit es))"
    and "rm_units (fst (rm_trim limit es)) = rm_units es - rm_lost (snd (rm_trim limit es))"
    by auto
qed

definition rm_free_units :: "rmap \<Rightarrow> int set" where
  "rm_free_units mp = rm_units (m_ents mp)"

definition swap_first :: "mapent \<Rightarrow> int" where
  "swap_first e = DMMAX - m_addr e mod DMMAX"

lemma rmalloc_ents_None:
  "rmalloc_ents swap sz pre es = None \<Longrightarrow> \<not> swap \<Longrightarrow> e \<in> set es \<Longrightarrow> m_size e < sz"
  by (induction swap sz pre es rule: rmalloc_ents.induct) (auto split: if_splits simp: Let_def)

lemma rmalloc_ents_Some:
  "rmalloc_ents swap sz pre es = Some res \<Longrightarrow>
   \<exists>l e r. es = l @ e # r \<and> sz \<le> m_size e \<and> (\<not> swap \<longrightarrow> (\<forall>x\<in>set l. m_size x < sz)) \<and>
     (if swap \<and> swap_first e < m_size e
      then sz \<le> m_size e - swap_first e
         \<and> res = (pre @ l @ e\<lparr>m_size := swap_first e\<rparr> # r, m_addr e + swap_first e,
                  Some (m_size e - swap_first e - sz))
      else if m_size e = sz then res = (pre @ l @ r, m_addr e, None)
      else res = (pre @ l @ e\<lparr>m_addr := m_addr e + sz, m_size := m_size e - sz\<rparr> # r,
                  m_addr e, None))"
proof (induction swap sz pre es rule: rmalloc_ents.induct)
  case (2 swap sz pre e es)
  let ?skip = "m_size e < sz \<or> swap \<and> swap_first e < m_size e \<and> m_size e - swap_first e < sz"
  show ?case
  proof (cases ?skip)
    case True
    then have "rmalloc_ents swap sz (pre @ [e]) es = Some res"
      using "2.prems" by (auto simp: Let_def swap_first_def split: if_splits)
    moreover have "sz \<le> m_size e \<Longrightarrow> swap" using True by auto
    ultimately obtain l x r where "es = l @ x # r" and x: "sz \<le> m_size x"
      "\<not> swap \<longrightarrow> (\<forall>y\<in>set l. m_size y < sz)"
      "if swap \<and> swap_first x < m_size x
      then sz \<le> m_size x - swap_first x
         \<and> res = ((pre @ [e]) @ l @ x\<lparr>m_size := swap_first x\<rparr> # r, m_addr x + swap_first x,
                  Some (m_size x - swap_first x - sz))
      else if m_size x = sz then res = ((pre @ [e]) @ l @ r, m_addr x, None)
      else res = ((pre @ [e]) @ l @ x\<lparr>m_addr := m_addr x + sz, m_size := m_size x - sz\<rparr> # r,
                  m_addr x, None)"
      using True 2(1) 2(2) unfolding swap_first_def by (metis not_le)
    with True show ?thesis
      by (intro exI [of _ "e # l"] exI [of _ x] exI [of _ r]) auto
  next
    case False
    with "2.prems" show ?thesis
      by (intro exI [of _ "[]"] exI [of _ e] exI [of _ es])
        (auto simp: Let_def swap_first_def split: if_splits)
  qed
qed simp

lemma run_in_segment:
  assumes "rm_sorted lo (e # es)" "{b ..< b + sz} \<subseteq> rm_units (e # es)" "0 < sz"
  shows "{b ..< b + sz} \<subseteq> seg_units e \<or> {b ..< b + sz} \<subseteq> rm_units es"
proof -
  let ?stop = "m_addr e + m_size e"
  have gap: "?stop < a" if "a \<in> rm_units es" for a
    using rm_sorted_units [of ?stop es a] assms(1) that by simp
  show ?thesis
  proof (cases "b < ?stop")
    case True
    have "?stop \<notin> {b ..< b + sz}"
      using gap [of ?stop] assms(2) by (auto simp: seg_units_def)
    then have "b + sz \<le> ?stop" using True by auto
    then have "{b ..< b + sz} \<inter> rm_units es = {}" using gap by fastforce
    then show ?thesis using assms(2) by auto
  next
    case False
    then have "{b ..< b + sz} \<inter> seg_units e = {}" by (auto simp: seg_units_def)
    then show ?thesis using assms(2) by auto
  qed
qed

lemma run_of_segments:
  assumes "rm_sorted lo es" "{b ..< b + sz} \<subseteq> rm_units es" "0 < sz"
  shows "\<exists>e\<in>set es. m_addr e \<le> b \<and> b + sz \<le> m_addr e + m_size e"
  using assms
proof (induction es arbitrary: lo)
  case Nil
  then have "b \<in> {}" by (metis atLeastLessThan_iff less_add_same_cancel1 order_refl rm_units_simps(1) subsetD)
  then show ?case by simp
next
  case (Cons e es)
  from run_in_segment [OF Cons.prems] show ?case
  proof
    assume "{b ..< b + sz} \<subseteq> seg_units e"
    then have "b \<in> seg_units e" "b + sz - 1 \<in> seg_units e"
      using Cons.prems(3) by auto
    then show ?thesis by (auto simp: seg_units_def)
  next
    assume "{b ..< b + sz} \<subseteq> rm_units es"
    with Cons show ?thesis by auto
  qed
qed

text \<open>C1: rmfree on a well-formed map panics exactly when part of the returned range is already
  free; otherwise it adds exactly the returned range to the free units, less the segment that
  a full table makes it report as lost, and leaves the map sorted and coalesced.\<close>

theorem rmfree_spec:
  assumes "rm_inv mp" "0 < sz" "0 < addr" "2 \<le> m_limit mp"
  shows "if {addr ..< addr + sz} \<inter> rm_free_units mp \<noteq> {}
         then rmfree mp sz addr = Inl ''bad rmfree''
         else \<exists>mp' ev. rmfree mp sz addr = Inr (mp', ev) \<and> rm_inv mp' \<and> m_limit mp' = m_limit mp
              \<and> rm_free_units mp' = (rm_free_units mp \<union> {addr ..< addr + sz}) - rm_lost ev"
proof -
  let ?res = "rmfree_ents sz addr (rm_left addr (m_ents mp)) (rm_right addr (m_ents mp))"
  have ok: "rmfree_ok (m_ents mp) addr sz ?res"
    using assms by (intro rmfree_ents_ok) (auto simp: rm_inv_def)
  show ?thesis
  proof (cases ?res)
    case None
    with ok assms show ?thesis
      by (auto simp: rmfree_def rmfree_ok_def rm_free_units_def seg_set_def)
  next
    case (Some es)
    then have es: "seg_set addr sz \<inter> rm_units (m_ents mp) = {}" "rm_sorted 0 es"
        "rm_units es = rm_units (m_ents mp) \<union> seg_set addr sz"
      using ok by (auto simp: rmfree_ok_def rm_cons_def)
    let ?t = "if length es > length (m_ents mp) then rm_trim (m_limit mp) es else (es, [])"
    obtain es' ev where t: "?t = (es', ev)" by (cases ?t)
    have t': "rm_sorted 0 es'" "rm_units es' = rm_units es - rm_lost ev"
      using rm_trim_ok [OF es(2) assms(4)] es(2) t by (auto split: if_splits)
    define wake where "wake \<longleftrightarrow> m_name mp = Kernelmap \<and> kmapwnt mp"
    define mp' where "mp' = mp\<lparr>m_ents := es', kmapwnt := kmapwnt mp \<and> \<not> wake\<rparr>"
    have r: "rmfree mp sz addr = Inr (mp', ev @ (if wake then [Wakeup_kernelmap] else []))"
      using assms Some t by (simp add: rmfree_def Let_def split_beta mp'_def wake_def)
    have "rm_inv mp'" "m_limit mp' = m_limit mp"
      "rm_free_units mp' = (rm_free_units mp \<union> {addr ..< addr + sz})
         - rm_lost (ev @ (if wake then [Wakeup_kernelmap] else []))"
      using t' es by (simp_all add: rm_inv_def rm_free_units_def seg_set_def mp'_def)
    moreover have "\<not> {addr ..< addr + sz} \<inter> rm_free_units mp \<noteq> {}"
      using es by (simp add: seg_set_def rm_free_units_def)
    ultimately show ?thesis using r by auto
  qed
qed


lemma rm_sorted_take:
  assumes "rm_sorted 0 (l @ e # r)" "0 < sz" "sz \<le> m_size e"
  shows "0 < m_addr e" "{m_addr e ..< m_addr e + sz} \<subseteq> rm_units (l @ e # r)"
    and "m_size e = sz \<Longrightarrow> rm_sorted 0 (l @ r)
      \<and> rm_units (l @ r) = rm_units (l @ e # r) - {m_addr e ..< m_addr e + sz}"
    and "sz < m_size e \<Longrightarrow>
      (let e' = e\<lparr>m_addr := m_addr e + sz, m_size := m_size e - sz\<rparr> in rm_sorted 0 (l @ e' # r)
      \<and> rm_units (l @ e' # r) = rm_units (l @ e # r) - {m_addr e ..< m_addr e + sz})"
proof -
  have l: "rm_sorted 0 l" "rm_end 0 l < m_addr e" "0 < m_size e"
    "rm_sorted (m_addr e + m_size e) r"
    using assms(1) by (auto simp: rm_sorted_append)
  have lu: "a < m_addr e" if "a \<in> rm_units l" for a
    using rm_units_below [OF l(1) that] l(2) by simp
  have ru: "m_addr e + m_size e < a" if "a \<in> rm_units r" for a
    using rm_sorted_units [OF l(4) that] .
  show "0 < m_addr e" using rm_end_ge [OF l(1)] l(2) by simp
  show "{m_addr e ..< m_addr e + sz} \<subseteq> rm_units (l @ e # r)"
    using assms by (auto simp: seg_units_def)
  show "rm_sorted 0 (l @ r)
      \<and> rm_units (l @ r) = rm_units (l @ e # r) - {m_addr e ..< m_addr e + sz}"
    if "m_size e = sz"
    using that l rm_sorted_mono [OF l(4), of "rm_end 0 l"]
    by (auto simp: rm_sorted_append seg_units_def dest: lu ru)
  show "let e' = e\<lparr>m_addr := m_addr e + sz, m_size := m_size e - sz\<rparr> in rm_sorted 0 (l @ e' # r)
      \<and> rm_units (l @ e' # r) = rm_units (l @ e # r) - {m_addr e ..< m_addr e + sz}"
    if "sz < m_size e"
    using that l assms(2) by (auto simp: rm_sorted_append seg_units_def Let_def dest: lu ru)
qed

text \<open>C2: on an ordinary map (netmap among them) rmalloc is first fit on addresses: it returns 0
  and leaves the map alone exactly when no run of the requested length is free; otherwise the run
  it returns is free, is the lowest such run, and is all that leaves the free units.\<close>

theorem rmalloc_first_fit:
  assumes inv: "rm_inv mp" and sz: "0 < sz" and ns: "m_name mp \<noteq> Swapmap"
  shows "\<exists>mp' a. rmalloc mp sz = Inr (mp', a, []) \<and> rm_inv mp' \<and>
    (if a = 0 then mp' = mp \<and> (\<forall>b. \<not> {b ..< b + sz} \<subseteq> rm_free_units mp)
     else {a ..< a + sz} \<subseteq> rm_free_units mp
        \<and> rm_free_units mp' = rm_free_units mp - {a ..< a + sz}
        \<and> (\<forall>b. {b ..< b + sz} \<subseteq> rm_free_units mp \<longrightarrow> a \<le> b))"
proof (cases "rmalloc_ents False sz [] (m_ents mp)")
  case None
  have "\<not> {b ..< b + sz} \<subseteq> rm_free_units mp" for b
    using run_of_segments [of 0 "m_ents mp" b sz] rmalloc_ents_None [OF None] inv sz
    by (fastforce simp: rm_inv_def rm_free_units_def)
  moreover have "rmalloc mp sz = Inr (mp, 0, [])"
    using None ns sz by (simp add: rmalloc_def)
  ultimately show ?thesis using inv by auto
next
  case (Some res)
  then obtain l e r where es: "m_ents mp = l @ e # r" and e: "sz \<le> m_size e"
    and small: "\<forall>x\<in>set l. m_size x < sz"
    and res: "res = (if m_size e = sz then (l @ r, m_addr e, None)
      else (l @ e\<lparr>m_addr := m_addr e + sz, m_size := m_size e - sz\<rparr> # r, m_addr e, None))"
    using rmalloc_ents_Some [OF Some] by (auto split: if_splits)
  have s: "rm_sorted 0 (l @ e # r)" using inv es by (simp add: rm_inv_def)
  note take = rm_sorted_take [OF s sz e]
  have low: "m_addr e \<le> b" if "{b ..< b + sz} \<subseteq> rm_free_units mp" for b
  proof -
    have "{b ..< b + sz} \<subseteq> rm_units (l @ e # r)"
      using that es by (simp only: rm_free_units_def)
    then obtain x where x: "x \<in> set (l @ e # r)" "m_addr x \<le> b" "b + sz \<le> m_addr x + m_size x"
      using run_of_segments [OF s _ sz, of b] by blast
    then have "x \<notin> set l" using small by fastforce
    then consider "x = e" | "x \<in> set r" using x by auto
    then show ?thesis
    proof cases
      case 2
      have r: "rm_sorted (m_addr e + m_size e) r" using s by (simp add: rm_sorted_append)
      have "m_addr x \<in> rm_units r"
        using 2 rm_sorted_pos [OF r 2] by (auto simp: rm_units_def seg_units_def)
      then show ?thesis using rm_sorted_units [OF r] x(2) e sz by force
    qed (use x in simp)
  qed
  have m: "rmalloc mp sz = Inr (mp\<lparr>m_ents := fst res\<rparr>, m_addr e, [])"
    using Some ns sz res by (auto simp: rmalloc_def)
  have "rm_inv (mp\<lparr>m_ents := fst res\<rparr>)"
    "rm_free_units (mp\<lparr>m_ents := fst res\<rparr>) = rm_free_units mp - {m_addr e ..< m_addr e + sz}"
    using take(3,4) e res es by (auto simp: rm_inv_def rm_free_units_def Let_def)
  then show ?thesis using m take(1,2) low es
    by (intro exI [of _ "mp\<lparr>m_ents := fst res\<rparr>"] exI [of _ "m_addr e"])
      (simp add: rm_free_units_def)
qed

section \<open>Instances\<close>

definition sample_map :: rmap where
  "sample_map = \<lparr>m_name = Othermap, m_limit = 4,
     m_ents = [\<lparr>m_size = 3, m_addr = 2\<rparr>, \<lparr>m_size = 4, m_addr = 9\<rparr>], kmapwnt = False\<rparr>"

lemma sample_map_inv: "rm_inv sample_map" "m_limit sample_map = 4" "m_name sample_map = Othermap"
  by (simp_all add: sample_map_def rm_inv_def)

lemma sample_map_units: "rm_free_units sample_map = {2 ..< 5} \<union> {9 ..< 13}"
  by (simp add: sample_map_def rm_free_units_def seg_units_def)

theorem rmfree_spec_witness:
  "\<exists>mp' ev. rmfree sample_map 4 5 = Inr (mp', ev) \<and> rm_inv mp'
     \<and> rm_free_units mp' = (rm_free_units sample_map \<union> {5 ..< 9}) - rm_lost ev"
proof -
  have "{5 ..< 5 + 4} \<inter> rm_free_units sample_map = {}"
    by (auto simp: sample_map_units)
  then show ?thesis
    using rmfree_spec [of sample_map 4 5] sample_map_inv by auto
qed

theorem rmalloc_first_fit_witness:
  "\<exists>mp' a. rmalloc sample_map 4 = Inr (mp', a, []) \<and> rm_inv mp' \<and> a \<noteq> 0
     \<and> {a ..< a + 4} \<subseteq> rm_free_units sample_map"
proof -
  have "{9 ..< 9 + 4} \<subseteq> rm_free_units sample_map" by (auto simp: sample_map_units)
  then show ?thesis
    using rmalloc_first_fit [of sample_map 4] sample_map_inv by (fastforce split: if_splits)
qed

end
