(* ===== verification/Mbuf_Pool.thy ===== *)
theory Mbuf_Pool
  imports Mbuf Rmap
begin

text \<open>
  The buffer allocator of mbuf.c: pages of eight buffers on a circular list of page table entries,
  whose top \<open>n_free\<close> is the page that buffers are taken from.

  \<open>mem\<close> is the buffer memory (netutl), one record per buffer address; a buffer on a free
  list has \<open>m_off = 0xff\<close>.  A buffer that is in use is held, as a value, by the chain it is
  in; \<open>mem\<close> keeps what was last written there by the allocator, so a buffer just allocated
  has the stale length and data of its former use.  A panic is \<open>Inl\<close>.  The two walks over
  the page list are given NNETPAGES rounds, as many as a u_char index can tell pages apart; a walk
  that has not ended by then never ends (\<open>Inl ''hang''\<close>).

  The mapping of the pages to physical memory (vmemall, vmaccess, memfree) is the virtual memory
  system's and has no part in the model; netmap is the resource map of the page numbers.
\<close>

record pfree =
  p_free :: nat
  p_off :: nat
  p_next :: nat
  p_prev :: nat

record mpool =
  mem :: "nat \<Rightarrow> mbuf"
  freetab :: "nat \<Rightarrow> pfree"
  n_free :: nat
  n_pages :: int
  n_bufs :: int
  n_hiwat :: int
  n_lowat :: int
  netmap :: rmap

definition NNETPAGES :: nat where "NNETPAGES = 256"

definition mtopf :: "nat \<Rightarrow> nat" where "mtopf m = m div NMBPG"
definition mtoff :: "nat \<Rightarrow> nat" where "mtoff m = m mod NMBPG"
definition pftom :: "nat \<Rightarrow> nat" where "pftom i = i * NMBPG"

definition upd_page :: "nat \<Rightarrow> (pfree \<Rightarrow> pfree) \<Rightarrow> mpool \<Rightarrow> mpool" where
  "upd_page i f p = p\<lparr>freetab := (freetab p)(i := f (freetab p i))\<rparr>"

definition set_mem :: "nat \<Rightarrow> mbuf \<Rightarrow> mpool \<Rightarrow> mpool" where
  "set_mem a m p = p\<lparr>mem := (mem p)(a := m)\<rparr>"

section \<open>Allocation\<close>

text \<open>The search of m_get for another free buffer in the page, from offset \<open>j\<close> round.\<close>

fun next_in_page :: "nat \<Rightarrow> nat \<Rightarrow> nat \<Rightarrow> (nat \<Rightarrow> mbuf) \<Rightarrow> nat option" where
  "next_in_page 0 n j m = None"
| "next_in_page (Suc k) n j m =
    (let j = (j + 1) mod NMBPG in
     if m_off (m (n + j)) = 255 then Some j else next_in_page k n j m)"

fun next_page :: "nat \<Rightarrow> nat \<Rightarrow> nat \<Rightarrow> (nat \<Rightarrow> pfree) \<Rightarrow> nat option" where
  "next_page 0 i j ft = None"
| "next_page (Suc k) i j ft =
    (if i = j then Some j
     else if p_free (ft i) \<noteq> 0 then Some i
     else next_page k (p_next (ft i)) j ft)"

text \<open>m_get behind the accounting of n_bufs: take the buffer at the top page's p_off.\<close>

definition m_take :: "mpool \<Rightarrow> string + mbuf \<times> mpool" where
  "m_take pool =
    (let j = n_free pool; n = pftom j; a = n + p_off (freetab pool j);
         m = (mem pool a)\<lparr>m_id := a, m_off := 0, m_act := 0\<rparr>;
         pool = set_mem a m pool;
         free = uchar (int (p_free (freetab pool j)) - 1);
         pool = upd_page j (p_free_update (\<lambda>_. free)) pool in
     if free \<noteq> 0 then
       (case next_in_page (NMBPG - 1) n (p_off (freetab pool j)) (mem pool) of
          Some o' \<Rightarrow> Inr (m, upd_page j (p_off_update (\<lambda>_. o')) pool)
        | None \<Rightarrow> Inl ''m_get: bad freelist'')
     else
       (case next_page NNETPAGES (p_next (freetab pool j)) j (freetab pool) of
          None \<Rightarrow> Inl ''hang''
        | Some i \<Rightarrow> if i = j then Inl ''m_get: no free''
                    else Inr (m, pool\<lparr>n_free := i\<rparr>)))"

section \<open>Freeing\<close>

definition m_insert :: "nat \<Rightarrow> mpool \<Rightarrow> mpool" where
  "m_insert i pool =
    (let top = n_free pool; prv = p_prev (freetab pool i); nxt = p_next (freetab pool i) in
     if i \<noteq> top \<and> p_free (freetab pool prv) \<noteq> NMBPG \<and> p_free (freetab pool nxt) \<noteq> NMBPG
     then
       (let pool = upd_page prv (p_next_update (\<lambda>_. nxt)) pool;
            pool = upd_page nxt (p_prev_update (\<lambda>_. prv)) pool;
            pool = upd_page i (p_prev_update (\<lambda>_. top)) pool;
            j = p_next (freetab pool top);
            pool = upd_page i (p_next_update (\<lambda>_. j)) pool;
            pool = upd_page top (p_next_update (\<lambda>_. i)) pool in
        upd_page j (p_prev_update (\<lambda>_. i)) pool)
     else if p_free (freetab pool nxt) = NMBPG then pool\<lparr>n_free := i\<rparr>
     else pool)"

text \<open>The body that m_free and m_freem share: \<open>m\<close> is the buffer with its last contents.\<close>

definition m_release :: "mbuf \<Rightarrow> mpool \<Rightarrow> string + mpool" where
  "m_release m pool =
    (let a = m_id m; i = mtopf a in
     if m_off (mem pool a) = 255 then Inl ''m_free: already free''
     else
       (let pool = set_mem a (m\<lparr>m_off := 255\<rparr>) pool;
            free = uchar (int (p_free (freetab pool i)) + 1);
            pool = upd_page i (p_off_update (\<lambda>_. mtoff a)) pool;
            pool = upd_page i (p_free_update (\<lambda>_. free)) pool in
        if free > NMBPG then Inl ''m_free: bad freelist''
        else
          (let pool = (if free \<ge> NMBPG then m_insert i pool else pool) in
           Inr (pool\<lparr>n_bufs := n_bufs pool + 1\<rparr>))))"

text \<open>m_free gives back the next buffer of the chain: the rest of the list.\<close>

fun m_free_p :: "mbuf list \<Rightarrow> mpool \<Rightarrow> string + mbuf list \<times> mpool" where
  "m_free_p [] pool = Inr ([], pool)"
| "m_free_p (m # ms) pool =
    (case m_release m pool of Inl e \<Rightarrow> Inl e | Inr pool' \<Rightarrow> Inr (ms, pool'))"

fun m_freem_p :: "mbuf list \<Rightarrow> mpool \<Rightarrow> string + nat \<times> mpool" where
  "m_freem_p [] pool = Inr (0, pool)"
| "m_freem_p (m # ms) pool =
    (case m_release m pool of
       Inl e \<Rightarrow> Inl e
     | Inr pool' \<Rightarrow>
         (case m_freem_p ms pool' of Inl e \<Rightarrow> Inl e | Inr (n, pool'') \<Rightarrow> Inr (Suc n, pool'')))"

section \<open>Pages\<close>

definition mark_free :: "nat \<Rightarrow> nat \<Rightarrow> mpool \<Rightarrow> mpool" where
  "mark_free a k pool =
    pool\<lparr>mem := (\<lambda>i. if a \<le> i \<and> i < a + k then (mem pool i)\<lparr>m_off := 255\<rparr> else mem pool i)\<rparr>"

fun link_new :: "nat \<Rightarrow> nat \<Rightarrow> nat \<Rightarrow> mpool \<Rightarrow> mpool" where
  "link_new 0 n j pool = pool"
| "link_new (Suc k) n j pool =
    (let pool = upd_page j (\<lambda>p. p\<lparr>p_off := 0, p_free := 8\<rparr>) pool;
         pool = (if n > 1 then upd_page j (\<lambda>p. p\<lparr>p_next := uchar (int j + 1),
                                                p_prev := uchar (int j - 1)\<rparr>) pool
                 else pool) in
     link_new k n (j + 1) pool)"

definition pg_alloc :: "int \<Rightarrow> mpool \<Rightarrow> string + bool \<times> mpool" where
  "pg_alloc n pool =
    (case rmalloc (netmap pool) n of
       Inl e \<Rightarrow> Inl e
     | Inr (mp, ia, _) \<Rightarrow>
         (let pool = pool\<lparr>netmap := mp\<rparr> in
          if ia = 0 then Inr (False, pool)
          else
            (let i = nat ia; cnt = nat n;
                 pool = mark_free (pftom i) (cnt * 8) pool;
                 pool = link_new cnt cnt i pool;
                 j = i + cnt - 1;
                 k = p_next (freetab pool (n_free pool));
                 pool = upd_page j (p_next_update (\<lambda>_. k)) pool;
                 pool = upd_page i (p_prev_update (\<lambda>_. uchar (int (n_free pool)))) pool;
                 pool = upd_page (n_free pool) (p_next_update (\<lambda>_. uchar ia)) pool;
                 pool = upd_page k (p_prev_update (\<lambda>_. uchar (int j))) pool in
             Inr (True, pool\<lparr>n_pages := n_pages pool + n, n_bufs := n_bufs pool + n * 8\<rparr>))))"

definition pg_relse :: "nat \<Rightarrow> mpool \<Rightarrow> string + mpool" where
  "pg_relse ndx pool =
    (if ndx = 0 then Inr pool
     else
       (case rmfree (netmap pool) 1 (int ndx) of
          Inl e \<Rightarrow> Inl e
        | Inr (mp, _) \<Rightarrow>
            (let pool = pool\<lparr>netmap := mp\<rparr>;
                 i = p_prev (freetab pool ndx); j = p_next (freetab pool ndx);
                 pool = upd_page i (p_next_update (\<lambda>_. j)) pool;
                 pool = upd_page j (p_prev_update (\<lambda>_. i)) pool;
                 pool = (if n_free pool = ndx then pool\<lparr>n_free := j\<rparr> else pool) in
             Inr (pool\<lparr>n_pages := n_pages pool - 1, n_bufs := n_bufs pool - int NMBPG\<rparr>))))"

text \<open>m_relse walks the totally free pages behind the top.\<close>

fun relse_loop :: "nat \<Rightarrow> int \<Rightarrow> nat \<Rightarrow> mpool \<Rightarrow> string + mpool" where
  "relse_loop 0 free i pool = Inl ''hang''"
| "relse_loop (Suc k) free i pool =
    (if free > 0 \<and> i \<noteq> n_free pool \<and> p_free (freetab pool i) = NMBPG then
       (let j = p_next (freetab pool i) in
        if i > 0 then
          (case pg_relse i pool of
             Inl e \<Rightarrow> Inl e
           | Inr pool' \<Rightarrow> relse_loop k (free - 1) j pool')
        else relse_loop k free j pool)
     else Inr pool)"

definition m_relse :: "mpool \<Rightarrow> string + mpool" where
  "m_relse pool =
    (let free = (n_bufs pool - n_hiwat pool) div 8 in
     relse_loop (Suc NNETPAGES) free (p_next (freetab pool (n_free pool))) pool)"

definition mbufinit :: "mpool \<Rightarrow> string + mpool" where
  "mbufinit pool =
    (let pool = mark_free 0 NMBPG pool;
         pool = upd_page 0 (\<lambda>_. \<lparr>p_free = 8, p_off = 0, p_next = 0, p_prev = 0\<rparr>) pool;
         pool = pool\<lparr>n_free := 0\<rparr> in
     case pg_alloc 3 pool of
       Inl e \<Rightarrow> Inl e
     | Inr (_, pool) \<Rightarrow>
         Inr (pool\<lparr>n_pages := 4, n_bufs := 32, n_lowat := 16, n_hiwat := 32\<rparr>))"

text \<open>mtophys: the physical address of a buffer, from the page frame number \<open>pfnum\<close> of its
  (512 byte) page and the offset in it.\<close>

definition mtophys :: "(nat \<Rightarrow> nat) \<Rightarrow> nat \<Rightarrow> nat" where
  "mtophys pfnum m = pfnum (m * MSIZE div 512) * 512 + m * MSIZE mod 512"

end
