(* ===== verification/Net_State.thy ===== *)
theory Net_State
  imports Mbuf_Pool
begin

text \<open>
  The state of the network kernel: the records of net.h, ifcb.h, tcp.h, ip.h, ucb.h, raw.h and
  the global variables, and the buffer calls that need all of it (m_get, m_expand, m_copy).

  Control blocks live in buffers and are named by the buffer's address (\<open>dtom\<close> is the
  identity on the name); \<open>tcbs\<close> and \<open>ucbs\<close> keep the contents of a block also after
  its buffer has been freed, as memory does, because the code goes on reading blocks it has just
  freed.  Doubly linked lists are lists.  A panic is recorded in \<open>n_panic\<close> and stays there:
  what the model does after a panic means nothing.  Effects outside the kernel's data (wakeups,
  signals, start of a device, console messages) are appended to \<open>n_out\<close>.  \<open>n_time\<close>
  is the time of day; \<open>n_junk_up\<close> and \<open>n_junk_i\<close> stand for automatic variables
  that the code reads without having set them.
\<close>

section \<open>TCP\<close>

text \<open>The header of a received segment after tcp_input has put its fields in host order, with the
  buffers it came in (\<open>dtom\<close> of the header and what follows).\<close>

record th =
  t_s :: addr
  t_d :: addr
  t_src :: u16
  t_dst :: u16
  t_len :: nat
  t_seq :: seq
  t_ackno :: seq
  t_off :: nat
  t_flags :: byte
  t_win :: u16
  t_urp :: u16
  t_m :: "mbuf list"

definition T_FIN :: byte where [net_simps]: "T_FIN = 0x01"
definition T_SYN :: byte where [net_simps]: "T_SYN = 0x02"
definition T_RST :: byte where [net_simps]: "T_RST = 0x04"
definition T_PUSH :: byte where [net_simps]: "T_PUSH = 0x08"
definition T_ACK :: byte where [net_simps]: "T_ACK = 0x10"
definition T_URG :: byte where [net_simps]: "T_URG = 0x20"

text \<open>\<open>n->t_flags & f\<close>\<close>

definition has :: "'a::len word \<Rightarrow> 'a word \<Rightarrow> bool" where
  "has fl f \<longleftrightarrow> fl AND f \<noteq> 0"

definition t_end :: "th \<Rightarrow> seq" where
  "t_end x = t_seq x + word_of_nat (t_len x) - 1"

text \<open>
  The control block.  \<open>t_rcv\<close> is the sequencing queue (t_rcv_next .. t_rcv_prev).
  \<open>t_ovl_end\<close> is the value \<open>t_end (tp->t_rcv_prev)\<close> has when the queue is empty
  and t_rcv_prev points at the block itself: it is made of whatever pointers lie under the header
  fields (t_opts and the high half of t_tcb_next) and is any number as far as the code goes.
\<close>

record tcb =
  t_rcv :: "th list"
  t_ucb :: nat
  t_ovl_end :: seq
  t_rcv_unack :: "th list"
  t_opts :: "byte list"
  iss :: seq
  irs :: seq
  rcv_urp :: seq
  rcv_nxt :: seq
  rcv_end :: seq
  seq_fin :: seq
  snd_end :: seq
  snd_urp :: seq
  snd_lst :: seq
  snd_nxt :: seq
  snd_una :: seq
  snd_wl :: seq
  snd_hi :: seq
  t_rexmt_val :: seq
  t_rtl_val :: seq
  t_xmt_val :: seq
  ack_due :: bool
  cancelled :: bool
  dropped_txt :: bool
  fin_rcvd :: bool
  force_one :: bool
  new_window :: bool
  rexmt :: bool
  snd_fin :: bool
  snd_rst :: bool
  snd_urg :: bool
  syn_acked :: bool
  syn_rcvd :: bool
  usr_closed :: bool
  waited_2_ml :: bool
  net_keep :: bool
  usr_abort :: bool
  sent_zero :: bool
  snd_wnd :: int
  t_maxseg :: int
  t_lport :: u16
  t_fport :: u16
  t_state :: nat
  t_xmtime :: nat
  t_optlen :: nat
  t_timers :: "nat \<Rightarrow> nat"
  t_rxtct :: nat

definition TCPSIZE :: nat where [net_simps]: "TCPSIZE = 20"
definition IPSIZE :: nat where [net_simps]: "IPSIZE = 20"
definition THSIZE :: nat where [net_simps]: "THSIZE = 40"
definition IPMAX :: int where [net_simps]: "IPMAX = 576"
definition IPMAXOPT :: int where [net_simps]: "IPMAXOPT = 40"
definition TCPIPMAX :: int where [net_simps]: "TCPIPMAX = 80"
definition TCPMAXSND :: int where [net_simps]: "TCPMAXSND = 496"
definition ISSINCR :: seq where [net_simps]: "ISSINCR = 128"
definition TCPROTO :: byte where [net_simps]: "TCPROTO = 6"
definition T_2ML :: nat where [net_simps]: "T_2ML = 20"
definition T_PERS :: nat where [net_simps]: "T_PERS = 5"
definition T_INIT :: nat where [net_simps]: "T_INIT = 30"
definition T_REXMT :: nat where [net_simps]: "T_REXMT = 2"
definition T_REXMTTL :: nat where [net_simps]: "T_REXMTTL = 30"
definition T_REMAX :: nat where [net_simps]: "T_REMAX = 30"

text \<open>States (fsm.h); the action routines return a state, SAME or EFAILEC.\<close>

definition EFAILEC :: int where [net_simps]: "EFAILEC = -1"
definition SAME :: nat where [net_simps]: "SAME = 0"
definition LISTEN :: nat where [net_simps]: "LISTEN = 1"
definition SYN_SENT :: nat where [net_simps]: "SYN_SENT = 2"
definition SYN_RCVD :: nat where [net_simps]: "SYN_RCVD = 3"
definition L_SYN_RCVD :: nat where [net_simps]: "L_SYN_RCVD = 4"
definition ESTAB :: nat where [net_simps]: "ESTAB = 5"
definition FIN_W1 :: nat where [net_simps]: "FIN_W1 = 6"
definition FIN_W2 :: nat where [net_simps]: "FIN_W2 = 7"
definition TIME_WAIT :: nat where [net_simps]: "TIME_WAIT = 8"
definition CLOSE_WAIT :: nat where [net_simps]: "CLOSE_WAIT = 9"
definition CLOSING1 :: nat where [net_simps]: "CLOSING1 = 10"
definition CLOSING2 :: nat where [net_simps]: "CLOSING2 = 11"
definition RCV_WAIT :: nat where [net_simps]: "RCV_WAIT = 12"
definition CLOSED :: nat where [net_simps]: "CLOSED = 13"

definition IUOPENA :: nat where [net_simps]: "IUOPENA = 1"
definition INRECV :: nat where [net_simps]: "INRECV = 2"
definition IUOPENR :: nat where [net_simps]: "IUOPENR = 3"
definition IUCLOSE :: nat where [net_simps]: "IUCLOSE = 4"
definition ISTIMER :: nat where [net_simps]: "ISTIMER = 5"
definition IURECV :: nat where [net_simps]: "IURECV = 6"
definition IUSEND :: nat where [net_simps]: "IUSEND = 7"
definition IUABORT :: nat where [net_simps]: "IUABORT = 8"
definition INCLEAR :: nat where [net_simps]: "INCLEAR = 9"
definition INOP :: nat where [net_simps]: "INOP = 10"

definition TXMT :: nat where [net_simps]: "TXMT = 0"
definition TINIT :: nat where [net_simps]: "TINIT = 1"
definition TREXMT :: nat where [net_simps]: "TREXMT = 2"
definition TREXMTTL :: nat where [net_simps]: "TREXMTTL = 3"
definition TPERSIST :: nat where [net_simps]: "TPERSIST = 4"
definition TFINACK :: nat where [net_simps]: "TFINACK = 5"

section \<open>Connections, hosts, interfaces\<close>

text \<open>Raw protocol entries: a slot of a block of NPRMB entries (one block a buffer) owned by a
  connection; on a protocol chain an entry is named by its block and slot.\<close>

record pslot =
  ps_num :: int
  ps_used :: bool

record proto =
  pr_blk :: nat
  pr_slot :: nat
  pr_num :: int
  pr_ucb :: nat

record pblock =
  pb_m :: mbuf
  pb_slots :: "pslot list"

record ucb =
  uc_host :: addr
  uc_local :: addr
  uc_proc :: "nat option"
  uc_tcb :: "nat option"
  uc_proto :: "pblock list"
  uc_lport :: u16
  uc_fport :: u16
  uc_srcif :: "nat option"
  uc_route :: "nat option"
  uc_sbuf :: "mbuf list"
  uc_rbuf :: "mbuf list"
  uc_rmsgs :: "mbuf list list"
  uc_snd :: nat
  uc_rcv :: nat
  uc_ssize :: nat
  uc_rsize :: nat
  uc_xstat :: u16
  uc_state :: u16
  uc_flags :: u16

record host =
  h_addr :: addr
  h_rfnm :: nat
  h_refct :: nat
  h_stat :: nat
  h_outq :: "mbuf list list"

datatype if_kind = Imp | Vii

record ifcb =
  if_name :: string
  if_unit :: int
  if_disab :: bool
  if_kind :: if_kind
  if_avail :: bool
  if_error :: bool
  if_needinit :: bool
  if_active :: bool
  if_mtu :: int
  if_link :: int
  if_addr :: addr
  if_outq :: "mbuf list list"
  if_outq_cur :: "mbuf list"
  if_inq :: "mbuf list list"
  if_inq_msg :: "mbuf list"
  if_resets :: nat

record gway =
  g_flags :: u32
  g_fnet :: u32
  g_lnet :: u32
  g_local :: addr
  g_ifcb :: nat

text \<open>
  A datagram under reassembly: the buffer that holds the struct ipq and the fragments.  A fragment
  is the chain it came in, the offset of its ip header in its first buffer, and the fields of that
  header that reassembly changes (ip_off, ip_len, ip_end, ip_mff).
\<close>

record ipfrag =
  f_hdr :: nat
  f_off :: nat
  f_len :: nat
  f_end :: nat
  f_mff :: bool
  f_m :: "mbuf list"

record ipq =
  iq_m :: mbuf
  iq_frags :: "ipfrag list"

datatype wdat = NoDat | SegDat th | MbufDat "mbuf list"

record work =
  w_type :: nat
  w_stype :: nat
  w_tcb :: nat
  w_dat :: wdat

datatype wchan = W_ucb nat | W_tcb nat | W_ucflags nat | W_workfree | W_net

datatype event =
    Wakeup wchan
  | Psignal nat
  | If_out nat
  | If_init nat
  | Printf string
  | Timeout string nat
  | Debug_rec nat nat nat nat int
  | Sleep_work nat nat

text \<open>The error code of the current system call (u.u_error), by its name in errno.h.\<close>

datatype uerror =
    ENETSTAT | ENETDOWN | ENETCON | ENETBUF | ENETPARM | ENETRNG | ENETDED | ERAWBAD | ENETERR
  | ENETREF | ENETUNR | ENETTIM | EBLOCK | EFAULT | EPERM | ENXIO
  | EINTR | EINVAL | EBUSY | EACCES | ETABLE | ENFILE

record net_stat =
  m_drops :: nat
  net_drops :: nat
  ip_badsum :: nat
  ip_drops :: nat
  t_badsum :: nat
  t_badsegs :: nat
  t_unack :: nat
  ic_drops :: nat
  ic_badsum :: nat
  ic_quenches :: nat
  ic_redirects :: nat
  ic_echoes :: nat
  ic_timex :: nat
  u_badsum :: nat
  u_drops :: nat

record net =
  pool :: mpool
  netutl :: u32
  tcbs :: "nat \<Rightarrow> tcb"
  n_tcbs :: "nat list"
  ucbs :: "nat \<Rightarrow> ucb"
  n_ucbs :: "nat list"
  ifs :: "nat \<Rightarrow> ifcb"
  n_ifcbs :: "nat list"
  hosts :: "host list"
  gateways :: "gway list"
  n_ipqs :: "ipq list"
  n_ip_lock :: nat
  n_ip_cnt :: u16
  n_ip_proto :: "proto list"
  n_tcp_proto :: "proto list"
  n_udp_proto :: "proto list"
  n_icmp_proto :: "proto list"
  n_ggp_proto :: "proto list"
  protab :: "nat \<Rightarrow> proto list"
  n_work :: "work list"
  nwork :: nat
  n_iss :: seq
  n_log :: "mbuf list list"
  n_loglim :: int
  netstat :: net_stat
  nosum :: bool
  n_debug :: bool
  n_time :: u32
  n_junk_up :: "nat option"
  n_junk_i :: u16
  u_error :: "uerror option"
  n_panic :: "string option"
  n_out :: "event list"

section \<open>Access\<close>

definition upd_tcb :: "nat \<Rightarrow> (tcb \<Rightarrow> tcb) \<Rightarrow> net \<Rightarrow> net" where
  "upd_tcb t f net = net\<lparr>tcbs := (tcbs net)(t := f (tcbs net t))\<rparr>"

definition upd_ucb :: "nat \<Rightarrow> (ucb \<Rightarrow> ucb) \<Rightarrow> net \<Rightarrow> net" where
  "upd_ucb u f net = net\<lparr>ucbs := (ucbs net)(u := f (ucbs net u))\<rparr>"

definition upd_if :: "nat \<Rightarrow> (ifcb \<Rightarrow> ifcb) \<Rightarrow> net \<Rightarrow> net" where
  "upd_if i f net = net\<lparr>ifs := (ifs net)(i := f (ifs net i))\<rparr>"

definition upd_host :: "nat \<Rightarrow> (host \<Rightarrow> host) \<Rightarrow> net \<Rightarrow> net" where
  "upd_host h f net = net\<lparr>hosts := (hosts net)[h := f (hosts net ! h)]\<rparr>"

definition stat :: "(net_stat \<Rightarrow> net_stat) \<Rightarrow> net \<Rightarrow> net" where
  "stat f net = net\<lparr>netstat := f (netstat net)\<rparr>"

definition emit :: "event \<Rightarrow> net \<Rightarrow> net" where
  "emit ev net = net\<lparr>n_out := n_out net @ [ev]\<rparr>"

definition panic :: "string \<Rightarrow> net \<Rightarrow> net" where
  "panic s net = (if n_panic net = None then net\<lparr>n_panic := Some s\<rparr> else net)"

definition set_timer :: "nat \<Rightarrow> nat \<Rightarrow> tcb \<Rightarrow> tcb" where
  "set_timer i v tp = tp\<lparr>t_timers := (t_timers tp)(i := v)\<rparr>"

text \<open>\<open>dtom\<close> of a control block: the buffer it is in, as far as freeing it is concerned.\<close>

definition blk :: "nat \<Rightarrow> net \<Rightarrow> mbuf" where
  "blk i net = mem (pool net) i"

section \<open>Buffer calls at the level of the whole state\<close>

definition m_freem :: "mbuf list \<Rightarrow> net \<Rightarrow> nat \<times> net" where
  "m_freem ms net =
    (case m_freem_p ms (pool net) of
       Inl e \<Rightarrow> (0, panic e net)
     | Inr (n, p) \<Rightarrow> (n, net\<lparr>pool := p\<rparr>))"

abbreviation freem :: "mbuf list \<Rightarrow> net \<Rightarrow> net" where
  "freem ms net \<equiv> snd (m_freem ms net)"

definition m_free :: "mbuf list \<Rightarrow> net \<Rightarrow> mbuf list \<times> net" where
  "m_free ms net =
    (case m_free_p ms (pool net) of
       Inl e \<Rightarrow> (tl ms, panic e net)
     | Inr (ms', p) \<Rightarrow> (ms', net\<lparr>pool := p\<rparr>))"

text \<open>ip_freef: take a reassembly header off the queue (it is named by its buffer) and free it.\<close>

definition ip_freef :: "ipq \<Rightarrow> net \<Rightarrow> net" where
  "ip_freef fp net =
    (let net = net\<lparr>n_ipqs := filter (\<lambda>q. m_id (iq_m q) \<noteq> m_id (iq_m fp)) (n_ipqs net)\<rparr> in
     snd (m_free [iq_m fp] net))"

fun free_frags :: "ipfrag list \<Rightarrow> net \<Rightarrow> nat \<times> net" where
  "free_frags [] net = (0, net)"
| "free_frags (f # fs) net =
    (let (n, net) = m_freem (f_m f) net; (k, net) = free_frags fs net in (n + k, net))"

text \<open>m_expand: the queues are robbed from their ends.\<close>

fun steal_ipqs :: "ipq list \<Rightarrow> int \<Rightarrow> net \<Rightarrow> int \<times> net" where
  "steal_ipqs [] need net = (need, net)"
| "steal_ipqs (fp # fps) need net =
    (if need > 0 then
       (let (k, net) = free_frags (iq_frags fp) net;
            net = ip_freef fp net in
        steal_ipqs fps (need - int k) net)
     else (need, net))"

fun free_segs :: "th list \<Rightarrow> net \<Rightarrow> nat \<times> net" where
  "free_segs [] net = (0, net)"
| "free_segs (t # ts) net =
    (let (n, net) = m_freem (t_m t) net; (k, net) = free_segs ts net in (n + k, net))"

fun steal_unack :: "nat list \<Rightarrow> int \<Rightarrow> net \<Rightarrow> int \<times> net" where
  "steal_unack [] need net = (need, net)"
| "steal_unack (tp # tps) need net =
    (if need > 0 then
       (let (k, net) = free_segs (t_rcv_unack (tcbs net tp)) net;
            net = upd_tcb tp (t_rcv_unack_update (\<lambda>_. [])) net in
        steal_unack tps (need - int k) net)
     else (need, net))"

definition pg_alloc_n :: "int \<Rightarrow> net \<Rightarrow> bool \<times> net" where
  "pg_alloc_n n net =
    (case pg_alloc n (pool net) of
       Inl e \<Rightarrow> (False, panic e net)
     | Inr (ok, p) \<Rightarrow> (ok, net\<lparr>pool := p\<rparr>))"

fun expand_singly :: "nat \<Rightarrow> int \<Rightarrow> int \<Rightarrow> net \<Rightarrow> int \<times> net" where
  "expand_singly 0 needp need net = (need, net)"
| "expand_singly (Suc k) needp need net =
    (let (ok, net) = (if needp = 1 then (False, net) else pg_alloc_n 1 net) in
     if \<not> ok then
       (let (need, net) = steal_ipqs (rev (n_ipqs net)) need net in
        steal_unack (rev (n_tcbs net)) need net)
     else expand_singly k needp (need - 8) net)"

definition m_expand :: "net \<Rightarrow> bool \<times> net" where
  "m_expand net =
    (let needs = n_hiwat (pool net) - n_bufs (pool net);
         needp = needs div 8;
         (ok, net) = pg_alloc_n needp net in
     if \<not> ok then
       (let (need, net) = expand_singly (nat needp) needp needs net in (need < needs, net))
     else (True, net))"

definition m_get :: "nat \<Rightarrow> net \<Rightarrow> mbuf option \<times> net" where
  "m_get type net =
    (let net = net\<lparr>pool := (pool net)\<lparr>n_bufs := n_bufs (pool net) - 1\<rparr>\<rparr>;
         (ok, net) =
           (if n_bufs (pool net) \<le> 0 then
              (let net = net\<lparr>pool := (pool net)\<lparr>n_bufs := 0\<rparr>\<rparr> in
               if type = 0 then (False, net) else m_expand net)
            else (True, net)) in
     if \<not> ok then (None, stat (\<lambda>s. s\<lparr>m_drops := m_drops s + 1\<rparr>) net)
     else
       (case m_take (pool net) of
          Inl e \<Rightarrow> (None, panic e net)
        | Inr (m, p) \<Rightarrow> (Some m, net\<lparr>pool := p\<rparr>)))"

text \<open>m_copy: \<open>cpy\<close> is the copy built so far.  bcopy of all MSIZE bytes copies the buffer's
  header too; the new buffer keeps its own address.\<close>

fun m_copy_loop :: "mbuf list \<Rightarrow> mbuf list \<Rightarrow> net \<Rightarrow> mbuf list \<times> net" where
  "m_copy_loop [] cpy net = (cpy, net)"
| "m_copy_loop (m # ms) cpy net =
    (case m_get 1 net of
       (None, net) \<Rightarrow> ([], freem cpy net)
     | (Some n, net) \<Rightarrow> m_copy_loop ms (cpy @ [m\<lparr>m_id := m_id n, m_act := 0\<rparr>]) net)"

definition m_copy :: "mbuf list \<Rightarrow> net \<Rightarrow> mbuf list \<times> net" where
  "m_copy mp net = m_copy_loop mp [] net"

text \<open>netlog: anomalous packets are kept, headers only, up to a limit.\<close>

fun log_trim :: "mbuf list list \<Rightarrow> net \<Rightarrow> net" where
  "log_trim [] net = net\<lparr>n_log := []\<rparr>"
| "log_trim (m # ms) net =
    (if int (length (m # ms)) > n_loglim net then log_trim ms (snd (m_free m net))
     else net\<lparr>n_log := m # ms\<rparr>)"

definition netlog :: "mbuf list \<Rightarrow> net \<Rightarrow> net" where
  "netlog mp net =
    (if n_loglim net > 0 then
       (let net = (if tl mp \<noteq> [] then freem (tl mp) net else net) in
        log_trim (n_log net @ [[hd mp]]) net)
     else freem mp net)"

section \<open>Wakeups and the work list\<close>

definition wakeup :: "wchan \<Rightarrow> net \<Rightarrow> net" where
  "wakeup c net = emit (Wakeup c) net"

text \<open>Network status bits for the user (con.h) and flags of a connection.\<close>

definition UCLOSED :: u16 where [net_simps]: "UCLOSED = 0"
definition UCLSERR :: u16 where [net_simps]: "UCLSERR = 1"
definition UABORT :: u16 where [net_simps]: "UABORT = 2"
definition UINTIMO :: u16 where [net_simps]: "UINTIMO = 4"
definition URXTIMO :: u16 where [net_simps]: "URXTIMO = 8"
definition URESET :: u16 where [net_simps]: "URESET = 16"
definition UDEAD :: u16 where [net_simps]: "UDEAD = 32"
definition UURGENT :: u16 where [net_simps]: "UURGENT = 64"
definition UNRCH :: u16 where [net_simps]: "UNRCH = 128"
definition UDROP :: u16 where [net_simps]: "UDROP = 256"

definition ULISTEN :: u16 where [net_simps]: "ULISTEN = 0x0001"
definition UTCP :: u16 where [net_simps]: "UTCP = 0x0002"
definition UIP :: u16 where [net_simps]: "UIP = 0x0004"
definition URAW :: u16 where [net_simps]: "URAW = 0x0008"
definition UCTL :: u16 where [net_simps]: "UCTL = 0x0010"
definition UUDP :: u16 where [net_simps]: "UUDP = 0x0020"
definition UEOL :: u16 where [net_simps]: "UEOL = 0x0040"
definition UDEBUG :: u16 where [net_simps]: "UDEBUG = 0x0080"
definition UURG :: u16 where [net_simps]: "UURG = 0x0100"
definition RAWCOMP :: u16 where [net_simps]: "RAWCOMP = 0x0200"
definition RAWVER :: u16 where [net_simps]: "RAWVER = 0x0400"
definition RAWASIS :: u16 where [net_simps]: "RAWASIS = 0x0800"
definition RAWERR :: u16 where [net_simps]: "RAWERR = 0x1000"
definition UCWAIT :: u16 where [net_simps]: "UCWAIT = 0x2000"
definition UNOBLOK :: u16 where [net_simps]: "UNOBLOK = 0x4000"
definition ULOCK :: u16 where [net_simps]: "ULOCK = 0x8000"
definition RAWMASK :: u16 where [net_simps]: "RAWMASK = 0x0e00"

text \<open>The first slot of the first block (\<open>up->uc_proto->pr_num\<close>).\<close>

definition uc_prnum :: "ucb \<Rightarrow> int option" where
  "uc_prnum up = (case uc_proto up of [] \<Rightarrow> None | b # _ \<Rightarrow> Some (ps_num (pb_slots b ! 0)))"

definition set_error :: "uerror \<Rightarrow> net \<Rightarrow> net" where
  "set_error e net = net\<lparr>u_error := Some e\<rparr>"

text \<open>to_user (tcp_prim.c): tell the user process about a change of state.\<close>

definition to_user :: "nat \<Rightarrow> u16 \<Rightarrow> net \<Rightarrow> net" where
  "to_user up state net =
    (let net = upd_ucb up (\<lambda>u. u\<lparr>uc_state := uc_state u OR state\<rparr>) net;
         net = wakeup (W_ucb up) net in
     if state = UURGENT then emit (Psignal up) net else net)"

text \<open>
  w_alloc (tcp_input.c).  The table has \<open>nwork\<close> entries and the entries in use are those on
  the list.  A request from a user process sleeps while the table is full: the model says so by
  the event Sleep_work of a blocked request and drops it, since the caller does not run on.
\<close>

definition wdat_chain :: "wdat \<Rightarrow> mbuf list" where
  "wdat_chain d = (case d of NoDat \<Rightarrow> [] | SegDat t \<Rightarrow> t_m t | MbufDat ms \<Rightarrow> ms)"

lemma NoDat_code [code_unfold]: "HOL.equal d NoDat \<longleftrightarrow> (case d of NoDat \<Rightarrow> True | _ \<Rightarrow> False)"
  by (cases d) (simp_all add: equal)

definition w_alloc :: "nat \<Rightarrow> nat \<Rightarrow> nat \<Rightarrow> wdat \<Rightarrow> net \<Rightarrow> net" where
  "w_alloc type stype tp m net =
    (if length (n_work net) < nwork net then
       wakeup W_net (net\<lparr>n_work := n_work net @
         [\<lparr>w_type = type, w_stype = stype, w_tcb = tp, w_dat = m\<rparr>]\<rparr>)
     else if type \<noteq> INRECV \<and> type \<noteq> ISTIMER \<and> type \<noteq> INCLEAR then emit (Sleep_work type tp) net
     else if type = ISTIMER then
       upd_tcb tp (\<lambda>t. set_timer stype (uchar (int (t_timers t stype) + 1)) t) net
     else if m \<noteq> NoDat then freem (wdat_chain m) net
     else net)"

section \<open>A sample machine\<close>

text \<open>A machine with one ring interface and two pages of buffers, no connection, and an empty host
  table of three entries; it is the state at which the theorems of the other theories are
  instantiated.\<close>

definition mbuf0 :: mbuf where
  "mbuf0 = \<lparr>m_id = 0, m_off = 255, m_len = 0, m_act = 0, m_dat = (\<lambda>_. 0)\<rparr>"

definition pool0 :: mpool where
  "pool0 = \<lparr>mem = (\<lambda>_. mbuf0), freetab = (\<lambda>i. \<lparr>p_free = 8, p_off = 0, p_next = (i + 1) mod 4, p_prev = (i + 3) mod 4\<rparr>),
    n_free = 0, n_pages = 4, n_bufs = 32, n_hiwat = 48, n_lowat = 16,
    netmap = \<lparr>m_name = Othermap, m_limit = 9, m_ents = [\<lparr>m_size = 4, m_addr = 4\<rparr>], kmapwnt = False\<rparr>\<rparr>"

definition tcb0 :: tcb where
  "tcb0 = \<lparr>t_rcv = [], t_ucb = 0, t_ovl_end = 0, t_rcv_unack = [], t_opts = [], iss = 0, irs = 0, rcv_urp = 0,
    rcv_nxt = 0, rcv_end = 0, seq_fin = 0, snd_end = 0, snd_urp = 0, snd_lst = 0, snd_nxt = 0, snd_una = 0,
    snd_wl = 0, snd_hi = 0, t_rexmt_val = 0, t_rtl_val = 0, t_xmt_val = 0, ack_due = False, cancelled = False,
    dropped_txt = False, fin_rcvd = False, force_one = False, new_window = False, rexmt = False,
    snd_fin = False, snd_rst = False, snd_urg = False, syn_acked = False, syn_rcvd = False, usr_closed = False,
    waited_2_ml = False, net_keep = False, usr_abort = False, sent_zero = False, snd_wnd = 0, t_maxseg = 496,
    t_lport = 0, t_fport = 0, t_state = CLOSED, t_xmtime = T_REXMT, t_optlen = 0, t_timers = (\<lambda>_. 0), t_rxtct = 0\<rparr>"

definition ucb0 :: ucb where
  "ucb0 = \<lparr>uc_host = 0, uc_local = 0, uc_proc = None, uc_tcb = None, uc_proto = [], uc_lport = 0, uc_fport = 0,
    uc_srcif = Some 0, uc_route = None, uc_sbuf = [], uc_rbuf = [], uc_rmsgs = [], uc_snd = 8, uc_rcv = 8,
    uc_ssize = 0, uc_rsize = 0, uc_xstat = 0, uc_state = 0, uc_flags = UTCP\<rparr>"

definition if0 :: ifcb where
  "if0 = \<lparr>if_name = ''vn'', if_unit = 0, if_disab = False, if_kind = Vii, if_avail = True, if_error = False, if_needinit = False, if_active = False, if_mtu = 576,
    if_link = 155, if_addr = 0x0100000A, if_outq = [], if_outq_cur = [], if_inq = [], if_inq_msg = [], if_resets = 0\<rparr>"

definition host0 :: host where
  "host0 = \<lparr>h_addr = 0, h_rfnm = 0, h_refct = 0, h_stat = 0, h_outq = []\<rparr>"

definition net0 :: net where
  "net0 = \<lparr>pool = pool0, netutl = 0, tcbs = (\<lambda>_. tcb0), n_tcbs = [], ucbs = (\<lambda>_. ucb0), n_ucbs = [],
    ifs = (\<lambda>_. if0), n_ifcbs = [0], hosts = [host0, host0, host0], gateways = [], n_ipqs = [], n_ip_lock = 0,
    n_ip_cnt = 0, n_ip_proto = [], n_tcp_proto = [], n_udp_proto = [], n_icmp_proto = [], n_ggp_proto = [],
    protab = (\<lambda>_. []), n_work = [], nwork = 10, n_iss = 1000, n_log = [], n_loglim = 0,
    netstat = \<lparr>m_drops = 0, net_drops = 0, ip_badsum = 0, ip_drops = 0, t_badsum = 0, t_badsegs = 0, t_unack = 0,
      ic_drops = 0, ic_badsum = 0, ic_quenches = 0, ic_redirects = 0, ic_echoes = 0, ic_timex = 0, u_badsum = 0,
      u_drops = 0\<rparr>,
    nosum = False, n_debug = False, n_time = 0, n_junk_up = None, n_junk_i = 0, u_error = None, n_panic = None,
    n_out = []\<rparr>"

end
