(* ===== verification/Host_Table.thy ===== *)
theory Host_Table
  imports Net_State
begin

text \<open>
  Internet addresses as the kernel takes them apart (struct socket and iptonet of net.h,
  addr_1822 of imp.h; on the VAX the first byte of an address is the low byte of the long), and
  the host table of host.c.  A pointer to a host entry is its index in the table.
\<close>

section \<open>Addresses\<close>

definition s_neta :: "addr \<Rightarrow> u32" where "s_neta x = x AND 0xff"
definition s_netb :: "addr \<Rightarrow> u32" where "s_netb x = x AND 0xffff"
definition s_netc :: "addr \<Rightarrow> u32" where "s_netc x = x AND 0xffffff"
definition s_host :: "addr \<Rightarrow> byte" where "s_host x = ucast (drop_bit 8 x)"
definition s_imp :: "addr \<Rightarrow> u16" where "s_imp x = ucast (drop_bit 16 x)"
definition s_impno :: "addr \<Rightarrow> byte" where "s_impno x = ucast (drop_bit 24 x)"
definition s_vhst :: "addr \<Rightarrow> byte" where "s_vhst x = ucast (drop_bit 24 x)"

definition set_host :: "byte \<Rightarrow> addr \<Rightarrow> addr" where
  "set_host b x = (x AND 0xffff00ff) OR push_bit 8 (ucast b)"

definition set_imp :: "u16 \<Rightarrow> addr \<Rightarrow> addr" where
  "set_imp w x = (x AND 0xffff) OR push_bit 16 (ucast w)"

definition set_vhst :: "byte \<Rightarrow> addr \<Rightarrow> addr" where
  "set_vhst b x = (x AND 0x00ffffff) OR push_bit 24 (ucast b)"

definition iptonet :: "addr \<Rightarrow> u32" where
  "iptonet x =
    (if s_neta x AND 0x80 = 0 then s_neta x
     else if s_neta x AND 0x40 = 0 then s_netb x
     else if s_neta x AND 0x20 = 0 then s_netc x
     else - 1)"

definition addr_1822 :: "addr \<Rightarrow> addr" where
  "addr_1822 x = (if s_neta x = 10 \<or> s_neta x = 3 then x AND 0xff00ffff else x)"

section \<open>The table\<close>

definition HUP :: nat where [net_simps]: "HUP = 128"
definition HTEMP :: nat where [net_simps]: "HTEMP = 64"

fun find_index :: "('a \<Rightarrow> bool) \<Rightarrow> 'a list \<Rightarrow> nat option" where
  "find_index P [] = None"
| "find_index P (x # xs) = (if P x then Some 0 else map_option Suc (find_index P xs))"

definition h_find :: "addr \<Rightarrow> net \<Rightarrow> nat option" where
  "h_find np net = find_index (\<lambda>h. h_addr h = np) (hosts net)"

text \<open>\<open>h_stat\<close> only ever holds HUP and HTEMP, and the tests of a bit are written so.\<close>

definition htemp :: "host \<Rightarrow> bool" where
  "htemp h \<longleftrightarrow> odd (h_stat h div HTEMP)"

definition h_make :: "addr \<Rightarrow> bool \<Rightarrow> net \<Rightarrow> nat option \<times> net" where
  "h_make np temp net =
    (let n = addr_1822 np;
         found = (if temp then None else h_find n net) in
     case found of
       Some h \<Rightarrow>
         (Some h, if htemp (hosts net ! h) then upd_host h (\<lambda>e. e\<lparr>h_stat := h_stat e - HTEMP\<rparr>) net
                  else upd_host h (\<lambda>e. e\<lparr>h_refct := uchar (int (h_refct e) + 1)\<rparr>) net)
     | None \<Rightarrow>
         (case find_index (\<lambda>e. h_refct e = 0) (hosts net) of
            None \<Rightarrow> (None, net)
          | Some h \<Rightarrow>
              (Some h, upd_host h (\<lambda>e. \<lparr>h_addr = n, h_rfnm = 0, h_refct = 1,
                 h_stat = HUP + (if temp then HTEMP else 0), h_outq = []\<rparr>) net)))"

fun free_queue :: "mbuf list list \<Rightarrow> net \<Rightarrow> net" where
  "free_queue [] net = net"
| "free_queue (m # ms) net = free_queue ms (freem m net)"

definition h_free :: "nat \<Rightarrow> net \<Rightarrow> net" where
  "h_free hp net =
    (let net = upd_host hp (\<lambda>e. e\<lparr>h_refct := uchar (int (h_refct e) - 1)\<rparr>) net in
     if h_refct (hosts net ! hp) = 0 then
       (let q = h_outq (hosts net ! hp);
            net = upd_host hp (\<lambda>e. e\<lparr>h_addr := 0, h_stat := 0, h_rfnm := 0, h_outq := []\<rparr>) net in
        free_queue q net)
     else net)"

text \<open>h_reset: every entry of the net is cleared; reference counts and addresses stay.\<close>

fun h_reset_loop :: "nat list \<Rightarrow> u32 \<Rightarrow> net \<Rightarrow> net" where
  "h_reset_loop [] nt net = net"
| "h_reset_loop (h # hs) nt net =
    (if iptonet (h_addr (hosts net ! h)) = nt then
       (let q = h_outq (hosts net ! h);
            net = upd_host h (\<lambda>e. e\<lparr>h_rfnm := 0, h_stat := 0, h_outq := []\<rparr>) net in
        h_reset_loop hs nt (free_queue q net))
     else h_reset_loop hs nt net)"

definition h_reset :: "u32 \<Rightarrow> net \<Rightarrow> net" where
  "h_reset nt net = h_reset_loop [0 ..< length (hosts net)] nt net"

text \<open>The pattern \<open>if (p != NULL) h_free (p)\<close>.\<close>

definition h_free_opt :: "nat option \<Rightarrow> net \<Rightarrow> net" where
  "h_free_opt hp net = (case hp of None \<Rightarrow> net | Some h \<Rightarrow> h_free h net)"

end
