(* ===== verification/Net_If.thy ===== *)
theory Net_If
  imports Host_Table
begin

text \<open>
  The output side of the two local networks, imp_io.c (ARPANET 1822 through an IMP) and vii_io.c
  (Proteon ring), and the dispatch on the interface's if_send routine.  A leader is built in the
  first buffer, in front of the data.  The driver's output start routine is the event If_out.
\<close>

definition IMPSIZE :: nat where [net_simps]: "IMPSIZE = 12"
definition VIISIZE :: nat where [net_simps]: "VIISIZE = 6"
definition IMP_NFF :: byte where [net_simps]: "IMP_NFF = 15"
definition IMP_DATA :: byte where [net_simps]: "IMP_DATA = 0"
definition IMP_NOP :: byte where [net_simps]: "IMP_NOP = 4"
definition VIIVERSION :: byte where [net_simps]: "VIIVERSION = 2"

text \<open>\<open>m->m_off -= n; m->m_len += n\<close> and the reverse, on the first buffer of a chain.\<close>

definition push_hdr :: "nat \<Rightarrow> mbuf \<Rightarrow> mbuf" where
  "push_hdr n m = m\<lparr>m_off := uchar (int (m_off m) - int n), m_len := uchar (int (m_len m) + int n)\<rparr>"

definition pull_hdr :: "nat \<Rightarrow> mbuf \<Rightarrow> mbuf" where
  "pull_hdr n m = m\<lparr>m_off := uchar (int (m_off m) + int n), m_len := uchar (int (m_len m) - int n)\<rparr>"

definition upd_hd :: "(mbuf \<Rightarrow> mbuf) \<Rightarrow> mbuf list \<Rightarrow> mbuf list" where
  "upd_hd f ms = (case ms of [] \<Rightarrow> [] | m # ms' \<Rightarrow> f m # ms')"

section \<open>imp_snd\<close>

definition imp_leader :: "addr \<Rightarrow> int \<Rightarrow> int \<Rightarrow> mbuf \<Rightarrow> mbuf" where
  "imp_leader ad len link m =
    (let m = push_hdr IMPSIZE m; p = m_off m;
         m = wr8 (p + 5) (s_host ad) m;
         m = wr8 (p + 7) (s_impno ad) m;
         m = wr8 (p + 6) 0 m;
         m = wr16 (p + 10) (word_of_int (len + int IMPSIZE)) m;
         m = wr8 (p + 8) (word_of_int link) m;
         m = wr8 (p + 0) IMP_NFF m;
         m = wr8 (p + 1) 0 m;
         m = wr8 (p + 2) 0 m;
         m = wr8 (p + 3) IMP_DATA m;
         m = wr8 (p + 9) 0 m in
     wr8 (p + 4) 0 m)"

text \<open>The walk to the end of the RFNM queue: \<open>i\<close> counts down from 8.\<close>

fun outq_room :: "int \<Rightarrow> 'a list \<Rightarrow> bool" where
  "outq_room i (x # y # q) = (if i - 1 > 0 then outq_room (i - 1) (y # q) else False)"
| "outq_room i q = True"

definition if_enqueue :: "nat \<Rightarrow> mbuf list \<Rightarrow> net \<Rightarrow> net" where
  "if_enqueue ip mp net =
    (let net = upd_if ip (\<lambda>i. i\<lparr>if_outq := if_outq i @ [mp]\<rparr>) net in
     if \<not> if_active (ifs net ip) then emit (If_out ip) net else net)"

definition imp_snd :: "mbuf list \<Rightarrow> nat \<Rightarrow> addr \<Rightarrow> int \<Rightarrow> int \<Rightarrow> bool \<Rightarrow> net \<Rightarrow> bool \<times> net" where
  "imp_snd mp ip ad len link asis net =
    (if \<not> if_avail (ifs net ip) then (False, freem mp net)
     else
       (let mp = upd_hd (m_act_update (\<lambda>_. 0)) mp;
            mp = (if asis then mp else upd_hd (imp_leader ad len link) mp);
            m = hd mp; p = m_off m in
        if rd8 m (p + 3) = 0 then
          (let ohost = set_imp (rd16 m (p + 6)) (set_host (rd8 m (p + 5)) (if_addr (ifs net ip))) in
           case h_find ohost net of
             Some hp \<Rightarrow>
               (if h_rfnm (hosts net ! hp) > 8 then
                  (let q = h_outq (hosts net ! hp) in
                   if q = [] \<or> outq_room 8 q
                   then (True, upd_host hp (\<lambda>h. h\<lparr>h_outq := q @ [mp]\<rparr>) net)
                   else (False, freem mp net))
                else
                  (True, if_enqueue ip mp
                     (upd_host hp (\<lambda>h. h\<lparr>h_rfnm := uchar (int (h_rfnm h) + 1)\<rparr>) net)))
           | None \<Rightarrow>
               (case h_make ohost True net of
                  (Some hp, net) \<Rightarrow>
                    (True, if_enqueue ip mp
                       (upd_host hp (\<lambda>h. h\<lparr>h_rfnm := uchar (int (h_rfnm h) + 1)\<rparr>) net))
                | (None, net) \<Rightarrow> (True, if_enqueue ip mp net)))
        else (True, if_enqueue ip mp net)))"

section \<open>imp_noops\<close>

definition imp_noop :: "nat \<Rightarrow> mbuf \<Rightarrow> mbuf" where
  "imp_noop inx m =
    (let m = m\<lparr>m_off := MHEAD, m_len := 10\<rparr>; l = MHEAD;
         m = wr8 (l + 0) IMP_NFF m;
         m = wr8 (l + 1) 0 m;
         m = wr8 (l + 2) 0 m;
         m = wr8 (l + 4) 0 m;
         m = wr8 (l + 5) 0 m;
         m = wr16 (l + 6) 0 m;
         m = wr8 (l + 8) (word_of_nat inx) m;
         m = wr8 (l + 9) 0 m;
         m = wr16 (l + 10) 0 m in
     wr8 (l + 3) IMP_NOP m)"

fun imp_noops_loop :: "nat list \<Rightarrow> nat \<Rightarrow> net \<Rightarrow> bool \<times> net" where
  "imp_noops_loop [] ip net = (True, if \<not> if_active (ifs net ip) then emit (If_out ip) net else net)"
| "imp_noops_loop (inx # is) ip net =
    (case m_get 0 net of
       (None, net) \<Rightarrow> (False, net)
     | (Some m, net) \<Rightarrow>
         imp_noops_loop is ip
           (upd_if ip (\<lambda>i. i\<lparr>if_outq := [imp_noop inx m] # if_outq i\<rparr>) net))"

definition imp_noops :: "nat \<Rightarrow> net \<Rightarrow> bool \<times> net" where
  "imp_noops ip net = imp_noops_loop [0, 1, 2] ip net"

section \<open>vii_snd\<close>

definition vii_leader :: "addr \<Rightarrow> addr \<Rightarrow> int \<Rightarrow> int \<Rightarrow> mbuf \<Rightarrow> mbuf" where
  "vii_leader my ad len link m =
    (let m = push_hdr VIISIZE m; v = m_off m;
         m = wr8 (v + 1) (s_vhst my) m;
         m = wr8 (v + 0) (s_vhst ad) m;
         m = wr16 (v + 4) (word_of_int (len + int VIISIZE)) m;
         m = wr8 (v + 3) (word_of_int link) m in
     wr8 (v + 2) VIIVERSION m)"

definition vii_snd :: "mbuf list \<Rightarrow> nat \<Rightarrow> addr \<Rightarrow> int \<Rightarrow> int \<Rightarrow> bool \<Rightarrow> net \<Rightarrow> bool \<times> net" where
  "vii_snd m ip ad len link asis net =
    (if \<not> if_avail (ifs net ip) then (False, freem m net)
     else
       (let m = (if asis then m else upd_hd (vii_leader (if_addr (ifs net ip)) ad len link) m);
            m = upd_hd (m_act_update (\<lambda>_. 0)) m in
        (True, if_enqueue ip m net)))"

section \<open>The interface's send routine\<close>

definition if_send :: "mbuf list \<Rightarrow> nat \<Rightarrow> addr \<Rightarrow> int \<Rightarrow> int \<Rightarrow> bool \<Rightarrow> net \<Rightarrow> bool \<times> net" where
  "if_send mp ip ad len link asis net =
    (case if_kind (ifs net ip) of
       Imp \<Rightarrow> imp_snd mp ip ad len link asis net
     | Vii \<Rightarrow> vii_snd mp ip ad len link asis net)"

section \<open>Raw output\<close>

text \<open>\<open>m\<close> is the empty buffer chained to the user's message.  The address argument of an
  as-is message is NULL and is not read.\<close>

definition imp_raw :: "nat \<Rightarrow> mbuf list \<Rightarrow> int \<Rightarrow> net \<Rightarrow> net" where
  "imp_raw up m len net =
    (let u = ucbs net up; mode = uc_flags u AND RAWMASK in
     if mode = RAWCOMP then
       (let m = upd_hd (\<lambda>b. b\<lparr>m_off := MSIZE, m_len := 0\<rparr>) m in
        case uc_prnum u of
          None \<Rightarrow> freem m (set_error ENETRNG net)
        | Some num \<Rightarrow>
            (let (ok, net) = imp_snd m (the (uc_srcif u)) (uc_host u) len num False net in
             if ok then net else set_error EBLOCK net))
     else if mode = RAWASIS then
       (let (m, net) = m_free m net in
        if m = [] then set_error ERAWBAD net
        else
          (let (ok, net) = imp_snd m (the (uc_srcif u)) 0 0 0 True net in
           if ok then net else set_error EBLOCK net))
     else freem m (set_error ENETPARM net))"

text \<open>vii_raw: a stray semicolon after the if makes the composed case report EBLOCK always.\<close>

definition vii_raw :: "nat \<Rightarrow> mbuf list \<Rightarrow> int \<Rightarrow> net \<Rightarrow> net" where
  "vii_raw up m len net =
    (let u = ucbs net up; mode = uc_flags u AND RAWMASK in
     if mode = RAWCOMP then
       (let m = upd_hd (\<lambda>b. b\<lparr>m_off := MSIZE, m_len := 0\<rparr>) m in
        case uc_prnum u of
          None \<Rightarrow> set_error EBLOCK (freem m (set_error ENETRNG net))
        | Some num \<Rightarrow>
            (let (ok, net) = vii_snd m (the (uc_srcif u)) (uc_host u) len num False net in
             set_error EBLOCK net))
     else if mode = RAWASIS then
       (let (m, net) = m_free m net in
        if m = [] then set_error ERAWBAD net
        else
          (let (ok, net) = vii_snd m (the (uc_srcif u)) 0 0 0 True net in
           if ok then net else set_error EBLOCK net))
     else freem m (set_error ENETPARM net))"

end
