(* ===== verification/Net_Cksum.thy ===== *)
theory Net_Cksum
  imports Mbuf
begin

text \<open>
  The checksum routine of ipcksum.c, VAX version: the ones complement sum is formed 32 bits at a
  time with add-with-carry chains over each buffer, starting on a long word boundary where a word
  step can reach one, and folded to 16 bits before each buffer's tail.  The model follows the
  registers: \<open>w\<close> (r9) is the offset in the buffer, \<open>sum\<close> (r8) a 32 bit word,
  the carry flag a bool.  A buffer lies on a multiple of 128 bytes, so the test of the address
  against 2 is a test of the offset.
\<close>

section \<open>The routine\<close>

definition adwc :: "u32 \<Rightarrow> u32 \<Rightarrow> bool \<Rightarrow> u32 \<times> bool" where
  "adwc x s c = (s + x + (if c then 1 else 0), unat s + unat x + (if c then 1 else 0) \<ge> 2 ^ 32)"

fun adds :: "nat \<Rightarrow> mbuf \<Rightarrow> nat \<Rightarrow> u32 \<times> bool \<Rightarrow> u32 \<times> bool" where
  "adds 0 m w sc = sc"
| "adds (Suc n) m w (s, c) = adds n m (w + 4) (adwc (rd32 m w) s c)"

text \<open>One round: clear carry, \<open>n\<close> ADDs, add the carry left over.\<close>

definition add_round :: "nat \<Rightarrow> mbuf \<Rightarrow> nat \<Rightarrow> u32 \<Rightarrow> u32" where
  "add_round n m w s = (let (s', c) = adds n m w (s, False) in fst (adwc 0 s' c))"

fun add_blocks :: "nat \<Rightarrow> mbuf \<Rightarrow> nat \<Rightarrow> nat \<Rightarrow> u32 \<Rightarrow> nat \<times> nat \<times> u32" where
  "add_blocks n m w mlen s =
    (if n > 0 \<and> 4 * n \<le> mlen then add_blocks n m (w + 4 * n) (mlen - 4 * n) (add_round n m w s)
     else (w, mlen, s))"

text \<open>ashl, addw2, adwc: the high half is added to the low half and the carry out of the low
  half to the whole register.\<close>

definition add_halves :: "u32 \<Rightarrow> u32" where
  "add_halves s =
    (let lo = unat s mod 65536; hi = unat s div 65536;
         c = (if lo + hi \<ge> 65536 then 1 else 0) in
     word_of_nat (hi * 65536 + (lo + hi) mod 65536 + c))"

definition fold16 :: "u32 \<Rightarrow> u32" where
  "fold16 s = word_of_nat (unat (add_halves s) mod 65536)"

fun add_shorts :: "mbuf \<Rightarrow> nat \<Rightarrow> nat \<Rightarrow> u32 \<Rightarrow> nat \<times> nat \<times> u32" where
  "add_shorts m w mlen s =
    (if 2 \<le> mlen then add_shorts m (w + 2) (mlen - 2) (s + ucast (rd16 m w))
     else (w, mlen, s))"

text \<open>The part of a trip around the loop behind the split byte: the bytes from \<open>w\<close> on, at most
  \<open>mlen\<close> of them.  The flag returned says that \<open>mlen\<close> ended at -1.\<close>

definition cksum_seg :: "mbuf \<Rightarrow> nat \<Rightarrow> nat \<Rightarrow> u32 \<Rightarrow> u32 \<times> bool" where
  "cksum_seg m w mlen s =
    (let (w, mlen, s) = (if odd (w div 2) \<and> mlen \<ge> 2
                         then (w + 2, mlen - 2, s + ucast (rd16 m w)) else (w, mlen, s));
         (w, mlen, s) = add_blocks 8 m w mlen s;
         (w, mlen, s) = add_blocks 2 m w mlen s;
         s = fold16 s;
         (w, mlen, s) = add_shorts m w mlen s in
     if mlen = 1 then (s + ucast (rd8 m w), True) else (s, False))"

text \<open>The loop over the chain; \<open>odd_left\<close> stands for mlen = -1 at its top.  The second
  component tells whether the chain ran out of data (the printf).\<close>

fun next_data :: "mbuf list \<Rightarrow> mbuf list" where
  "next_data [] = []"
| "next_data (m # ms) = (if m_len m \<noteq> 0 then m # ms else next_data ms)"

function cksum_loop :: "mbuf list \<Rightarrow> nat \<Rightarrow> bool \<Rightarrow> u32 \<Rightarrow> u32 \<times> bool" where
  "cksum_loop [] len odd_left s = (s, True)"
| "cksum_loop (m # ms) len odd_left s =
    (let (w, mlen, len, s) =
           (if odd_left then (m_off m + 1, m_len m - 1, len - 1, s + push_bit 8 (ucast (rd8 m (m_off m))))
            else (m_off m, m_len m, len, s));
         mlen = min len mlen;
         len = len - mlen;
         (s, odd_left) = cksum_seg m w mlen s in
     if len = 0 then (s, False)
     else (case next_data ms of [] \<Rightarrow> (s, True)
           | m' # ms' \<Rightarrow> cksum_loop (m' # ms') len odd_left s))"
  by pat_completeness auto

lemma next_data_Cons: "next_data ms = m' # ms' \<Longrightarrow> length ms' < length ms \<and> m_len m' \<noteq> 0"
  by (induction ms) (auto split: if_splits)

termination cksum_loop
  by (relation "measure (length \<circ> fst)") (auto dest: next_data_Cons)

definition cksum :: "mbuf list \<Rightarrow> nat \<Rightarrow> u16" where
  "cksum ms len =
    (let s = add_halves (fst (cksum_loop ms len False 0)) in NOT (ucast s))"

section \<open>Reference: the ones complement sum of a byte string\<close>

fun le_sum :: "byte list \<Rightarrow> nat" where
  "le_sum [] = 0"
| "le_sum [b] = unat b"
| "le_sum (b # c # bs) = unat b + 256 * unat c + le_sum bs"

text \<open>The end-around-carry value of a sum: 0 only for 0, else the representative in 1..65535.\<close>

definition ones_fold :: "nat \<Rightarrow> nat" where
  "ones_fold n = (if n = 0 then 0 else (n - 1) mod 65535 + 1)"

definition ip_checksum :: "byte list \<Rightarrow> u16" where
  "ip_checksum bs = word_of_nat (65535 - ones_fold (le_sum bs))"

section \<open>Correctness\<close>

text \<open>The register represents a true sum: congruent modulo 65535, and zero only for zero.\<close>

definition represents :: "nat \<Rightarrow> nat \<Rightarrow> bool" where
  "represents s t \<longleftrightarrow> s mod 65535 = t mod 65535 \<and> (s = 0 \<longleftrightarrow> t = 0)"

lemma represents_refl [simp]: "represents 0 0"
  by (simp add: represents_def)

lemma represents_add: "represents s t \<Longrightarrow> represents (s + x) (t + x)"
  unfolding represents_def by (metis add_is_0 mod_add_cong)

lemma represents_ones_fold: "represents s t \<Longrightarrow> ones_fold s = ones_fold t"
proof -
  assume r: "represents s t"
  show ?thesis
  proof (cases "s = 0")
    case False
    then obtain s' t' where st: "s = Suc s'" "t = Suc t'"
      using r unfolding represents_def by (meson not0_implies_Suc)
    then obtain q1 q2 where "Suc s' + 65535 * q1 = Suc t' + 65535 * q2"
      using r unfolding represents_def nat_mod_eq_iff by blast
    then have "s' + 65535 * q1 = t' + 65535 * q2" by simp
    then have "s' mod 65535 = t' mod 65535" unfolding nat_mod_eq_iff by blast
    then show ?thesis using st by (simp add: ones_fold_def)
  qed (use r in \<open>auto simp: represents_def ones_fold_def\<close>)
qed

lemma represents_wrap:
  assumes "represents s t" "s = s' + 65535 * k" "s' = 0 \<Longrightarrow> k = 0"
  shows "represents s' t"
  using assms by (auto simp: represents_def)


lemma represents_plus: "represents s t \<Longrightarrow> represents x y \<Longrightarrow> represents (s + x) (t + y)"
  unfolding represents_def by (metis add_is_0 mod_add_cong)

text \<open>The bytes of a buffer from an offset on.\<close>

definition seg :: "mbuf \<Rightarrow> nat \<Rightarrow> nat \<Rightarrow> byte list" where
  "seg m w k = map (m_dat m) [w ..< w + k]"

lemma length_seg [simp]: "length (seg m w k) = k"
  by (simp add: seg_def)

lemma seg_0 [simp]: "seg m w 0 = []"
  by (simp add: seg_def)

lemma seg_add: "seg m w (j + k) = seg m w j @ seg m (w + j) k"
  using upt_add_eq_append [of w "w + j" k]
  by (simp only: seg_def add.assoc [symmetric] map_append le_add1)

lemma seg_2: "seg m w 2 = [m_dat m w, m_dat m (w + 1)]"
  by (simp add: seg_def upt_rec)

lemma seg_1: "seg m w 1 = [m_dat m w]"
  by (simp add: seg_def)

lemma seg_4: "seg m w 4 = [m_dat m w, m_dat m (w + 1), m_dat m (w + 2), m_dat m (w + 3)]"
  by (simp add: seg_def upt_rec numeral_eq_Suc)

lemma mbytes_seg: "mbytes m = seg m (m_off m) (m_len m)"
  by (simp add: mbytes_def seg_def)

lemma le_sum_append:
  "le_sum (xs @ ys) = le_sum xs + (if even (length xs) then le_sum ys else le_sum (0 # ys))"
proof (induction xs rule: le_sum.induct)
  case (2 b)
  then show ?case by (cases ys) auto
qed auto

lemma unat_byte: "unat (b :: byte) < 256"
  by (rule order.strict_trans2 [OF unsigned_less]) simp

lemma unat_word_of_nat: "n < 2 ^ LENGTH('a) \<Longrightarrow> unat (word_of_nat n :: 'a::len word) = n"
  by (simp add: unat_of_nat take_bit_nat_eq_self)

lemma unat_rd16: "unat (rd16 m w) = le_sum (seg m w 2)"
proof -
  have "unat (m_dat m w) + 256 * unat (m_dat m (w + 1)) < 2 ^ LENGTH(16)"
    using unat_byte [of "m_dat m w"] unat_byte [of "m_dat m (w + 1)"] by simp
  then have "unat (rd16 m w) = unat (m_dat m w) + 256 * unat (m_dat m (w + 1))"
    unfolding rd16_def by (rule unat_word_of_nat)
  then show ?thesis by (simp add: seg_2)
qed

lemma unat_rd16_ucast: "unat (ucast (rd16 m w) :: u32) = le_sum (seg m w 2)"
proof -
  have "unat (rd16 m w) < 2 ^ 16"
    by (rule order.strict_trans2 [OF unsigned_less]) simp
  then have "unat (ucast (rd16 m w) :: u32) = unat (rd16 m w)"
    by (simp add: unsigned_ucast_eq take_bit_nat_eq_self)
  then show ?thesis by (simp add: unat_rd16)
qed

lemma rd32_represents: "represents (unat (rd32 m w)) (le_sum (seg m w 4))"
proof -
  let ?b = "\<lambda>i. unat (m_dat m (w + i))"
  have "?b 0 + 256 * ?b 1 + 65536 * ?b 2 + 16777216 * ?b 3 < 2 ^ LENGTH(32)"
    using unat_byte [of "m_dat m (w + 0)"] unat_byte [of "m_dat m (w + 1)"]
      unat_byte [of "m_dat m (w + 2)"] unat_byte [of "m_dat m (w + 3)"] by simp
  then have u: "unat (rd32 m w) = ?b 0 + 256 * ?b 1 + 65536 * ?b 2 + 16777216 * ?b 3"
    unfolding rd32_def by (simp only: unat_word_of_nat add_0_right)
  have l: "le_sum (seg m w 4) = ?b 0 + 256 * ?b 1 + ?b 2 + 256 * ?b 3"
    by (simp add: seg_4)
  have "represents (?b 0 + 256 * ?b 1 + 65536 * ?b 2 + 16777216 * ?b 3)
      (?b 0 + 256 * ?b 1 + ?b 2 + 256 * ?b 3)"
  proof -
    have "?b 0 + 256 * ?b 1 + 65536 * ?b 2 + 16777216 * ?b 3
        = ?b 0 + 256 * ?b 1 + ?b 2 + 256 * ?b 3 + 65535 * (?b 2 + 256 * ?b 3)" by simp
    then show ?thesis unfolding represents_def by (metis add_is_0 mod_mult_self2 mult_is_0
          zero_neq_numeral)
  qed
  then show ?thesis by (simp only: u l)
qed


section \<open>The carry chain\<close>

definition chain_rep :: "u32 \<times> bool \<Rightarrow> nat \<Rightarrow> bool" where
  "chain_rep sc t \<longleftrightarrow>
    represents (unat (fst sc) + (if snd sc then 1 else 0)) t
    \<and> (snd sc \<longrightarrow> unat (fst sc) + 1 < 2 ^ 32)"

lemma unat_less_2_32: "unat (x :: u32) < 2 ^ 32"
  by (rule order.strict_trans2 [OF unsigned_less]) simp

lemma unat_add32: "unat (x + y :: u32) = (unat x + unat y) mod 2 ^ 32"
  by (simp add: unat_word_ariths)

lemma unat_adwc:
  "unat (fst (adwc x s c)) = (unat s + unat x + (if c then 1 else 0)) mod 2 ^ 32"
  by (simp add: adwc_def unat_add32 mod_add_left_eq)

lemma wrap_2_32:
  assumes "v < 2 * 2 ^ 32"
  shows "v = v mod 2 ^ 32 + 2 ^ 32 * (if v \<ge> 2 ^ 32 then 1 else (0::nat))"
proof (cases "v \<ge> 2 ^ 32")
  case True
  then have "v mod 2 ^ 32 = v - 2 ^ 32"
    using assms by (simp add: mod_if)
  with True show ?thesis by simp
qed simp

lemma adwc_rep:
  assumes sc: "chain_rep (s, c) t" and x: "represents (unat x) y"
  shows "chain_rep (adwc x s c) (t + y)"
proof -
  define v where "v = unat s + unat x + (if c then 1 else 0)"
  define c' :: nat where "c' = (if v \<ge> 2 ^ 32 then 1 else 0)"
  have vb: "v < 2 * 2 ^ 32 - 1"
    using sc unat_less_2_32 [of s] unat_less_2_32 [of x]
    by (auto simp: v_def chain_rep_def)
  have v: "v = v mod 2 ^ 32 + 2 ^ 32 * c'"
    unfolding c'_def by (rule wrap_2_32) (use vb in simp)
  have rv: "represents v (t + y)"
    using represents_plus [of "unat s + (if c then 1 else 0)" t "unat x" y] sc x
    by (simp add: v_def chain_rep_def add.assoc add.commute add.left_commute)
  have s': "unat (fst (adwc x s c)) = v mod 2 ^ 32"
    by (simp add: unat_adwc v_def)
  have cc: "snd (adwc x s c) \<longleftrightarrow> c' = 1" "c' = 0 \<or> c' = 1"
    by (auto simp: adwc_def v_def c'_def)
  have "represents (v mod 2 ^ 32 + c') (t + y)"
  proof (rule represents_wrap [OF rv])
    show "v = v mod 2 ^ 32 + c' + 65535 * (65537 * c')" using v by simp
  qed auto
  moreover have "c' = 1 \<Longrightarrow> v mod 2 ^ 32 + 1 < 2 ^ 32"
    using v vb by simp
  ultimately show ?thesis
    using cc by (auto simp: chain_rep_def s')
qed

lemma adds_rep:
  "chain_rep sc t \<Longrightarrow> chain_rep (adds n m w sc) (t + le_sum (seg m w (4 * n)))"
proof (induction n m w sc arbitrary: t rule: adds.induct)
  case (2 n m w s c)
  have "chain_rep (adwc (rd32 m w) s c) (t + le_sum (seg m w 4))"
    using "2.prems" rd32_represents by (rule adwc_rep)
  then have "chain_rep (adds n m (w + 4) (adwc (rd32 m w) s c))
      (t + le_sum (seg m w 4) + le_sum (seg m (w + 4) (4 * n)))"
    by (rule "2.IH")
  moreover have "le_sum (seg m w (4 * Suc n)) = le_sum (seg m w 4) + le_sum (seg m (w + 4) (4 * n))"
    using seg_add [of m w 4 "4 * n"] by (simp add: le_sum_append)
  ultimately show ?case by (simp add: add.assoc)
qed simp

lemma add_round_rep:
  assumes "represents (unat s) t"
  shows "represents (unat (add_round n m w s)) (t + le_sum (seg m w (4 * n)))"
proof -
  obtain s' c where sc: "adds n m w (s, False) = (s', c)" by fastforce
  have "chain_rep (s', c) (t + le_sum (seg m w (4 * n)))"
    unfolding sc [symmetric] by (rule adds_rep) (use assms in \<open>simp add: chain_rep_def\<close>)
  then have "unat (fst (adwc 0 s' c)) = unat s' + (if c then 1 else 0)"
    and "represents (unat s' + (if c then 1 else 0)) (t + le_sum (seg m w (4 * n)))"
    using unat_less_2_32 [of s'] by (auto simp: unat_adwc chain_rep_def)
  then show ?thesis by (simp add: add_round_def sc)
qed

declare add_blocks.simps [simp del] add_shorts.simps [simp del]

lemma add_blocks_rep:
  assumes "add_blocks n m w mlen s = (w', mlen', s')" "represents (unat s) t" "0 < n"
  shows "\<exists>k. w' = w + k \<and> mlen = k + mlen' \<and> even k \<and> mlen' < 4 * n
           \<and> represents (unat s') (t + le_sum (seg m w k))"
  using assms
proof (induction n m w mlen s arbitrary: t rule: add_blocks.induct)
  case (1 n m w mlen s)
  show ?case
  proof (cases "4 * n \<le> mlen")
    case True
    have "add_blocks n m (w + 4 * n) (mlen - 4 * n) (add_round n m w s) = (w', mlen', s')"
      using "1.prems" True by (simp add: add_blocks.simps [of n m w])
    from "1.IH" [OF _ this add_round_rep [OF "1.prems"(2)] "1.prems"(3)] True "1.prems"(3)
    obtain k where k: "w' = w + 4 * n + k" "mlen - 4 * n = k + mlen'" "even k" "mlen' < 4 * n"
      "represents (unat s') (t + le_sum (seg m w (4 * n)) + le_sum (seg m (w + 4 * n) k))"
      by auto
    have "le_sum (seg m w (4 * n + k)) = le_sum (seg m w (4 * n)) + le_sum (seg m (w + 4 * n) k)"
      by (simp add: seg_add le_sum_append)
    with k True show ?thesis
      by (intro exI [of _ "4 * n + k"]) (auto simp: add.assoc)
  next
    case False
    with "1.prems" show ?thesis by (auto simp: add_blocks.simps)
  qed
qed

lemma add_halves_rep:
  assumes "represents (unat s) t"
  shows "represents (unat (add_halves s) mod 65536) t"
proof -
  define lo where "lo = unat s mod 65536"
  define hi where "hi = unat s div 65536"
  define c :: nat where "c = (if lo + hi \<ge> 65536 then 1 else 0)"
  define low where "low = (lo + hi) mod 65536 + c"
  have b: "lo < 65536" "hi < 65536" "unat s = hi * 65536 + lo"
    using unat_less_2_32 [of s] by (auto simp: lo_def hi_def less_mult_imp_div_less)
  have split: "lo + hi = (lo + hi) mod 65536 + 65536 * c"
    using b by (auto simp: c_def mod_if)
  have low: "low < 65536" using b split by (auto simp: low_def c_def)
  have "add_halves s = word_of_nat (hi * 65536 + low)"
    unfolding add_halves_def Let_def lo_def hi_def c_def low_def by (simp only: add.assoc)
  then have "unat (add_halves s) = (hi * 65536 + low) mod 2 ^ 32"
    by (simp only: unat_of_nat take_bit_eq_mod) simp
  also have "\<dots> = hi * 65536 + low"
    using b low by (intro mod_less) simp
  finally have u: "unat (add_halves s) mod 65536 = low" using low by simp
  show ?thesis unfolding u
  proof (rule represents_wrap [OF assms])
    show "unat s = low + 65535 * (hi + c)" using b split by (simp add: low_def)
    show "low = 0 \<Longrightarrow> hi + c = 0" using split by (simp add: low_def)
  qed
qed

lemma fold16_rep:
  assumes "represents (unat s) t"
  shows "represents (unat (fold16 s)) t" "unat (fold16 s) < 65536"
proof -
  have "unat (fold16 s) = unat (add_halves s) mod 65536"
    unfolding fold16_def by (rule unat_word_of_nat) simp
  with add_halves_rep [OF assms] show "represents (unat (fold16 s)) t" "unat (fold16 s) < 65536"
    by simp_all
qed


section \<open>The loop\<close>

lemma add_shorts_rep:
  assumes "add_shorts m w mlen s = (w', mlen', s')" "represents (unat s) t"
    "unat s + 65536 * mlen < 2 ^ 31"
  shows "\<exists>k. w' = w + k \<and> mlen = k + mlen' \<and> even k \<and> mlen' < 2
           \<and> represents (unat s') (t + le_sum (seg m w k))
           \<and> unat s' + 65536 * mlen' \<le> unat s + 65536 * mlen"
  using assms
proof (induction m w mlen s arbitrary: t rule: add_shorts.induct)
  case (1 m w mlen s)
  show ?case
  proof (cases "2 \<le> mlen")
    case True
    let ?s = "s + ucast (rd16 m w)"
    have sh: "le_sum (seg m w 2) < 65536"
      using unat_byte [of "m_dat m w"] unat_byte [of "m_dat m (w + 1)"] by (simp add: seg_2)
    have us: "unat ?s = unat s + le_sum (seg m w 2)"
      using "1.prems"(3) sh by (simp add: unat_add32 unat_rd16_ucast)
    have sh1: "add_shorts m (w + 2) (mlen - 2) ?s = (w', mlen', s')"
      using "1.prems"(1) True by (simp add: add_shorts.simps [of m w])
    have sh2: "represents (unat ?s) (t + le_sum (seg m w 2))"
      unfolding us by (rule represents_add) (rule "1.prems")
    have le: "unat ?s + 65536 * (mlen - 2) \<le> unat s + 65536 * mlen"
      using us sh True by simp
    have "\<exists>k. w' = w + 2 + k \<and> mlen - 2 = k + mlen' \<and> even k \<and> mlen' < 2
      \<and> represents (unat s') (t + le_sum (seg m w 2) + le_sum (seg m (w + 2) k))
      \<and> unat s' + 65536 * mlen' \<le> unat ?s + 65536 * (mlen - 2)"
      by (rule "1.IH" [OF True sh1 sh2 order.strict_trans1 [OF le "1.prems"(3)]])
    then obtain k where k: "w' = w + 2 + k" "mlen - 2 = k + mlen'" "even k" "mlen' < 2"
      "represents (unat s') (t + le_sum (seg m w 2) + le_sum (seg m (w + 2) k))"
      "unat s' + 65536 * mlen' \<le> unat ?s + 65536 * (mlen - 2)"
      by blast
    have "le_sum (seg m w (2 + k)) = le_sum (seg m w 2) + le_sum (seg m (w + 2) k)"
      unfolding seg_add le_sum_append by simp
    with k True le show ?thesis
      by (intro exI [of _ "2 + k"]) (auto simp: add.assoc)
  next
    case False
    with "1.prems" show ?thesis by (auto simp: add_shorts.simps)
  qed
qed

lemma cksum_seg_rep:
  assumes r: "represents (unat s) t" and b: "unat s < 2 ^ 20"
    and v: "cksum_seg m w mlen s = (s', od)"
  shows "represents (unat s') (t + le_sum (seg m w mlen))" "unat s' < 2 ^ 19 + 256" "od = odd mlen"
proof -
  define al where "al = (odd (w div 2) \<and> mlen \<ge> 2)"
  define w0 where "w0 = (if al then w + 2 else w)"
  define n0 where "n0 = (if al then mlen - 2 else mlen)"
  define s0 where "s0 = (if al then s + ucast (rd16 m w) else s)"
  obtain w1 n1 s1 where 1: "add_blocks 8 m w0 n0 s0 = (w1, n1, s1)" by (metis prod_cases3)
  obtain w2 n2 s2 where 2: "add_blocks 2 m w1 n1 s1 = (w2, n2, s2)" by (metis prod_cases3)
  obtain w3 n3 s3 where 3: "add_shorts m w2 n2 (fold16 s2) = (w3, n3, s3)" by (metis prod_cases3)
  have res: "(s', od) = (if n3 = 1 then (s3 + ucast (rd8 m w3), True) else (s3, False))"
  proof -
    have eq: "(if odd (w div 2) \<and> mlen \<ge> 2 then (w + 2, mlen - 2, s + ucast (rd16 m w))
        else (w, mlen, s)) = (w0, n0, s0)"
      by (simp add: w0_def n0_def s0_def al_def)
    have "cksum_seg m w mlen s = (if n3 = 1 then (s3 + ucast (rd8 m w3), True) else (s3, False))"
      unfolding cksum_seg_def Let_def eq by (simp only: prod.case 1 2 3)
    then show ?thesis using v by simp
  qed
  have sh: "le_sum (seg m w 2) < 65536"
    using unat_byte [of "m_dat m w"] unat_byte [of "m_dat m (w + 1)"] by (simp add: seg_2)
  obtain k0 where k0: "w0 = w + k0" "mlen = k0 + n0" "even k0"
    "represents (unat s0) (t + le_sum (seg m w k0))"
  proof (cases al)
    case True
    have "unat s0 = unat s + le_sum (seg m w 2)"
      using True b sh by (simp add: s0_def unat_add32 unat_rd16_ucast)
    then have "represents (unat s0) (t + le_sum (seg m w 2))"
      using represents_add [OF r] by simp
    moreover have "w0 = w + 2" "mlen = 2 + n0" "even (2::nat)"
      using True by (auto simp: w0_def n0_def al_def)
    ultimately show ?thesis by (intro that [of 2])
  next
    case False
    then have "w0 = w + 0" "mlen = 0 + n0" "even (0::nat)" "represents (unat s0) (t + le_sum (seg m w 0))"
      using r by (auto simp: w0_def n0_def s0_def)
    then show ?thesis by (intro that [of 0])
  qed
  obtain k1 where k1: "w1 = w0 + k1" "n0 = k1 + n1" "even k1"
    "represents (unat s1) (t + le_sum (seg m w k0) + le_sum (seg m w0 k1))"
    using add_blocks_rep [OF 1 k0(4)] by auto
  obtain k2 where k2: "w2 = w1 + k2" "n1 = k2 + n2" "even k2" "n2 < 8"
    "represents (unat s2) (t + le_sum (seg m w k0) + le_sum (seg m w0 k1) + le_sum (seg m w1 k2))"
    using add_blocks_rep [OF 2 k1(4)] by auto
  note f = fold16_rep [OF k2(5)]
  have "unat (fold16 s2) + 65536 * n2 < 2 ^ 31" using f(2) k2(4) by simp
  from add_shorts_rep [OF 3 f(1) this] obtain k3 where k3: "w3 = w2 + k3" "n2 = k3 + n3"
    "even k3" "n3 < 2"
    "represents (unat s3) (t + le_sum (seg m w k0) + le_sum (seg m w0 k1) + le_sum (seg m w1 k2)
        + le_sum (seg m w2 k3))"
    "unat s3 + 65536 * n3 \<le> unat (fold16 s2) + 65536 * n2"
    by auto
  have total: "le_sum (seg m w mlen) = le_sum (seg m w k0) + le_sum (seg m w0 k1)
      + le_sum (seg m w1 k2) + le_sum (seg m w2 k3) + le_sum (seg m w3 n3)"
  proof -
    have "mlen = k0 + (k1 + (k2 + (k3 + n3)))" using k0 k1 k2 k3 by simp
    then show ?thesis using k0 k1 k2 k3 by (simp add: seg_add le_sum_append)
  qed
  have s3: "unat s3 < 2 ^ 19" using k3(6) f(2) k2(4) by simp
  have par: "odd mlen \<longleftrightarrow> n3 = 1"
  proof -
    have "odd mlen \<longleftrightarrow> odd n3" using k0 k1 k2 k3 by simp
    moreover have "n3 = 0 \<or> n3 = 1" using k3 by linarith
    ultimately show ?thesis by auto
  qed
  have "represents (unat s') (t + le_sum (seg m w mlen)) \<and> unat s' < 2 ^ 19 + 256 \<and> od = odd mlen"
  proof (cases "n3 = 1")
    case True
    have bu: "unat (ucast (rd8 m w3) :: u32) = unat (m_dat m w3)"
      using unat_byte [of "m_dat m w3"]
      by (simp add: rd8_def unsigned_ucast_eq take_bit_nat_eq_self)
    have us: "unat s' = unat s3 + unat (m_dat m w3)"
      using True res s3 unat_byte [of "m_dat m w3"] by (simp add: unat_add32 bu)
    have "le_sum (seg m w3 n3) = unat (m_dat m w3)" using True by (simp add: seg_1 [simplified])
    then show ?thesis
      using True res par us s3 unat_byte [of "m_dat m w3"]
        represents_add [OF k3(5), of "unat (m_dat m w3)"]
      by (simp add: total add.assoc)
  next
    case False
    then have "n3 = 0" using k3 by simp
    then show ?thesis using res par k3 s3 by (simp add: total add.assoc)
  qed
  then show "represents (unat s') (t + le_sum (seg m w mlen))" "unat s' < 2 ^ 19 + 256"
    "od = odd mlen" by auto
qed

text \<open>The value of the bytes still to come: behind an odd byte they are shifted by one place.\<close>

definition rest_sum :: "bool \<Rightarrow> byte list \<Rightarrow> nat" where
  "rest_sum od bs = (if od then le_sum (0 # bs) else le_sum bs)"

lemma rest_sum_append:
  "rest_sum od (xs @ ys) = rest_sum od xs + rest_sum (od \<noteq> odd (length xs)) ys"
proof (cases od)
  case True
  then show ?thesis using le_sum_append [of "0 # xs" ys] by (simp add: rest_sum_def)
next
  case False
  then show ?thesis using le_sum_append [of xs ys] by (simp add: rest_sum_def)
qed

lemma rest_sum_odd_Cons: "rest_sum True (b # bs) = 256 * unat b + le_sum bs"
  by (simp add: rest_sum_def)

lemma rest_sum_Nil [simp]: "rest_sum od [] = 0"
  by (simp add: rest_sum_def)

lemma chain_bytes_next_data: "chain_bytes (next_data ms) = chain_bytes ms"
  by (induction ms) (auto simp: mbytes_empty)

definition loop_ok :: "mbuf list \<Rightarrow> nat \<Rightarrow> bool \<Rightarrow> u32 \<Rightarrow> nat \<Rightarrow> bool" where
  "loop_ok ms len od s t \<longleftrightarrow>
     represents (unat s) t \<and> unat s < 2 ^ 19 + 256
     \<and> (od \<longrightarrow> 0 < len \<and> (\<forall>m ms'. ms = m # ms' \<longrightarrow> 0 < m_len m))"

declare cksum_loop.simps(2) [simp del]

lemma cksum_loop_step:
  assumes ok: "loop_ok (m # ms) len od s t"
    and IH: "\<And>m' ms' len od s t. length ms' < length ms \<Longrightarrow> loop_ok (m' # ms') len od s t \<Longrightarrow>
      represents (unat (fst (cksum_loop (m' # ms') len od s)))
        (t + rest_sum od (take len (chain_bytes (m' # ms'))))"
  shows "represents (unat (fst (cksum_loop (m # ms) len od s)))
           (t + rest_sum od (take len (chain_bytes (m # ms))))"
proof -
  have pr1: "represents (unat s) t" and pr2: "unat s < 2 ^ 19 + 256"
    and pr3: "od \<Longrightarrow> 0 < len \<and> 0 < m_len m"
    using ok by (auto simp: loop_ok_def)
  define p where "p = (if od then 1 else 0 :: nat)"
  define s0 where "s0 = (if od then s + push_bit 8 (ucast (rd8 m (m_off m))) else s)"
  define n where "n = min (len - p) (m_len m - p)"
  obtain s1 od1 where c: "cksum_seg m (m_off m + p) n s0 = (s1, od1)" by fastforce
  have pl: "p \<le> len" "p \<le> m_len m" using pr3 by (auto simp: p_def)
  have bs: "take len (mbytes m) = seg m (m_off m) p @ seg m (m_off m + p) n"
  proof -
    have "take len (mbytes m) = seg m (m_off m) (min len (m_len m))"
      by (simp add: mbytes_seg seg_def take_map min_def)
    also have "min len (m_len m) = p + n" using pl by (auto simp: n_def)
    finally show ?thesis by (simp add: seg_add)
  qed
  have s0: "represents (unat s0) (t + rest_sum od (seg m (m_off m) p))" "unat s0 < 2 ^ 20"
  proof -
    have u: "unat (push_bit 8 (ucast (rd8 m (m_off m))) :: u32) = 256 * unat (m_dat m (m_off m))"
      using unat_byte [of "m_dat m (m_off m)"]
      by (simp add: rd8_def push_bit_eq_mult unat_word_ariths unsigned_ucast_eq
          take_bit_nat_eq_self)
    have "unat s0 = unat s + rest_sum od (seg m (m_off m) p)"
      using u pr2 unat_byte [of "m_dat m (m_off m)"]
      by (auto simp: s0_def p_def seg_1 [simplified] rest_sum_odd_Cons unat_add32)
    moreover have "rest_sum od (seg m (m_off m) p) < 65536"
      using unat_byte [of "m_dat m (m_off m)"] by (auto simp: p_def seg_1 [simplified] rest_sum_odd_Cons)
    ultimately show "represents (unat s0) (t + rest_sum od (seg m (m_off m) p))" "unat s0 < 2 ^ 20"
      using represents_add [OF pr1] pr2 by simp_all
  qed
  note cs = cksum_seg_rep [OF s0 c]
  have t1: "t + rest_sum od (seg m (m_off m) p) + le_sum (seg m (m_off m + p) n)
      = t + rest_sum od (take len (mbytes m))"
    unfolding bs rest_sum_append by (simp add: p_def rest_sum_def)
  have od1: "od1 = (odd (p + n) \<noteq> od)" using cs(3) by (auto simp: p_def)
  have step: "cksum_loop (m # ms) len od s =
     (if len - p - n = 0 then (s1, False)
      else case next_data ms of [] \<Rightarrow> (s1, True)
           | m' # ms' \<Rightarrow> cksum_loop (m' # ms') (len - p - n) od1 s1)"
    using c by (auto simp: cksum_loop.simps(2) Let_def p_def s0_def n_def split: list.split)
  show ?thesis
  proof (cases "len - p - n = 0")
    case True
    then have "len \<le> m_len m" using pl by (auto simp: n_def)
    then show ?thesis using True step cs t1 by simp
  next
    case False
    then have n: "n = m_len m - p" by (auto simp: n_def)
    then have len: "len - p - n = len - m_len m" "m_len m < len" using pl False by auto
    have tk: "take len (chain_bytes (m # ms)) = take len (mbytes m) @ take (len - m_len m) (chain_bytes ms)"
      by simp
    have lb: "length (take len (mbytes m)) = p + n" using len pl n by simp
    have od1': "od1 = (od \<noteq> odd (length (take len (mbytes m))))"
      unfolding lb using od1 by auto
    have r1: "represents (unat s1) (t + rest_sum od (take len (mbytes m)))"
      using cs(1) t1 by simp
    show ?thesis
    proof (cases "next_data ms")
      case Nil
      then have "chain_bytes ms = []" using chain_bytes_next_data [of ms] by simp
      then show ?thesis using step Nil False r1 by simp
    next
      case (Cons m' ms')
      have cb: "chain_bytes (m' # ms') = chain_bytes ms"
        using chain_bytes_next_data [of ms] Cons by simp
      have "represents (unat (fst (cksum_loop (m' # ms') (len - m_len m) od1 s1)))
          (t + rest_sum od (take len (mbytes m))
             + rest_sum od1 (take (len - m_len m) (chain_bytes (m' # ms'))))"
        using next_data_Cons [OF Cons] cs(2) len r1 by (intro IH) (auto simp: loop_ok_def)
      then show ?thesis using step Cons False len
        unfolding tk rest_sum_append od1' [symmetric] cb by (simp add: add.assoc)
    qed
  qed
qed

lemma cksum_loop_rep:
  "loop_ok ms len od s t \<Longrightarrow>
   represents (unat (fst (cksum_loop ms len od s))) (t + rest_sum od (take len (chain_bytes ms)))"
proof (induction "length ms" arbitrary: ms len od s t rule: less_induct)
  case less
  show ?case
  proof (cases ms)
    case Nil
    with less.prems show ?thesis by (simp add: loop_ok_def)
  next
    case (Cons m ms')
    show ?thesis unfolding Cons
      by (rule cksum_loop_step [OF less.prems [unfolded Cons]], rule less.hyps) (simp_all add: Cons)
  qed
qed

lemma cksum_eq:
  "cksum ms len = ip_checksum (take len (chain_bytes ms))"
proof -
  let ?t = "le_sum (take len (chain_bytes ms))"
  let ?s = "add_halves (fst (cksum_loop ms len False 0))"
  define low where "low = unat ?s mod 65536"
  have "represents (unat (fst (cksum_loop ms len False 0))) (0 + rest_sum False (take len (chain_bytes ms)))"
    by (rule cksum_loop_rep) (simp add: loop_ok_def)
  then have r: "represents low ?t"
    unfolding low_def by (intro add_halves_rep) (simp add: rest_sum_def)
  have low: "low < 65536" by (simp add: low_def)
  have "ones_fold low = low"
    using low by (auto simp: ones_fold_def)
  then have f: "ones_fold ?t = low" using represents_ones_fold [OF r] by simp
  have u: "ucast ?s = (word_of_nat low :: u16)"
    unfolding low_def word_unat_eq_iff
    by (simp add: unsigned_ucast_eq take_bit_eq_mod unat_of_nat)
  have "NOT (word_of_nat low :: u16) = - 1 - word_of_nat low"
    by (simp add: not_eq_complement)
  also have "\<dots> = word_of_nat 65535 - word_of_nat low"
    by simp
  also have "\<dots> = word_of_nat (65535 - low)"
    using low by (simp only: of_nat_diff less_Suc_eq_le)
  finally show ?thesis unfolding cksum_def Let_def u ip_checksum_def f .
qed

text \<open>C4: the checksum routine, whatever the split of the packet over buffers of any length and
  alignment, returns the ones complement of the ones complement sum of the 16 bit words of the
  first \<open>len\<close> bytes of the chain (an odd last byte padded with zero).\<close>

theorem cksum_correct:
  "cksum ms len = ip_checksum (take len (chain_bytes ms))"
  by (rule cksum_eq)

end
