(* ===== verification/Ip_Output.thy ===== *)
theory Ip_Output
  imports Net_If Net_Cksum
begin

text \<open>
  ip_output.c: header completion, fragmentation and routing of outgoing datagrams, and raw IP
  output.  The ip header is read and written in place, at its byte offset in the first buffer:
  ip_hl/ip_v 0, ip_tos 1, ip_len 2, ip_id 4, ip_off 6, ip_ttl 8, ip_p 9, ip_sum 10, ip_src 12,
  ip_dst 16.  Behaviour that C leaves undefined is marked by a panic of the model.
\<close>

definition IPVERSION :: nat where [net_simps]: "IPVERSION = 4"
definition MAXTTL :: byte where [net_simps]: "MAXTTL = 10"
definition ip_df :: u16 where [net_simps]: "ip_df = 0x4000"
definition ip_mf :: u16 where [net_simps]: "ip_mf = 0x2000"

text \<open>bcopy of \<open>n\<close> bytes from offset \<open>s\<close> of some memory to offset \<open>d\<close> of a buffer.\<close>

definition blit :: "(nat \<Rightarrow> byte) \<Rightarrow> nat \<Rightarrow> nat \<Rightarrow> nat \<Rightarrow> mbuf \<Rightarrow> mbuf" where
  "blit src s d n m =
    m\<lparr>m_dat := (\<lambda>i. if d \<le> i \<and> i < d + n then src (s + (i - d)) else m_dat m i)\<rparr>"

section \<open>Routing\<close>

definition GWROUTE :: u32 where [net_simps]: "GWROUTE = 1"

text \<open>ip_route returns a pointer: to the destination in the packet (the flag is True) or to the
  gateway's entry.\<close>

definition ip_route :: "addr \<Rightarrow> addr \<Rightarrow> net \<Rightarrow> (bool \<times> addr) option" where
  "ip_route src dst net =
    (let snet = iptonet src; dnet = iptonet dst in
     if snet = dnet \<and> (\<exists>ip\<in>set (n_ifcbs net). dnet = iptonet (if_addr (ifs net ip)) \<and> if_avail (ifs net ip))
     then Some (True, dst)
     else
       (case find (\<lambda>gp. snet = g_lnet gp \<and> dnet = g_fnet gp \<and> if_avail (ifs net (g_ifcb gp)))
               (gateways net) of
          Some gp \<Rightarrow> Some (False, g_local gp)
        | None \<Rightarrow>
            (case find (\<lambda>gp. has (g_flags gp) GWROUTE \<and> snet = g_lnet gp \<and> if_avail (ifs net (g_ifcb gp)))
                    (gateways net) of
               Some gp \<Rightarrow> Some (False, g_local gp)
             | None \<Rightarrow> None)))"

definition ip_reroute :: "nat \<Rightarrow> nat \<Rightarrow> net \<Rightarrow> bool \<times> net" where
  "ip_reroute up hp net =
    (let lnet = iptonet (h_addr (hosts net ! hp)) in
     case find (\<lambda>gp. has (g_flags gp) GWROUTE \<and> if_avail (ifs net (g_ifcb gp)) \<and> lnet = g_lnet gp
              \<and> g_local gp \<noteq> h_addr (hosts net ! hp)) (gateways net) of
       None \<Rightarrow> (False, net)
     | Some gp \<Rightarrow>
         (let net = h_free hp net; (r, net) = h_make (g_local gp) False net;
              net = upd_ucb up (uc_route_update (\<lambda>_. r)) net in
          (r \<noteq> None, net)))"

section \<open>Sending\<close>

text \<open>Byte swap of length and offset and, unless the user supplies it, the header checksum.\<close>

definition ip_finish :: "nat \<Rightarrow> nat \<Rightarrow> u16 \<Rightarrow> mbuf list \<Rightarrow> mbuf list" where
  "ip_finish p hlen asis mp =
    (let mp = upd_hd (\<lambda>m. wr16 (p + 2) (ntohs (rd16 m (p + 2))) m) mp;
         mp = upd_hd (\<lambda>m. wr16 (p + 6) (ntohs (rd16 m (p + 6))) m) mp in
     if \<not> has asis RAWASIS then
       (let mp = upd_hd (wr16 (p + 10) 0) mp in
        upd_hd (wr16 (p + 10) (cksum mp hlen)) mp)
     else mp)"

text \<open>The walk of ip_frag: the longest front part of the chain with at most \<open>mx\<close> data bytes
  (\<open>i\<close> starts at minus the header length), the rest, and \<open>i\<close> behind the front part.\<close>

fun frag_split :: "int \<Rightarrow> int \<Rightarrow> mbuf list \<Rightarrow> mbuf list \<times> mbuf list \<times> int" where
  "frag_split mx i [] = ([], [], i)"
| "frag_split mx i (m # ms) =
    (if i + int (m_len m) > mx then ([], m # ms, i)
     else (let (fr, rest, k) = frag_split mx (i + int (m_len m)) ms in (m # fr, rest, k)))"

text \<open>
  One round of ip_frag on the packet \<open>cur\<close> whose header is at \<open>p\<close>: it ends the loop, or
  sends \<open>rnd\<close> data bytes and goes on with the header offset, packet, length and offset left.
\<close>

datatype frag_step = Frag_done bool net | Frag_more int int nat "mbuf list" net

definition frag_last :: "nat \<Rightarrow> addr \<Rightarrow> nat \<Rightarrow> u16 \<Rightarrow> nat \<Rightarrow> mbuf list \<Rightarrow> net \<Rightarrow> bool \<times> net" where
  "frag_last ip ap hlen asis p cur net =
    (let olen = int (unat (rd16 (hd cur) (p + 2))) in
     if_send (ip_finish p hlen asis cur) ip ap olen (if_link (ifs net ip)) False net)"

definition frag_round :: "nat \<Rightarrow> addr \<Rightarrow> nat \<Rightarrow> u16 \<Rightarrow> int \<Rightarrow> int \<Rightarrow> nat \<Rightarrow> mbuf list \<Rightarrow> net
    \<Rightarrow> frag_step" where
  "frag_round ip ap hlen asis len off p cur net =
    (let cur = upd_hd (\<lambda>m. wr16 (p + 6) (rd16 m (p + 6) OR word_of_int (off div 8)) m) cur;
         mx = if_mtu (ifs net ip) - int hlen;
         (fr, rest, i) = frag_split mx (- int hlen) cur in
     if rest = [] then
       (let (ok, net) = frag_last ip ap hlen asis p
              (upd_hd (\<lambda>m. wr16 (p + 2) (word_of_int (i + int hlen))
                 (wr16 (p + 6) (rd16 m (p + 6) AND NOT ip_mf) m)) cur) net in
        Frag_done ok net)
     else
       (let (got, net) = m_get 1 net in
        if got = None then Frag_done False (freem rest net)
        else if fr = [] then Frag_done False (panic ''ip_frag: n undefined'' net)
        else
          (let mm = the got;
               fr = upd_hd (\<lambda>m. wr16 (p + 6) (rd16 m (p + 6) OR ip_mf) m) fr;
               rnd = i div 8 * 8;
               adj = nat (i - rnd);
               fr = upd_hd (wr16 (p + 2) (word_of_int (rnd + int hlen))) fr;
               mm = mm\<lparr>m_off := uchar (128 - int hlen - int adj), m_len := uchar (int hlen + int adj)\<rparr>;
               mm = blit (m_dat (hd fr)) p (m_off mm) hlen mm;
               n = last fr;
               n' = (if adj \<noteq> 0 then n\<lparr>m_len := uchar (int (m_len n) - int adj)\<rparr> else n);
               fr = butlast fr @ [n'];
               mm = (if adj \<noteq> 0 then blit (m_dat n) (m_len n' + m_off n) (m_off mm + hlen) adj mm
                     else mm);
               (_, net) = frag_last ip ap hlen asis p fr net in
           Frag_more (len - rnd) (off + rnd) (m_off mm) (mm # rest) net)))"

text \<open>The loop.  Fuel of the data length runs out only when a round sends no data, in which case
  the code repeats it until the buffers are gone.\<close>

fun ip_frag_loop :: "nat \<Rightarrow> nat \<Rightarrow> addr \<Rightarrow> nat \<Rightarrow> u16 \<Rightarrow> int \<Rightarrow> int \<Rightarrow> nat \<Rightarrow> mbuf list \<Rightarrow> net
    \<Rightarrow> bool \<times> net" where
  "ip_frag_loop 0 ip ap hlen asis len off p cur net = (False, panic ''ip_frag: no progress'' net)"
| "ip_frag_loop (Suc fuel) ip ap hlen asis len off p cur net =
    (if \<not> len > 0 then frag_last ip ap hlen asis p cur net
     else
       (case frag_round ip ap hlen asis len off p cur net of
          Frag_done ok net' \<Rightarrow> (ok, net')
        | Frag_more len' off' p' cur' net' \<Rightarrow>
            ip_frag_loop fuel ip ap hlen asis len' off' p' cur' net'))"

definition ip_frag :: "mbuf list \<Rightarrow> nat \<Rightarrow> nat \<Rightarrow> addr \<Rightarrow> nat \<Rightarrow> u16 \<Rightarrow> net \<Rightarrow> bool \<times> net" where
  "ip_frag mp p ip ap hlen asis net =
    (if has (rd16 (hd mp) (p + 6)) ip_df then (False, freem mp net)
     else
       (let len = int (unat (rd16 (hd mp) (p + 2))) - int hlen in
        ip_frag_loop (Suc (nat len)) ip ap hlen asis len 0 p mp net))"

text \<open>
  ip_send for a connection whose interface and route are given (one caller makes them up on its
  stack); the route that is left in the connection is returned.  With options the header is moved
  down, and a destination pointer into the packet then points at option bytes.
\<close>

definition ip_send :: "nat \<Rightarrow> nat option \<Rightarrow> mbuf list \<Rightarrow> byte \<Rightarrow> int \<Rightarrow> nat \<Rightarrow> byte list \<Rightarrow> u16 \<Rightarrow> net
    \<Rightarrow> bool \<times> nat option \<times> net" where
  "ip_send ip route mp proto len optlen options asis net =
    (let m = hd mp; p = m_off m;
         (dest, route, net) =
           (case route of
              Some h \<Rightarrow> (Some (False, h_addr (hosts net ! h)), route, net)
            | None \<Rightarrow>
                (case ip_route (rd32 m (p + 12)) (rd32 m (p + 16)) net of
                   None \<Rightarrow> (None, None, net)
                 | Some (direct, ap) \<Rightarrow>
                     (let (r, net) = h_make ap False net in
                      (if r = None then None else Some (direct, ap), r, net)))) in
     case dest of
       None \<Rightarrow> (False, route, freem mp net)
     | Some (direct, ap) \<Rightarrow>
         (let q = p;
              m = (if optlen > 0 then push_hdr optlen m else m);
              p = (if optlen > 0 then q - optlen else q);
              m = (if optlen > 0
                   then blit (\<lambda>i. options ! i) 0 (p + IPSIZE) optlen (blit (m_dat m) q p IPSIZE m)
                   else m);
              ap = (if direct then rd32 m (q + 16) else ap);
              hlen = IPSIZE + optlen;
              (m, net) =
                (if \<not> has asis (RAWASIS + RAWVER) then
                   (let m = wr16 (p + 2) (word_of_int (len + int hlen)) m;
                        m = wr8 (p + 9) proto m;
                        m = wr8 (p + 0) (word_of_nat (hlen div 4 mod 16 + 16 * IPVERSION)) m;
                        m = wr16 (p + 6) 0 m;
                        m = wr8 (p + 8) MAXTTL m;
                        m = wr16 (p + 4) (n_ip_cnt net) m in
                    (m, net\<lparr>n_ip_cnt := n_ip_cnt net + 1\<rparr>))
                 else (m, net));
              mp = m # tl mp;
              iplen = int (unat (rd16 m (p + 2))) in
          if iplen > if_mtu (ifs net ip) then
            (let (ok, net) = ip_frag mp p ip ap hlen asis net in (ok, route, net))
          else
            (let (ok, net) = if_send (ip_finish p hlen asis mp) ip ap iplen (if_link (ifs net ip)) False net in
             (ok, route, net))))"

text \<open>ip_send for a user connection block.\<close>

definition ip_send_up :: "nat \<Rightarrow> mbuf list \<Rightarrow> byte \<Rightarrow> int \<Rightarrow> nat \<Rightarrow> byte list \<Rightarrow> u16 \<Rightarrow> net \<Rightarrow> bool \<times> net" where
  "ip_send_up up mp proto len optlen options asis net =
    (let u = ucbs net up;
         (ok, r, net) = ip_send (the (uc_srcif u)) (uc_route u) mp proto len optlen options asis net in
     (ok, upd_ucb up (uc_route_update (\<lambda>_. r)) net))"

section \<open>Raw IP output\<close>

definition ip_raw :: "nat \<Rightarrow> mbuf list \<Rightarrow> int \<Rightarrow> net \<Rightarrow> net" where
  "ip_raw up mp len net =
    (let u = ucbs net up; mode = uc_flags u AND RAWMASK;
         rawfree = (\<lambda>mp net. set_error ERAWBAD (freem mp net)) in
     if mode = RAWCOMP then
       (let m = (hd mp)\<lparr>m_off := 128 - IPSIZE, m_len := IPSIZE\<rparr>;
            p = m_off m;
            m = wr32 (p + 12) (uc_local u) m;
            m = wr32 (p + 16) (uc_host u) m;
            mp = m # tl mp in
        case uc_prnum u of
          None \<Rightarrow> rawfree mp net
        | Some num \<Rightarrow>
            (let (ok, net) = ip_send_up up mp (word_of_int num) len 0 [] 0 net in
             if ok then net else set_error ERAWBAD net))
     else if mode = RAWASIS \<or> mode = RAWVER then
       (case tl mp of
          [] \<Rightarrow> set_error ERAWBAD net
        | n # ns \<Rightarrow>
            (let p = m_off n; hlen = 4 * (unat (rd8 n p) mod 16) in
             if hlen > MSIZE \<or> hlen > m_len n then rawfree mp net
             else
               (let m = (hd mp)\<lparr>m_off := 128 - hlen, m_len := hlen\<rparr>;
                    m = blit (m_dat n) p (m_off m) hlen m;
                    n' = pull_hdr hlen n;
                    mp = m # n' # ns;
                    net = h_free_opt (uc_route u) net in
                case ip_route (rd32 n (p + 12)) (rd32 n (p + 16)) net of
                  None \<Rightarrow> rawfree mp net
                | Some (_, ap) \<Rightarrow>
                    (let (r, net) = h_make ap True net;
                         net = upd_ucb up (uc_route_update (\<lambda>_. r)) net in
                     if r = None then rawfree mp net
                     else
                       (let src = find (\<lambda>i. iptonet (if_addr (ifs net i)) = iptonet ap) (n_ifcbs net);
                            net = upd_ucb up (uc_srcif_update (\<lambda>_. src)) net in
                        if src = None then rawfree mp net
                        else
                          (let (ok, net) = ip_send_up up mp (rd8 m (m_off m + 9)) len 0 [] (uc_flags u) net in
                           if ok then net else set_error ERAWBAD net))))))
     else set_error ENETPARM (freem mp net))"

end
