(* ===== verification/Tcp_Prim.thy ===== *)
theory Tcp_Prim
  imports Ip_Output
begin

text \<open>
  tcp_prim.c: the primitives of the TCP machine.  Control blocks are named by number in the
  functions that change the state; the functions that only look at a connection take the records.
\<close>

section \<open>The receive window\<close>

fun fe_walk :: "th \<Rightarrow> th list \<Rightarrow> seq" where
  "fe_walk p [] = t_end p + 1"
| "fe_walk p (q # qs) = (if SEQ_EQ (t_end p + 1) (t_seq q) then fe_walk q qs else t_end p + 1)"

definition firstempty :: "tcb \<Rightarrow> seq" where
  "firstempty tp =
    (case t_rcv tp of
       [] \<Rightarrow> rcv_nxt tp
     | p # qs \<Rightarrow> if SEQ_LT (rcv_nxt tp) (t_seq p) then rcv_nxt tp else fe_walk p qs)"

fun rr_loop :: "int \<Rightarrow> th list \<Rightarrow> int" where
  "rr_loop i [] = i"
| "rr_loop i (t # ts) = (if i > 0 then rr_loop (i - int (t_len t)) ts else i)"

definition rcv_resource :: "tcb \<Rightarrow> ucb \<Rightarrow> int" where
  "rcv_resource tp up =
    (let i = rr_loop ((int (uc_rcv up) - int (uc_rsize up)) * int MLEN) (t_rcv tp) in
     if i < 0 then 0 else i)"

section \<open>Copying from the send buffer\<close>

text \<open>The search for the buffer that holds \<open>start\<close>; \<open>off\<close> is the sequence number of the
  first byte of the buffer looked at.\<close>

fun snd_skip :: "seq \<Rightarrow> seq \<Rightarrow> mbuf list \<Rightarrow> seq \<times> mbuf list" where
  "snd_skip start off [] = (off, [])"
| "snd_skip start off (m # ms) =
    (if SEQ_GEQ start (off + word_of_nat (m_len m))
     then snd_skip start (off + word_of_nat (m_len m)) ms
     else (off, m # ms))"

text \<open>The partial copy into a fresh buffer, from \<open>adj\<close> bytes into \<open>m\<close>.\<close>

definition snd_partial :: "mbuf \<Rightarrow> int \<Rightarrow> mbuf \<Rightarrow> mbuf" where
  "snd_partial m adj n =
    (let n = n\<lparr>m_off := MHEAD, m_len := uchar (int (m_len m) - adj)\<rparr> in
     blit (m_dat m) (m_off m + nat adj) MHEAD (m_len n) n)"

text \<open>The main copy loop over the buffers behind the current one: \<open>done\<close> are the full buffers
  of the copy, \<open>n\<close> is its last.  NULL is the empty chain.\<close>

definition snd_trim :: "seq \<Rightarrow> seq \<Rightarrow> mbuf \<Rightarrow> mbuf" where
  "snd_trim off end n = n\<lparr>m_len := uchar (int (m_len n) - sint (off - end))\<rparr>"

fun snd_copy_loop :: "seq \<Rightarrow> seq \<Rightarrow> mbuf list \<Rightarrow> mbuf \<Rightarrow> mbuf list \<Rightarrow> net \<Rightarrow> mbuf list \<times> net" where
  "snd_copy_loop end off dn n [] net =
    (if SEQ_GT end off
     then ([], freem (dn @ [n]) (emit (Printf ''snd_copy: bad copy'') net))
     else (dn @ [snd_trim off end n], net))"
| "snd_copy_loop end off dn n (m # ms) net =
    (if SEQ_GT end off then
       (let adj = int MLEN - int (m_len n);
            len = (if adj \<ge> int (m_len m) then int (m_len m) else adj);
            n = blit (m_dat m) (m_off m) (MHEAD + m_len n) (nat len) n;
            n = n\<lparr>m_len := uchar (int (m_len n) + len)\<rparr>;
            off = off + word_of_int len in
        if SEQ_GT end off \<and> adj < int (m_len m) then
          (let (got, net) = m_get 1 net in
           if got = None then ([], freem (dn @ [n]) net)
           else
             (let n' = snd_partial m adj (the got) in
              snd_copy_loop end (off + word_of_nat (m_len n')) (dn @ [n]) n' ms net))
        else snd_copy_loop end off dn n ms net)
     else (dn @ [snd_trim off end n], net))"

definition snd_copy :: "tcb \<Rightarrow> mbuf list \<Rightarrow> seq \<Rightarrow> seq \<Rightarrow> net \<Rightarrow> mbuf list \<times> net" where
  "snd_copy tp sbuf start end net =
    (if SEQ_GEQ start end then ([], net)
     else
       (let off = (if syn_acked tp then snd_una tp else snd_una tp + 1) in
        case snd_skip start off sbuf of
          (off, []) \<Rightarrow> ([], net)
        | (off, m # ms) \<Rightarrow>
            (let (got, net) = m_get 1 net in
             if got = None then ([], net)
             else
               (let n = snd_partial m (sint (start - off)) (the got) in
                snd_copy_loop end (start + word_of_nat (m_len n)) [] n ms net))))"

section \<open>Sending a segment\<close>

text \<open>tcp_debug writes a record to the debugging file if there is one.\<close>

definition tcp_debug :: "nat \<Rightarrow> nat \<Rightarrow> nat \<Rightarrow> int \<Rightarrow> net \<Rightarrow> net" where
  "tcp_debug tp stype input newstate net =
    (if n_debug net
     then emit (Debug_rec tp (t_state (tcbs net tp)) input stype newstate) net else net)"

text \<open>The leader of a segment, in a fresh buffer, up to the checksum.  \<open>len\<close> is the length in
  sequence space less a FIN; a SYN carries the maximum segment size option.\<close>

definition pkt_flags :: "tcb \<Rightarrow> byte \<Rightarrow> byte" where
  "pkt_flags tp flags =
    (let flags = (if snd_rst tp then (flags OR T_RST) AND NOT T_SYN else flags);
         flags = (if snd_urg tp then flags OR T_URG else flags) in
     if syn_rcvd tp then flags OR T_ACK else flags)"

definition pkt_len :: "byte \<Rightarrow> int \<Rightarrow> int" where
  "pkt_len flags len =
    (let len = (if has flags T_FIN then len - 1 else len) in
     if has flags T_SYN then len + 3 else len)"

definition pkt_leader :: "tcb \<Rightarrow> ucb \<Rightarrow> int \<Rightarrow> byte \<Rightarrow> int \<Rightarrow> int \<Rightarrow> mbuf \<Rightarrow> mbuf" where
  "pkt_leader tp up mtu flags len wnd m =
    (let m = m\<lparr>m_off := 84, m_len := 40\<rparr>; t = 84;
         m = (if has flags T_SYN
              then wr16 (t + 42) (ntohs (word_of_int (mtu - TCPIPMAX)))
                     (wr16 (t + 40) 0x0402 (wr8 (t + 32) 0x60 (m\<lparr>m_len := 44\<rparr>)))
              else wr8 (t + 32) 0x50 m);
         m = wr16 (t + 10) (ntohs (word_of_int (len + int TCPSIZE))) m;
         m = wr32 (t + 12) (uc_local up) m;
         m = wr32 (t + 16) (uc_host up) m;
         m = wr16 (t + 20) (ntohs (t_lport tp)) m;
         m = wr16 (t + 22) (ntohs (t_fport tp)) m;
         m = wr32 (t + 24) (ntohl (snd_nxt tp)) m;
         m = wr32 (t + 28) (ntohl (rcv_nxt tp)) m;
         m = wr8 (t + 33) (pkt_flags tp flags) m;
         m = wr16 (t + 34) (ntohs (word_of_int wnd)) m;
         m = wr16 (t + 38) (ntohs (ucast (snd_urp tp - snd_nxt tp))) m;
         m = wr32 t 0 m;
         m = wr32 (t + 4) 0 m;
         m = wr8 (t + 8) 0 m;
         m = wr16 (t + 36) 0 m in
     wr8 (t + 9) TCPROTO m)"

definition send_pkt :: "nat \<Rightarrow> byte \<Rightarrow> int \<Rightarrow> mbuf list \<Rightarrow> net \<Rightarrow> bool \<times> net" where
  "send_pkt tp flags len dat net =
    (let (got, net) = m_get 1 net in
     if got = None then (False, net)
     else
       (let t = tcbs net tp; u = t_ucb t; up = ucbs net u;
            len = pkt_len flags len;
            i = rcv_resource t up;
            m = pkt_leader t up (if_mtu (ifs net (the (uc_srcif up)))) flags len i (the got);
            net = upd_tcb tp (\<lambda>t. t\<lparr>sent_zero := (i = 0)\<rparr>) net;
            sum = cksum (m # dat) (nat (len + 40));
            m = wr16 (84 + 36) sum m;
            (ok, net) = ip_send_up u (m # dat) TCPROTO (len + int TCPSIZE)
                          (t_optlen t) (t_opts t) 0 net;
            net = (if has (uc_flags up) UDEBUG
                   then tcp_debug tp (if ok then 1 else 0) INRECV (-1) net else net) in
        (ok, net)))"

section \<open>Timers\<close>

definition cancel_work :: "nat \<Rightarrow> nat \<Rightarrow> work \<Rightarrow> work" where
  "cancel_work tp timer w =
    (if w_tcb w = tp \<and> w_type w = ISTIMER \<and> w_stype w = timer then w\<lparr>w_type := INOP\<rparr> else w)"

definition t_cancel :: "nat \<Rightarrow> nat \<Rightarrow> net \<Rightarrow> net" where
  "t_cancel tp timer net =
    (let net = upd_tcb tp (set_timer timer 0) net in
     net\<lparr>n_work := map (cancel_work tp timer) (n_work net)\<rparr>)"

definition tick_timer :: "nat \<Rightarrow> nat \<Rightarrow> net \<Rightarrow> net" where
  "tick_timer tp i net =
    (let v = t_timers (tcbs net tp) i in
     if v \<noteq> 0 then
       (let net = upd_tcb tp (set_timer i (v - 1)) net in
        if v - 1 = 0 then w_alloc ISTIMER i tp NoDat net else net)
     else net)"

fun tick_timers :: "nat \<Rightarrow> nat list \<Rightarrow> net \<Rightarrow> net" where
  "tick_timers tp [] net = net"
| "tick_timers tp (i # is) net = tick_timers tp is (tick_timer tp i net)"

fun timeo_tcbs :: "nat list \<Rightarrow> net \<Rightarrow> net" where
  "timeo_tcbs [] net = net"
| "timeo_tcbs (tp # tps) net =
    (let net = tick_timers tp [TINIT, TREXMT, TREXMTTL, TPERSIST, TFINACK] net;
         net = upd_tcb tp (\<lambda>t. set_timer TXMT (uchar (int (t_timers t TXMT) + 1)) t) net in
     timeo_tcbs tps net)"

definition tcp_timeo :: "net \<Rightarrow> net" where
  "tcp_timeo net =
    (let net = timeo_tcbs (n_tcbs net) net in net\<lparr>n_iss := n_iss net + ISSINCR\<rparr>)"

section \<open>Options\<close>

text \<open>
  The option loop of tcp_opt: \<open>p\<close> is the offset of the next option, \<open>i\<close> the bytes left.
  Lengths are signed chars and are not checked, so the loop need not end; the result is None when it
  does not, else the maximum segment size.
\<close>

partial_function (option) tcp_opt_loop ::
    "(nat \<Rightarrow> byte) \<Rightarrow> bool \<Rightarrow> int \<Rightarrow> int \<Rightarrow> int \<Rightarrow> int \<Rightarrow> int option" where
  "tcp_opt_loop dat syn lim p i mss =
    (if i > 0 then
       (let k = dat (nat p) in
        if k = 0 then Some mss
        else if k = 1 then tcp_opt_loop dat syn lim (p + 1) (i - 1) mss
        else
          (let v = uint (ntohs (word_of_nat (unat (dat (nat (p + 2))) + 256 * unat (dat (nat (p + 3))))));
               mss' = (if k = 2 \<and> syn then sshort (min lim v) else mss);
               l = sint (dat (nat (p + 1))) in
           tcp_opt_loop dat syn lim (p + l) (i - l) mss'))
     else Some mss)"

text \<open>\<open>hdr\<close> is the offset of the th header in its buffer \<open>m\<close>.\<close>

definition tcp_opt :: "nat \<Rightarrow> th \<Rightarrow> mbuf \<Rightarrow> nat \<Rightarrow> nat \<Rightarrow> net \<Rightarrow> net option" where
  "tcp_opt tp t m hdr hlen net =
    (let tc = tcbs net tp;
         lim = if_mtu (ifs net (the (uc_srcif (ucbs net (t_ucb tc))))) - TCPIPMAX in
     map_option (\<lambda>mss. upd_tcb tp (\<lambda>t. t\<lparr>t_maxseg := mss\<rparr>) net)
       (tcp_opt_loop (m_dat m) (has (t_flags t) T_SYN \<and> \<not> syn_rcvd tc) lim
          (int hdr + 40) (int hlen - int TCPSIZE) (t_maxseg tc)))"

end
