(* ===== verification/Tcp_Procs.thy ===== *)
theory Tcp_Procs
  imports Tcp_Prim
begin

text \<open>
  tcp_procs.c: the procedures that do the work of the protocol.  A received segment is a value;
  the procedures that change its header (rcv_text trims it) return it, since their callers go on
  reading it.
\<close>

section \<open>t_open and t_close\<close>

definition t_open :: "nat \<Rightarrow> bool \<Rightarrow> net \<Rightarrow> net" where
  "t_open tp active net =
    (let u = t_ucb (tcbs net tp); up = ucbs net u;
         mtu = if_mtu (ifs net (the (uc_srcif up)));
         net = net\<lparr>n_tcbs := tp # n_tcbs net\<rparr>;
         i = n_iss net;
         net = upd_tcb tp (\<lambda>t. t\<lparr>t_rcv := [], t_xmtime := T_REXMT,
                 t_maxseg := min (mtu - TCPIPMAX) TCPMAXSND,
                 snd_end := i, seq_fin := i, snd_nxt := i, snd_hi := i, snd_una := i, iss := i\<rparr>) net;
         net = net\<lparr>n_iss := n_iss net + (64 + 1)\<rparr>;
         tmo = uc_ssize up;
         net = upd_tcb tp (set_timer TINIT (if tmo \<noteq> 0 then tmo else if active then T_INIT else 0)) net in
     upd_ucb u (uc_ssize_update (\<lambda>_. 0)) net)"

text \<open>The segments still held, each a chain, are freed one by one.\<close>

fun freem_segs :: "th list \<Rightarrow> net \<Rightarrow> net" where
  "freem_segs [] net = net"
| "freem_segs (t # ts) net = freem_segs ts (freem (t_m t) net)"

definition void_work :: "nat \<Rightarrow> work \<Rightarrow> work" where
  "void_work tp w = (if w_tcb w = tp then w\<lparr>w_type := INOP\<rparr> else w)"

definition t_close :: "nat \<Rightarrow> u16 \<Rightarrow> net \<Rightarrow> net" where
  "t_close tp state net =
    (let u = t_ucb (tcbs net tp);
         net = upd_tcb tp (\<lambda>t. t\<lparr>t_timers := (\<lambda>i. if TINIT \<le> i \<and> i \<le> TFINACK then 0 else t_timers t i)\<rparr>) net;
         net = net\<lparr>n_work := map (void_work tp) (n_work net)\<rparr>;
         net = net\<lparr>n_tcbs := filter (\<lambda>x. x \<noteq> tp) (n_tcbs net)\<rparr>;
         net = freem_segs (t_rcv (tcbs net tp)) net;
         net = upd_ucb u (uc_rbuf_update (\<lambda>_. [])) (freem (uc_rbuf (ucbs net u)) net);
         net = upd_ucb u (uc_sbuf_update (\<lambda>_. [])) (freem (uc_sbuf (ucbs net u)) net);
         net = freem_segs (t_rcv_unack (tcbs net tp)) net;
         net = upd_tcb tp (t_rcv_unack_update (\<lambda>_. [])) net;
         net = snd (m_free [blk tp net] net);
         net = upd_ucb u (uc_tcb_update (\<lambda>_. None)) net;
         lo = n_lowat (pool net) - (int (uc_snd (ucbs net u)) + int (uc_rcv (ucbs net u)) + 2);
         net = net\<lparr>pool := (pool net)\<lparr>n_lowat := lo, n_hiwat := lo * 3 div 2\<rparr>\<rparr>;
         net = (case uc_route (ucbs net u) of
                  None \<Rightarrow> net
                | Some h \<Rightarrow> upd_ucb u (uc_route_update (\<lambda>_. None)) (h_free h net)) in
     if usr_abort (tcbs net tp) then
       (let net = (if has (uc_flags (ucbs net u)) UCWAIT then wakeup (W_tcb tp) net else net);
            net = upd_ucb u (uc_proc_update (\<lambda>_. None)) net;
            net = net\<lparr>n_ucbs := filter (\<lambda>x. x \<noteq> u) (n_ucbs net)\<rparr> in
        snd (m_free [blk u net] net))
     else to_user u state net)"

section \<open>send_tcp\<close>

text \<open>
  The first half of send_tcp decides what to send and touches only the control block: the new
  block, the header flags, the range of the send buffer to copy, and whether a byte is forced
  through a closed window.  (The comment that opens before the silly window test has no end
  before the persist timer, so that test is not part of the program.)
\<close>

definition snd_last :: "tcb \<Rightarrow> mbuf list \<Rightarrow> seq" where
  "snd_last tp sbuf =
    (if syn_acked tp then snd_una tp else snd_una tp + 1) + word_of_nat (chain_len sbuf)"

definition fin_due :: "tcb \<Rightarrow> bool" where
  "fin_due tp \<longleftrightarrow> snd_fin tp \<and> (SEQ_EQ (seq_fin tp) (iss tp) \<or> SEQ_LEQ (snd_nxt tp) (seq_fin tp))"

definition take_fin :: "tcb \<times> byte \<Rightarrow> tcb \<times> byte" where
  "take_fin tf = (let (tp, fl) = tf in
     (tp\<lparr>seq_fin := snd_lst tp, snd_lst := snd_lst tp + 1\<rparr>, fl OR T_FIN))"

definition send_plan :: "tcb \<Rightarrow> mbuf list \<Rightarrow> tcb \<times> byte \<times> (seq \<times> seq) option \<times> bool" where
  "send_plan tp sbuf =
    (let tp = tp\<lparr>snd_lst := snd_nxt tp\<rparr>;
         (tp, fl) = (if SEQ_EQ (snd_nxt tp) (iss tp) then (tp\<lparr>snd_lst := snd_lst tp + 1\<rparr>, T_SYN)
                     else (tp, 0));
         last = snd_last tp sbuf in
     if SEQ_GEQ (snd_nxt tp) last then
       (let (tp, fl) = (if fin_due tp then take_fin (tp, fl) else (tp, fl)) in
        (tp, fl, None, False))
     else if syn_acked tp then
       (let wind = snd_una tp + word_of_int (snd_wnd tp);
            tp = tp\<lparr>snd_lst := SEQ_MIN last wind\<rparr>;
            len = sint (snd_lst tp - snd_nxt tp);
            tp = (if len > t_maxseg tp
                  then tp\<lparr>snd_lst := snd_lst tp - word_of_int (len - t_maxseg tp)\<rparr> else tp);
            fl = (if SEQ_GT (snd_end tp) (iss tp) \<and> SEQ_LEQ (snd_end tp) (snd_lst tp)
                  then fl OR T_PUSH else fl);
            tp = (if SEQ_GEQ (snd_lst tp) wind then set_timer TPERSIST T_PERS tp else tp);
            forced = (force_one tp \<and> SEQ_EQ (snd_lst tp) wind);
            tp = (if forced then tp\<lparr>snd_lst := snd_nxt tp + 1\<rparr> else tp);
            copy = (SEQ_MAX (iss tp + 1) (snd_nxt tp), snd_lst tp);
            (tp, fl) = (if \<not> forced \<and> SEQ_EQ (snd_lst tp) last \<and> fin_due tp
                        then take_fin (tp, fl) else (tp, fl)) in
        (tp, fl, Some copy, forced))
     else (tp, fl, None, False))"

text \<open>The timers and sequence numbers after the call of send_pkt.\<close>

definition send_done :: "bool \<Rightarrow> bool \<Rightarrow> tcb \<Rightarrow> tcb" where
  "send_done forced sent tp =
    (let tp = (if \<not> forced then
                 (let tp = set_timer TREXMT (t_xmtime tp) tp;
                      tp = tp\<lparr>t_rexmt_val := snd_lst tp\<rparr> in
                  if \<not> rexmt tp then (set_timer TREXMTTL T_REXMTTL tp)\<lparr>t_rtl_val := snd_lst tp\<rparr>
                  else tp)
               else tp);
         tp = (if sent then tp\<lparr>snd_nxt := snd_lst tp\<rparr> else tp);
         tp = (if syn_acked tp \<and> SEQ_GT (snd_una tp) (t_xmt_val tp)
               then (set_timer TXMT 0 tp)\<lparr>t_xmt_val := snd_lst tp\<rparr> else tp) in
     tp\<lparr>ack_due := False, snd_hi := SEQ_MAX (snd_nxt tp) (snd_hi tp), rexmt := False, force_one := False\<rparr>)"

definition send_ctl :: "nat \<Rightarrow> bool \<Rightarrow> net \<Rightarrow> bool \<times> net" where
  "send_ctl tp ctl net =
    (if ctl then
       (let (_, net) = send_pkt tp 0 0 [] net in
        (False, upd_tcb tp (ack_due_update (\<lambda>_. False)) net))
     else (False, net))"

definition send_tcp :: "nat \<Rightarrow> bool \<Rightarrow> net \<Rightarrow> bool \<times> net" where
  "send_tcp tp ctl net =
    (let t = tcbs net tp; sbuf = uc_sbuf (ucbs net (t_ucb t));
         (t', fl, copy, forced) = send_plan t sbuf;
         net = upd_tcb tp (\<lambda>_. t') net;
         (m, net) = (case copy of None \<Rightarrow> ([], net)
                     | Some (start, end) \<Rightarrow> snd_copy t' sbuf start end net) in
     if SEQ_LT (snd_nxt t') (snd_lst t') then
       (let (sent, net) = send_pkt tp fl (sint (snd_lst t' - snd_nxt t')) m net;
            net = upd_tcb tp (send_done forced sent) net in
        if sent then (True, net) else send_ctl tp ctl net)
     else send_ctl tp ctl net)"

section \<open>Acknowledgements\<close>

text \<open>The removal of acknowledged bytes: what is left of the send buffer and how many buffers were
  freed.\<close>

fun ack_chain :: "int \<Rightarrow> mbuf list \<Rightarrow> net \<Rightarrow> mbuf list \<times> nat \<times> net" where
  "ack_chain len [] net = ([], 0, net)"
| "ack_chain len (m # ms) net =
    (if len > 0 then
       (if int (m_len m) \<le> len then
          (let (_, net) = m_free [m] net;
               (ms', k, net) = ack_chain (len - int (m_len m)) ms net in (ms', Suc k, net))
        else (m\<lparr>m_len := uchar (int (m_len m) - len), m_off := uchar (int (m_off m) + len)\<rparr> # ms, 0, net))
     else (m # ms, 0, net))"

definition rcv_ack :: "nat \<Rightarrow> th \<Rightarrow> net \<Rightarrow> net" where
  "rcv_ack tp n net =
    (let t = tcbs net tp; u = t_ucb t;
         len = sint (t_ackno n - snd_una t);
         t = t\<lparr>snd_una := t_ackno n\<rparr>;
         t = (if SEQ_GT (snd_una t) (snd_nxt t) then t\<lparr>snd_nxt := snd_una t\<rparr> else t);
         t = (if syn_acked t \<and> SEQ_GT (snd_una t) (t_xmt_val t)
              then t\<lparr>t_xmtime := min T_REMAX (max T_REXMT (t_timers t TXMT))\<rparr> else t);
         net = upd_tcb tp (\<lambda>_. t) net;
         (len, net) =
           (if \<not> syn_acked t \<and> SEQ_GT (snd_una t) (iss t)
            then (len - 1, t_cancel tp TINIT (upd_tcb tp (syn_acked_update (\<lambda>_. True)) net))
            else (len, net));
         (m, k, net) = ack_chain len (uc_sbuf (ucbs net u)) net;
         net = upd_ucb u (\<lambda>up. up\<lparr>uc_sbuf := m, uc_ssize := uchar (int (uc_ssize up) - int k)\<rparr>) net;
         net = wakeup (W_ucb u) net;
         net = (if SEQ_NEQ (seq_fin t) (iss t) \<and> SEQ_GT (snd_una t) (seq_fin t)
                then upd_tcb tp (snd_fin_update (\<lambda>_. False)) net else net);
         net = t_cancel tp TREXMT net;
         net = t_cancel tp TREXMTTL net in
     upd_tcb tp (cancelled_update (\<lambda>_. True)) net)"

section \<open>Sequencing\<close>

text \<open>Trimming a segment at its front and at its end.\<close>

definition th_front :: "int \<Rightarrow> th \<Rightarrow> th" where
  "th_front i t = t\<lparr>t_seq := t_seq t + word_of_int i, t_len := ushort (int (t_len t) - i),
                    t_m := m_adj (t_m t) i\<rparr>"

definition th_back :: "int \<Rightarrow> th \<Rightarrow> th" where
  "th_back i t = t\<lparr>t_len := ushort (int (t_len t) - i), t_m := m_adj (t_m t) (- i)\<rparr>"

text \<open>
  The merge of a segment into the sequencing queue.  \<open>seq_succ\<close> is the loop over the
  successors: the segment, the successors left, and those to be freed.  \<open>seq_merge\<close> returns
  the queue, the segment, the chains to be freed, and whether the segment is on the queue.
\<close>

fun seq_succ :: "seq \<Rightarrow> th \<Rightarrow> th list \<Rightarrow> th \<times> th list \<times> th list" where
  "seq_succ lst t [] = (t, [], [])"
| "seq_succ lst t (q # qs) =
    (if t_len t \<noteq> 0 \<and> SEQ_LT (t_seq q) lst then
       (if SEQ_LEQ (t_end q) lst then
          (let (t, qs, dead) = seq_succ lst t qs in (t, qs, q # dead))
        else
          (let i = sint (lst - t_seq q + 1) in
           (if i < int (t_len t) then th_back i t else t\<lparr>t_len := 0\<rparr>, q # qs, [])))
     else (t, q # qs, []))"

definition seq_merge :: "seq \<Rightarrow> seq \<Rightarrow> th \<Rightarrow> th list \<Rightarrow> th list \<times> th \<times> th list \<times> bool" where
  "seq_merge nxt lst t queue =
    (let pre = takeWhile (\<lambda>q. SEQ_GT (t_seq t) (t_end q)) queue in
     case dropWhile (\<lambda>q. SEQ_GT (t_seq t) (t_end q)) queue of
       [] \<Rightarrow> if SEQ_GEQ lst nxt then (pre @ [t], t, [], True) else (pre, t, [], False)
     | q # post \<Rightarrow>
         if SEQ_LT lst (t_seq q) then (pre @ t # q # post, t, [], True)
         else if SEQ_LT lst (t_end q) then
           (let i = sint (lst - t_seq q + 1) in
            if i < int (t_len t)
            then (let t = th_back i t in (pre @ t # q # post, t, [], True))
            else (queue, t, [], False))
         else
           (let (t, pre, dead) =
              (if SEQ_LEQ (t_seq t) (t_seq q) then (t, pre, [q])
               else
                 (let i = sint (t_end q - t_seq t + 1) in
                  (if i < int (t_len t) then th_front i t else t\<lparr>t_len := 0\<rparr>, pre @ [q], [])));
              (t, post, dead') = seq_succ lst t post in
            if t_len t \<noteq> 0 then (pre @ t # post, t, dead @ dead', True)
            else (pre @ post, t, dead @ dead', False)))"

text \<open>Taking whole segments off the end of the queue until \<open>i\<close> reaches \<open>j\<close>.\<close>

fun rob_tail :: "int \<Rightarrow> int \<Rightarrow> th list \<Rightarrow> net \<Rightarrow> int \<times> th list \<times> net" where
  "rob_tail i j [] net = (i, [], net)"
| "rob_tail i j (p # rq) net =
    (if i < j then (let (k, net) = m_freem (t_m p) net in rob_tail (i + int k) j rq net)
     else (i, p # rq, net))"

text \<open>Dropping the text of the segment that lies beyond the first \<open>i\<close> buffers.\<close>

fun drop_text :: "int \<Rightarrow> mbuf list \<Rightarrow> mbuf list" where
  "drop_text i [] = []"
| "drop_text i (m # ms) =
    (if i > 0 then m # drop_text (i - 1) ms else m\<lparr>m_len := 0\<rparr> # drop_text i ms)"

text \<open>Work requests for the messages that were set aside while buffers were short.\<close>

fun recycle :: "nat \<Rightarrow> int \<Rightarrow> th list \<Rightarrow> net \<Rightarrow> net" where
  "recycle tp i [] net = net"
| "recycle tp i (t # ts) net =
    (let j = 4 * t_off t + IPSIZE;
         t' = t\<lparr>t_m := upd_hd (pull_hdr j) (t_m t)\<rparr>;
         net = upd_tcb tp (t_rcv_unack_update (\<lambda>_. ts)) net;
         net = stat (\<lambda>s. s\<lparr>t_unack := t_unack s + 1\<rparr>) net;
         net = w_alloc INRECV 0 tp (SegDat t') net;
         i = i - int (length (t_m t)) in
     if i > 0 then recycle tp i ts net else net)"

text \<open>The part of rcv_text that makes room: None when nothing of the segment is left.\<close>

definition text_room :: "nat \<Rightarrow> th \<Rightarrow> net \<Rightarrow> th \<times> seq \<times> bool \<times> net" where
  "text_room tp t net =
    (let tc = tcbs net tp; up = ucbs net (t_ucb tc);
         last = t_end t;
         i = max 0 (int (uc_rcv up) - int (uc_rsize up));
         j = int (length (filter (\<lambda>m. m_len m \<noteq> 0) (t_m t))) in
     if j > i \<and> n_bufs (pool net) < n_lowat (pool net) then
       (let (i, net) =
          (case t_rcv tc of
             q # _ \<Rightarrow>
               if SEQ_LT (rcv_nxt tc) (t_seq q) \<and> SEQ_LT (t_seq t) (t_seq q) then
                 (let (i, rq, net) = rob_tail i j (rev (t_rcv tc)) net in
                  (i, upd_tcb tp (t_rcv_update (\<lambda>_. rev rq)) net))
               else (i, net)
           | [] \<Rightarrow> (i, net)) in
        if j > i then
          (let lost = chain_len (drop (nat i) (t_m t));
               t = t\<lparr>t_len := ushort (int (t_len t) - int lost), t_m := drop_text i (t_m t)\<rparr>;
               last = last - word_of_nat lost;
               net = upd_tcb tp (dropped_txt_update (\<lambda>_. True)) net in
           (t, last, \<not> SEQ_LT last (t_seq t), net))
        else (t, last, True, net))
     else (t, last, True, net))"

definition rcv_text :: "nat \<Rightarrow> th \<Rightarrow> net \<Rightarrow> th \<times> net" where
  "rcv_text tp t net =
    (let i = sint (rcv_nxt (tcbs net tp) - t_seq t) in
     if i > 0 \<and> \<not> i < int (t_len t) then (t, upd_tcb tp (ack_due_update (\<lambda>_. True)) net)
     else
       (let t = (if i > 0 then th_front i t else t);
            (t, last, ok, net) = text_room tp t net in
        if \<not> ok then (t, net)
        else
          (let tc = tcbs net tp; u = t_ucb tc;
               (queue, t, dead, keep) = seq_merge (rcv_nxt tc) last t (t_rcv tc);
               net = upd_tcb tp (\<lambda>c. c\<lparr>t_rcv := queue, net_keep := (net_keep c \<or> keep)\<rparr>) net;
               net = freem_segs dead net;
               net = upd_tcb tp (\<lambda>c. c\<lparr>rcv_nxt := firstempty c, ack_due := True\<rparr>) net;
               room = int (uc_rcv (ucbs net u)) - int (uc_rsize (ucbs net u)) in
           (t, if t_rcv_unack (tcbs net tp) \<noteq> [] \<and> room > 0 \<and> n_bufs (pool net) > n_lowat (pool net)
               then recycle tp room (t_rcv_unack (tcbs net tp)) net else net))))"

section \<open>rcv_tcp\<close>

definition mark_last :: "mbuf list \<Rightarrow> mbuf list" where
  "mark_last ms = (if ms = [] then [] else
     butlast ms @ [(last ms)\<lparr>m_act := nat (int (m_off (last ms)) + int (m_len (last ms)) - 1)\<rparr>])"

text \<open>SYN, acknowledgement and window.\<close>

definition rcv_ctl :: "nat \<Rightarrow> th \<Rightarrow> net \<Rightarrow> net" where
  "rcv_ctl tp n net =
    (let net = upd_tcb tp (\<lambda>t. t\<lparr>dropped_txt := False, ack_due := False, new_window := False\<rparr>) net;
         net = (if \<not> syn_rcvd (tcbs net tp) \<and> has (t_flags n) T_SYN
                then upd_tcb tp (\<lambda>t. t\<lparr>irs := t_seq n, rcv_nxt := t_seq n + 1, snd_wl := t_seq n,
                       rcv_urp := t_seq n, syn_rcvd := True, ack_due := True\<rparr>) net else net);
         net = (if has (t_flags n) T_ACK \<and> syn_rcvd (tcbs net tp)
                   \<and> SEQ_GT (t_ackno n) (snd_una (tcbs net tp))
                then rcv_ack tp n net else net) in
     if syn_rcvd (tcbs net tp) \<and> SEQ_GEQ (t_seq n) (snd_wl (tcbs net tp))
     then t_cancel tp TPERSIST
            (upd_tcb tp (\<lambda>t. t\<lparr>snd_wl := t_seq n, snd_wnd := sshort (uint (t_win n)), new_window := True\<rparr>) net)
     else net)"

text \<open>Data, urgent pointer and PUSH.\<close>

definition rcv_data :: "nat \<Rightarrow> th \<Rightarrow> net \<Rightarrow> th \<times> net" where
  "rcv_data tp n net =
    (let (n, net) = (if t_len n \<noteq> 0 then rcv_text tp n net else (n, net));
         net = (if has (t_flags n) T_URG then
                  (let last = ucast (t_urp n) + t_seq n in
                   if SEQ_LT (rcv_nxt (tcbs net tp)) last then
                     (let net = (if SEQ_LEQ (rcv_urp (tcbs net tp)) (rcv_nxt (tcbs net tp))
                                 then to_user (t_ucb (tcbs net tp)) UURGENT net else net) in
                      upd_tcb tp (rcv_urp_update (\<lambda>_. last)) net)
                   else net)
                else net);
         net = (if has (t_flags n) T_PUSH \<and> \<not> dropped_txt (tcbs net tp) \<and> t_rcv (tcbs net tp) \<noteq> []
                then upd_tcb tp (\<lambda>t. t\<lparr>t_rcv := butlast (t_rcv t) @
                       [(last (t_rcv t))\<lparr>t_m := mark_last (t_m (last (t_rcv t)))\<rparr>]\<rparr>) net
                else net) in
     (n, net))"

definition rcv_fin :: "nat \<Rightarrow> th \<Rightarrow> net \<Rightarrow> net" where
  "rcv_fin tp n net =
    (let t = tcbs net tp in
     if has (t_flags n) T_FIN \<and> \<not> dropped_txt t then
       (if fin_rcvd t then upd_tcb tp (ack_due_update (\<lambda>_. True)) net
        else
          (let last = firstempty t;
               prev_end = (if t_rcv t = [] then t_ovl_end t else t_end (List.last (t_rcv t)));
               net = (if (t_rcv t = [] \<and> SEQ_EQ last (t_end n + 1)) \<or> SEQ_EQ last prev_end
                      then wakeup (W_ucb (t_ucb t)) (upd_tcb tp (fin_rcvd_update (\<lambda>_. True)) net)
                      else net) in
           if fin_rcvd (tcbs net tp) \<and> SEQ_GEQ (rcv_nxt (tcbs net tp)) last
           then upd_tcb tp (\<lambda>t. t\<lparr>rcv_nxt := last + 1, ack_due := True\<rparr>) net else net))
     else net)"

definition rcv_tcp :: "nat \<Rightarrow> th \<Rightarrow> bool \<Rightarrow> net \<Rightarrow> th \<times> net" where
  "rcv_tcp tp n ctl net =
    (let net = rcv_ctl tp n net;
         (n, net) = (if \<not> ctl then rcv_data tp n net else (n, net));
         net = rcv_fin tp n net;
         (sent, net) =
           (if ack_due (tcbs net tp) then send_tcp tp True net
            else if new_window (tcbs net tp) then send_tcp tp False net
            else (False, net));
         t = tcbs net tp;
         net = (if \<not> sent \<and> SEQ_LT (snd_una t) (snd_nxt t) \<and> cancelled t
                then upd_tcb tp (\<lambda>t. (set_timer TREXMTTL T_REXMTTL (set_timer TREXMT (t_xmtime t) t))
                       \<lparr>t_rexmt_val := snd_lst t, t_rtl_val := snd_lst t, cancelled := False\<rparr>) net
                else net) in
     (n, net))"

section \<open>send_rst and present_data\<close>

definition send_rst :: "nat \<Rightarrow> th \<Rightarrow> net \<Rightarrow> net" where
  "send_rst tp n net =
    (if has (t_flags n) T_RST then net
     else
       (let u = t_ucb (tcbs net tp); up = ucbs net u; fport = t_fport (tcbs net tp);
            net = upd_tcb tp (\<lambda>t. t\<lparr>snd_rst := True,
                    snd_nxt := (if has (t_flags n) T_ACK then t_ackno n else snd_nxt t)\<rparr>) net;
            temp = (uc_local up = 0 \<or> uc_host up = 0 \<or> fport = 0);
            net = (if temp then
                     upd_tcb tp (t_fport_update (\<lambda>_. t_src n))
                       (upd_ucb u (\<lambda>up. up\<lparr>uc_local := t_d n, uc_host := t_s n\<rparr>) net)
                   else net);
            net = upd_tcb tp (syn_rcvd_update (\<lambda>_. False)) net;
            (_, net) = send_pkt tp 0 0 [] net;
            net = upd_tcb tp (\<lambda>t. t\<lparr>ack_due := False, snd_rst := False\<rparr>) net in
        if temp then
          (let net = upd_ucb u (\<lambda>v. v\<lparr>uc_local := uc_local up, uc_host := uc_host up\<rparr>) net;
               net = upd_tcb tp (\<lambda>t. t\<lparr>t_fport := fport, snd_nxt := iss t\<rparr>) net in
           case uc_route (ucbs net u) of
             None \<Rightarrow> net
           | Some h \<Rightarrow> upd_ucb u (uc_route_update (\<lambda>_. None)) (h_free h net))
        else net))"

text \<open>The count of the buffers of a segment; the empty ones are freed.\<close>

fun strip_null :: "mbuf list \<Rightarrow> net \<Rightarrow> mbuf list \<times> net" where
  "strip_null [] net = ([], net)"
| "strip_null (m # ms) net =
    (if m_len m = 0 then strip_null ms (snd (m_free [m] net))
     else (let (ms', net) = strip_null ms net in (m # ms', net)))"

fun present_loop :: "nat \<Rightarrow> seq \<Rightarrow> th list \<Rightarrow> net \<Rightarrow> th list \<times> net" where
  "present_loop u ready [] net = ([], net)"
| "present_loop u ready (t # ts) net =
    (if uc_rsize (ucbs net u) < uc_rcv (ucbs net u) \<and> SEQ_LT (t_end t) ready then
       (let (ms, net) = strip_null (t_m t) net;
            net = upd_ucb u (\<lambda>up. up\<lparr>uc_rbuf := uc_rbuf up @ ms,
                    uc_rsize := uchar (int (uc_rsize up) + int (length ms))\<rparr>) net in
        present_loop u ready ts net)
     else (t # ts, net))"

text \<open>The macro compares t_rcv_next with t_rcv_prev, which are equal when the queue is empty and
  also when exactly one segment is on it.\<close>

definition rcv_empty :: "tcb \<Rightarrow> ucb \<Rightarrow> bool" where
  "rcv_empty tp up \<longleftrightarrow> usr_abort tp \<or> (uc_rbuf up = [] \<and> length (t_rcv tp) \<le> 1)"

text \<open>The lock on the receive buffer is taken and given back within the routine; the model starts
  when the reader has given it up.\<close>

definition present_data :: "nat \<Rightarrow> net \<Rightarrow> net" where
  "present_data tp net =
    (let t = tcbs net tp; u = t_ucb t in
     if syn_acked t \<and> t_rcv t \<noteq> [] then
       (let (q, net) = present_loop u (firstempty t) (t_rcv t) net;
            net = upd_tcb tp (t_rcv_update (\<lambda>_. q)) net;
            net = upd_ucb u (\<lambda>up. up\<lparr>uc_flags := uc_flags up AND NOT ULOCK\<rparr>) net;
            net = wakeup (W_ucflags u) net;
            net = (if uc_rsize (ucbs net u) \<noteq> 0 then wakeup (W_ucb u) net else net);
            t = tcbs net tp in
        if fin_rcvd t \<and> \<not> usr_closed t \<and> rcv_empty t (ucbs net u)
        then to_user u UCLOSED net else net)
     else net)"

end
