(* ===== verification/Tcp_States.thy ===== *)
theory Tcp_States
  imports Tcp_Procs
begin

text \<open>
  tcp_states.c and fsmdef.h: the action routines of the TCP finite state machine, the
  preprocessing of a received segment, and the transition table.  An action routine is given the
  control block, the subtype and the data of a work entry and returns the new state (or SAME) and
  the data, since the header of a segment may have been trimmed.
\<close>

type_synonym action_result = "nat \<times> wdat \<times> net"

definition the_seg :: "wdat \<Rightarrow> th" where
  "the_seg d = (case d of SegDat n \<Rightarrow> n)"

text \<open>tcp.h: acceptable ACK, ACK of our FIN.\<close>

definition ack_ok :: "tcb \<Rightarrow> th \<Rightarrow> bool" where
  "ack_ok x y \<longleftrightarrow> SEQ_LT (iss x) (t_ackno y) \<and> SEQ_LEQ (t_ackno y) (snd_hi x)"

definition ack_fin :: "tcb \<Rightarrow> th \<Rightarrow> bool" where
  "ack_fin x y \<longleftrightarrow> SEQ_GT (seq_fin x) (iss x) \<and> SEQ_GT (t_ackno y) (seq_fin x)"

text \<open>The two assignments that start the FIN-ACK timer.\<close>

definition start_finack :: "nat \<Rightarrow> net \<Rightarrow> net" where
  "start_finack tp net = upd_tcb tp (\<lambda>t. (set_timer TFINACK T_2ML t)\<lparr>waited_2_ml := False\<rparr>) net"

section \<open>Requests of the user and of the network\<close>

definition lis_cls :: "nat \<Rightarrow> wdat \<Rightarrow> net \<Rightarrow> action_result" where
  "lis_cls tp d net = (LISTEN, d, t_open tp False net)"

definition sys_cls :: "nat \<Rightarrow> wdat \<Rightarrow> net \<Rightarrow> action_result" where
  "sys_cls tp d net = (SYN_SENT, d, snd (send_tcp tp True (t_open tp True net)))"

definition cls_opn :: "nat \<Rightarrow> wdat \<Rightarrow> net \<Rightarrow> action_result" where
  "cls_opn tp d net = (CLOSED, d, t_close tp UCLOSED net)"

definition cl2_clw :: "nat \<Rightarrow> wdat \<Rightarrow> net \<Rightarrow> action_result" where
  "cl2_clw tp d net =
    (let net = upd_tcb tp (snd_fin_update (\<lambda>_. True)) net;
         (_, net) = send_tcp tp True net in
     (CLOSING2, d, upd_tcb tp (usr_closed_update (\<lambda>_. True)) net))"

definition cls_rwt :: "nat \<Rightarrow> wdat \<Rightarrow> net \<Rightarrow> action_result" where
  "cls_rwt tp d net =
    (let net = present_data tp net; t = tcbs net tp in
     if rcv_empty t (ucbs net (t_ucb t)) then (CLOSED, d, t_close tp UCLOSED net)
     else (RCV_WAIT, d, net))"

definition fw1_syr :: "nat \<Rightarrow> wdat \<Rightarrow> net \<Rightarrow> action_result" where
  "fw1_syr tp d net =
    (let net = upd_tcb tp (snd_fin_update (\<lambda>_. True)) net;
         (_, net) = send_tcp tp True net in
     (FIN_W1, d, upd_tcb tp (usr_closed_update (\<lambda>_. True)) net))"

definition sss_syn :: "nat \<Rightarrow> wdat \<Rightarrow> net \<Rightarrow> action_result" where
  "sss_syn tp d net =
    (let (n, net) = rcv_tcp tp (the_seg d) False net in (SAME, SegDat n, present_data tp net))"

text \<open>sss_snd: the sequence number computed for PUSH and URG adds, for the old send buffer, the
  length of every buffer but the first and that of the last once more.\<close>

definition old_last :: "mbuf list \<Rightarrow> nat" where
  "old_last ms = (case ms of [] \<Rightarrow> 0 | m # rest \<Rightarrow> chain_len rest + m_len (last ms))"

fun consolidate :: "mbuf \<Rightarrow> nat \<Rightarrow> mbuf list \<Rightarrow> net \<Rightarrow> mbuf \<times> mbuf list \<times> nat \<times> net" where
  "consolidate m off [] net = (m, [], 0, net)"
| "consolidate m off (n # ns) net =
    (if int MSIZE - int off \<ge> int (m_len n) then
       (let m = (blit (m_dat n) (m_off n) off (m_len n) m)\<lparr>m_len := uchar (int (m_len m) + int (m_len n))\<rparr>;
            (_, net) = m_free [n] net;
            (m, ns, k, net) = consolidate m (off + m_len n) ns net in
        (m, ns, Suc k, net))
     else (m, n # ns, 0, net))"

text \<open>The old buffers take what fits behind the last of them; the rest of the new chain is linked
  on.  The number is that of the buffers of the new chain that were emptied and freed.\<close>

definition snd_append :: "mbuf list \<Rightarrow> mbuf list \<Rightarrow> net \<Rightarrow> mbuf list \<times> nat \<times> net" where
  "snd_append sbuf dat net =
    (if sbuf \<noteq> [] then
       (let m = last sbuf;
            (m, n, k, net) = consolidate m (m_off m + m_len m) dat net in
        (butlast sbuf @ [m] @ n, k, net))
     else (dat, 0, net))"

definition sss_snd :: "nat \<Rightarrow> wdat \<Rightarrow> net \<Rightarrow> action_result" where
  "sss_snd tp d net =
    (let u = t_ucb (tcbs net tp); dat = wdat_chain d; sbuf = uc_sbuf (ucbs net u);
         lst = snd_una (tcbs net tp) + word_of_nat (chain_len dat) + word_of_nat (old_last sbuf);
         net = upd_ucb u (\<lambda>up. up\<lparr>uc_ssize := uchar (int (uc_ssize up) + int (length dat))\<rparr>) net;
         (sb, k, net) = snd_append sbuf dat net;
         net = upd_ucb u (\<lambda>up. up\<lparr>uc_ssize := uchar (int (uc_ssize up) - int k), uc_sbuf := sb\<rparr>) net;
         fl = uc_flags (ucbs net u);
         net = (if has fl UEOL then upd_tcb tp (snd_end_update (\<lambda>_. lst)) net else net);
         net = (if has fl UURG then upd_tcb tp (\<lambda>t. t\<lparr>snd_urp := lst + 1, snd_urg := True\<rparr>) net else net) in
     (SAME, d, snd (send_tcp tp False net)))"

definition sss_rcv :: "nat \<Rightarrow> wdat \<Rightarrow> net \<Rightarrow> action_result" where
  "sss_rcv tp d net =
    (let net = present_data tp net in
     (SAME, d, if sent_zero (tcbs net tp) then snd (send_tcp tp True net) else net))"

definition cls_nsy :: "nat \<Rightarrow> wdat \<Rightarrow> net \<Rightarrow> action_result" where
  "cls_nsy tp d net = (CLOSED, d, t_close tp UABORT net)"

definition cls_syn :: "nat \<Rightarrow> wdat \<Rightarrow> net \<Rightarrow> action_result" where
  "cls_syn tp d net =
    (let net = upd_tcb tp (snd_rst_update (\<lambda>_. True)) net;
         (_, net) = send_pkt tp 0 0 [] net;
         net = upd_tcb tp (ack_due_update (\<lambda>_. False)) net in
     (CLOSED, d, t_close tp UABORT net))"

definition cls_act :: "nat \<Rightarrow> wdat \<Rightarrow> net \<Rightarrow> action_result" where
  "cls_act tp d net = (CLOSED, d, t_close tp UABORT net)"

definition cls_err :: "nat \<Rightarrow> wdat \<Rightarrow> net \<Rightarrow> action_result" where
  "cls_err tp d net = (SAME, d, to_user (t_ucb (tcbs net tp)) UCLSERR net)"

section \<open>Received segments\<close>

definition lis_netr :: "nat \<Rightarrow> wdat \<Rightarrow> net \<Rightarrow> action_result" where
  "lis_netr tp d net =
    (let n = the_seg d; u = t_ucb (tcbs net tp);
         net = upd_ucb u (\<lambda>up. up\<lparr>uc_host := t_s n, uc_local := t_d n\<rparr>) net;
         net = upd_tcb tp (t_fport_update (\<lambda>_. t_src n)) net;
         local = addr_1822 (t_d n) in
     case find (\<lambda>ip. if_addr (ifs net ip) = local \<and> if_avail (ifs net ip)) (n_ifcbs net) of
       None \<Rightarrow> (CLOSED, d, t_close tp UNRCH net)
     | Some ip \<Rightarrow>
         (let net = upd_ucb u (uc_srcif_update (\<lambda>_. Some ip)) net;
              net = upd_tcb tp (\<lambda>t. t\<lparr>t_maxseg := min (if_mtu (ifs net ip) - TCPIPMAX) (t_maxseg t)\<rparr>) net;
              (n, net) = rcv_tcp tp n False net in
          if \<not> fin_rcvd (tcbs net tp)
          then (L_SYN_RCVD, SegDat n, upd_tcb tp (set_timer TINIT (T_INIT div 2)) net)
          else (CLOSE_WAIT, SegDat n, start_finack tp net)))"

definition sys_netr :: "nat \<Rightarrow> wdat \<Rightarrow> net \<Rightarrow> action_result" where
  "sys_netr tp d net =
    (let (n, net) = rcv_tcp tp (the_seg d) False net; t = tcbs net tp in
     if fin_rcvd t then
       (CLOSE_WAIT, SegDat n,
        if has (t_flags n) T_ACK
        then (if SEQ_GT (t_ackno n) (iss t) then present_data tp net else net)
        else start_finack tp net)
     else if has (t_flags n) T_ACK then (ESTAB, SegDat n, present_data tp net)
     else (SYN_RCVD, SegDat n, net))"

definition cl1_netr :: "nat \<Rightarrow> wdat \<Rightarrow> net \<Rightarrow> action_result" where
  "cl1_netr tp d net =
    (let n = the_seg d; t = tcbs net tp in
     if ack_fin t n then
       (if has (t_flags n) T_FIN then
          (let (n, net) = rcv_tcp tp n True net in (TIME_WAIT, SegDat n, start_finack tp net))
        else if waited_2_ml t then
          (if rcv_empty t (ucbs net (t_ucb t)) then (CLOSED, d, t_close tp UCLOSED net)
           else (RCV_WAIT, d, net))
        else (TIME_WAIT, d, net))
     else if has (t_flags n) T_FIN then
       (let (n, net) = rcv_tcp tp n True net in (SAME, SegDat n, start_finack tp net))
     else
       (let (n, net) = rcv_tcp tp n False net in (SAME, SegDat n, present_data tp net)))"

definition cl2_netr :: "nat \<Rightarrow> wdat \<Rightarrow> net \<Rightarrow> action_result" where
  "cl2_netr tp d net =
    (let n = the_seg d; t = tcbs net tp in
     if ack_fin t n then
       (if rcv_empty t (ucbs net (t_ucb t)) then (CLOSED, d, t_close tp UCLOSED net)
        else (RCV_WAIT, d, net))
     else if has (t_flags n) T_FIN then (SAME, d, snd (send_tcp tp True net))
     else
       (let (n, net) = rcv_tcp tp n False net in (SAME, SegDat n, present_data tp net)))"

definition fw1_netr :: "nat \<Rightarrow> wdat \<Rightarrow> net \<Rightarrow> action_result" where
  "fw1_netr tp d net =
    (let (n, net) = rcv_tcp tp (the_seg d) False net;
         net = present_data tp net;
         (_, net) = send_tcp tp False net;
         t = tcbs net tp in
     if ack_fin t n then
       (if fin_rcvd t then (TIME_WAIT, SegDat n, start_finack tp net) else (FIN_W2, SegDat n, net))
     else if fin_rcvd t then (CLOSING1, SegDat n, start_finack tp net)
     else (SAME, SegDat n, net))"

definition syr_netr :: "nat \<Rightarrow> wdat \<Rightarrow> net \<Rightarrow> action_result" where
  "syr_netr tp d net =
    (let (n, net) = rcv_tcp tp (the_seg d) False net;
         net = present_data tp net in
     (if fin_rcvd (tcbs net tp) then CLOSE_WAIT else ESTAB, SegDat n, net))"

definition est_netr :: "nat \<Rightarrow> wdat \<Rightarrow> net \<Rightarrow> action_result" where
  "est_netr tp d net =
    (let (n, net) = rcv_tcp tp (the_seg d) False net;
         net = present_data tp net in
     (if fin_rcvd (tcbs net tp) then CLOSE_WAIT else SAME, SegDat n, net))"

definition fw2_netr :: "nat \<Rightarrow> wdat \<Rightarrow> net \<Rightarrow> action_result" where
  "fw2_netr tp d net =
    (let (n, net) = rcv_tcp tp (the_seg d) False net;
         net = present_data tp net in
     if fin_rcvd (tcbs net tp) then (TIME_WAIT, SegDat n, start_finack tp net)
     else (SAME, SegDat n, net))"

definition cwt_netr :: "nat \<Rightarrow> wdat \<Rightarrow> net \<Rightarrow> action_result" where
  "cwt_netr tp d net =
    (let n = the_seg d; t = tcbs net tp in
     if has (t_flags n) T_FIN then
       (if has (t_flags n) T_ACK \<and> SEQ_LEQ (t_ackno n) (seq_fin t) then
          (let (n, net) = rcv_tcp tp n True net in (SAME, SegDat n, start_finack tp net))
        else (SAME, d, snd (send_tcp tp True net)))
     else
       (let (n, net) = rcv_tcp tp n False net in (SAME, SegDat n, present_data tp net)))"

definition rwt_netr :: "nat \<Rightarrow> wdat \<Rightarrow> net \<Rightarrow> action_result" where
  "rwt_netr tp d net =
    (let n = the_seg d; t = tcbs net tp in
     if has (t_flags n) T_FIN \<and> has (t_flags n) T_ACK \<and> SEQ_LEQ (t_ackno n) (seq_fin t) then
       (let (n, net) = rcv_tcp tp n True net in (SAME, SegDat n, start_finack tp net))
     else (SAME, d, net))"

section \<open>Timers\<close>

definition timers :: "nat \<Rightarrow> nat \<Rightarrow> wdat \<Rightarrow> net \<Rightarrow> action_result" where
  "timers type tp d net =
    (let t = tcbs net tp in
     if type = TINIT then
       (if \<not> syn_acked t then (CLOSED, d, t_close tp UINTIMO net) else (SAME, d, net))
     else if type = TFINACK then
       (if t_state t = TIME_WAIT then
          (if rcv_empty t (ucbs net (t_ucb t)) then (CLOSED, d, t_close tp UCLOSED net)
           else (RCV_WAIT, d, net))
        else if t_state t = CLOSING1
        then (SAME, d, upd_tcb tp (waited_2_ml_update (\<lambda>_. True)) net)
        else (SAME, d, net))
     else if type = TREXMT then
       (if SEQ_GT (t_rexmt_val t) (snd_una t) then
          (let net = upd_tcb tp (\<lambda>t. t\<lparr>snd_nxt := snd_una t, rexmt := True,
                       t_rxtct := uchar (int (t_rxtct t) + 1),
                       t_xmtime := min T_REMAX (uchar (int (t_xmtime t) * 2))\<rparr>) net in
           (SAME, d, snd (send_tcp tp False net)))
        else (SAME, d, net))
     else if type = TREXMTTL then
       (let net = (if SEQ_GT (t_rtl_val t) (snd_una t) then to_user (t_ucb t) URXTIMO net else net) in
        if usr_closed t then (CLOSED, d, t_close tp URXTIMO net) else (SAME, d, net))
     else if type = TPERSIST then
       (SAME, d, snd (send_tcp tp False (upd_tcb tp (force_one_update (\<lambda>_. True)) net)))
     else (SAME, d, net))"

section \<open>Preprocessing of a segment\<close>

text \<open>0 accepts the segment, -1 drops it, any other result is the new state of the connection.\<close>

definition netprepr :: "nat \<Rightarrow> th \<Rightarrow> net \<Rightarrow> int \<times> net" where
  "netprepr tp n net =
    (let t = tcbs net tp; up = ucbs net (t_ucb t); fl = t_flags n in
     if t_state t = LISTEN then
       (if has fl T_RST then (-1, net)
        else if has fl T_ACK then (-1, send_rst tp n net)
        else if has fl T_SYN then (0, net)
        else (-1, net))
     else if t_state t = SYN_SENT then
       (if has fl T_ACK \<and> \<not> ack_ok t n then (-1, send_rst tp n net)
        else if has fl T_RST then
          (if has fl T_ACK then (int CLOSED, t_close tp URESET net) else (-1, net))
        else if has fl T_SYN then (0, net)
        else (-1, net))
     else if SEQ_LT (t_seq n) (rcv_nxt t)
          \<or> SEQ_GT (t_seq n) (rcv_nxt t + word_of_int (rcv_resource t up))
     then (-1, snd (send_tcp tp True net))
     else if has fl T_RST then
       (if t_state t = L_SYN_RCVD then
          (let net = t_cancel tp TPERSIST (t_cancel tp TREXMTTL (t_cancel tp TREXMT net));
               net = upd_ucb (t_ucb t) (uc_host_update (\<lambda>_. 0)) net in
           (int LISTEN,
            case uc_route (ucbs net (t_ucb t)) of
              None \<Rightarrow> net
            | Some h \<Rightarrow> upd_ucb (t_ucb t) (uc_route_update (\<lambda>_. None)) (h_free h net)))
        else (int CLOSED, t_close tp URESET net))
     else if has fl T_SYN then (int CLOSED, t_close tp URESET (send_rst tp n net))
     else if has fl T_ACK then
       (if \<not> ack_ok t n then
          (-1, if t_state t = SYN_RCVD \<or> t_state t = L_SYN_RCVD then send_rst tp n net else net)
        else (0, net))
     else (-1, net))"

section \<open>The transition table\<close>

definition fstab :: "nat list list" where
  "fstab =
    [[0, 1, 0, 4, 0, 24, 0, 0, 0, 24],
     [0, 0, 2, 0, 6, 9, 24, 24, 21, 23],
     [0, 0, 5, 0, 6, 9, 24, 24, 21, 23],
     [0, 0, 3, 0, 14, 9, 24, 24, 21, 23],
     [0, 0, 3, 0, 14, 9, 24, 24, 21, 23],
     [0, 0, 7, 0, 14, 9, 20, 19, 22, 23],
     [0, 0, 15, 0, 24, 9, 20, 25, 22, 23],
     [0, 0, 16, 0, 24, 9, 20, 24, 22, 23],
     [0, 0, 18, 0, 24, 9, 20, 25, 22, 23],
     [0, 0, 17, 0, 8, 9, 20, 19, 22, 23],
     [0, 0, 10, 0, 25, 9, 20, 25, 22, 23],
     [0, 0, 11, 0, 25, 9, 20, 25, 22, 23],
     [0, 0, 13, 0, 25, 9, 12, 25, 22, 23],
     [0, 1, 0, 4, 0, 24, 0, 0, 0, 24]]"

definition fsactab :: "nat \<Rightarrow> nat \<Rightarrow> nat \<Rightarrow> wdat \<Rightarrow> net \<Rightarrow> action_result" where
  "fsactab act stype tp d net =
    (if act = 1 then lis_cls tp d net
     else if act = 2 then lis_netr tp d net
     else if act = 3 then syr_netr tp d net
     else if act = 4 then sys_cls tp d net
     else if act = 5 then sys_netr tp d net
     else if act = 6 then cls_opn tp d net
     else if act = 7 then est_netr tp d net
     else if act = 8 then cl2_clw tp d net
     else if act = 9 then timers stype tp d net
     else if act = 10 then cl1_netr tp d net
     else if act = 11 then cl2_netr tp d net
     else if act = 12 then cls_rwt tp d net
     else if act = 13 then rwt_netr tp d net
     else if act = 14 then fw1_syr tp d net
     else if act = 15 then fw1_netr tp d net
     else if act = 16 then fw2_netr tp d net
     else if act = 17 then cwt_netr tp d net
     else if act = 18 then sss_syn tp d net
     else if act = 19 then sss_snd tp d net
     else if act = 20 then sss_rcv tp d net
     else if act = 21 then cls_nsy tp d net
     else if act = 22 then cls_syn tp d net
     else if act = 23 then cls_act tp d net
     else if act = 25 then cls_err tp d net
     else (SAME, d, net))"

end
