(* ===== verification/Tcp_Input.thy ===== *)
theory Tcp_Input
  imports Tcp_States
begin

text \<open>
  tcp_input.c: a datagram from IP is checked, matched with a connection and put into host order,
  and given to the finite state machine; then the work list is run.  Until a connection is found
  the header is read and written in place in the packet; \<open>th_of\<close> is the byte swap.
\<close>

section \<open>The finite state machine's entry\<close>

definition action :: "work \<Rightarrow> nat \<Rightarrow> net \<Rightarrow> net" where
  "action wp input net =
    (let tp = w_tcb wp; act = fstab ! t_state (tcbs net tp) ! input in
     if act = 0 then
       (let net = emit (Printf ''tcp: bad state'') net in
        if w_dat wp \<noteq> NoDat then freem (wdat_chain (w_dat wp)) net else net)
     else
       (let net = upd_tcb tp (net_keep_update (\<lambda>_. False)) net;
            (newstate, d, net) = fsactab act (w_stype wp) tp (w_dat wp) net;
            net = (if has (uc_flags (ucbs net (t_ucb (tcbs net tp)))) UDEBUG
                   then tcp_debug tp (w_stype wp) input (int newstate) net else net);
            net = (if newstate \<noteq> SAME then upd_tcb tp (t_state_update (\<lambda>_. newstate)) net else net) in
        if w_dat wp \<noteq> NoDat \<and> \<not> net_keep (tcbs net tp) \<and> input = INRECV
        then freem (wdat_chain d) net else net))"

section \<open>The work list\<close>

text \<open>The entry being worked on stays on the list until its action is done.  Only the recycling of
  set-aside messages adds entries meanwhile, one for each message.\<close>

fun work_loop :: "nat \<Rightarrow> net \<Rightarrow> net" where
  "work_loop fuel net =
    (case n_work net of
       [] \<Rightarrow> net
     | p # _ \<Rightarrow>
         (case fuel of
            0 \<Rightarrow> panic ''hang'' net
          | Suc fuel' \<Rightarrow>
              (let net = (if 0 < w_type p \<and> w_type p < INOP then action p (w_type p) net else net) in
               work_loop fuel' (net\<lparr>n_work := tl (n_work net)\<rparr>))))"

definition work_fuel :: "net \<Rightarrow> nat" where
  "work_fuel net =
    length (n_work net) + sum_list (map (\<lambda>tp. length (t_rcv_unack (tcbs net tp))) (n_tcbs net))"

definition run_work :: "net \<Rightarrow> net" where
  "run_work net = wakeup W_workfree (work_loop (work_fuel net) net)"

section \<open>Finding the connection\<close>

definition tcp_exact :: "net \<Rightarrow> addr \<Rightarrow> addr \<Rightarrow> u16 \<Rightarrow> u16 \<Rightarrow> nat \<Rightarrow> bool" where
  "tcp_exact net src dst lport fport t \<longleftrightarrow>
    (let tp = tcbs net t; up = ucbs net (t_ucb tp) in
     t_lport tp = lport \<and> t_fport tp = fport \<and> uc_host up = src \<and> uc_local up = dst)"

definition tcp_wild :: "net \<Rightarrow> addr \<Rightarrow> addr \<Rightarrow> u16 \<Rightarrow> u16 \<Rightarrow> nat \<Rightarrow> bool" where
  "tcp_wild net src dst lport fport t \<longleftrightarrow>
    (let tp = tcbs net t; up = ucbs net (t_ucb tp) in
     t_lport tp = lport \<and> (t_fport tp = fport \<or> t_fport tp = 0)
     \<and> (uc_host up = src \<or> uc_host up = 0) \<and> (uc_local up = dst \<or> uc_local up = 0))"

definition tcp_find :: "net \<Rightarrow> addr \<Rightarrow> addr \<Rightarrow> u16 \<Rightarrow> u16 \<Rightarrow> nat option" where
  "tcp_find net src dst lport fport =
    (case find (tcp_exact net src dst lport fport) (n_tcbs net) of
       Some t \<Rightarrow> Some t
     | None \<Rightarrow> find (tcp_wild net src dst lport fport) (n_tcbs net))"

section \<open>Input\<close>

definition th_of :: "mbuf list \<Rightarrow> nat \<Rightarrow> int \<Rightarrow> th" where
  "th_of mp p len =
    (let m = hd mp in
     \<lparr>t_s = rd32 m (p + 12), t_d = rd32 m (p + 16),
      t_src = ntohs (rd16 m (p + 20)), t_dst = ntohs (rd16 m (p + 22)),
      t_len = ushort len, t_seq = ntohl (rd32 m (p + 24)), t_ackno = ntohl (rd32 m (p + 28)),
      t_off = unat (rd8 m (p + 32)) div 16, t_flags = rd8 m (p + 33),
      t_win = ntohs (rd16 m (p + 34)), t_urp = ntohs (rd16 m (p + 38)), t_m = mp\<rparr>)"

text \<open>A segment for a connection: options, preprocessing, and the state machine or the queue of
  messages set aside.\<close>

definition tcp_deliver :: "nat \<Rightarrow> th \<Rightarrow> nat \<Rightarrow> nat \<Rightarrow> mbuf list \<Rightarrow> net \<Rightarrow> net" where
  "tcp_deliver t n p hlen mp net =
    (case (if hlen > TCPSIZE then tcp_opt t n (hd mp) p hlen net else Some net) of
       None \<Rightarrow> panic ''hang'' net
     | Some net \<Rightarrow>
         (let (i, net) = netprepr t n net in
          if i \<noteq> 0 then
            (let net = freem mp net in
             if i \<noteq> -1 then upd_tcb t (t_state_update (\<lambda>_. nat i)) net else net)
          else
            (let up = ucbs net (t_ucb (tcbs net t)) in
             if int (uc_rcv up) - int (uc_rsize up) \<le> 0 \<and> t_len n \<noteq> 0
                \<and> n_bufs (pool net) < n_lowat (pool net)
             then upd_tcb t (\<lambda>c. c\<lparr>t_rcv_unack := t_rcv_unack c @ [n]\<rparr>) net
             else
               (let n = n\<lparr>t_m := upd_hd (pull_hdr (hlen + IPSIZE)) mp\<rparr> in
                action \<lparr>w_type = INRECV, w_stype = 0, w_tcb = t, w_dat = SegDat n\<rparr> INRECV net))))"

text \<open>The reset formed from a packet that nobody wants.\<close>

definition rst_packet :: "nat \<Rightarrow> int \<Rightarrow> mbuf \<Rightarrow> mbuf" where
  "rst_packet p dlen m =
    (let m = m\<lparr>m_len := THSIZE\<rparr>; fl = rd8 m (p + 33); seq = rd32 m (p + 24);
         src = rd32 m (p + 12); dst = rd32 m (p + 16);
         m = wr32 (p + 12) dst (wr32 (p + 16) src m);
         sport = rd16 m (p + 20); dport = rd16 m (p + 22);
         m = wr16 (p + 20) dport (wr16 (p + 22) sport m);
         m = (if has fl T_ACK then wr32 (p + 24) (rd32 m (p + 28)) m
              else wr32 (p + 24) 0
                (wr32 (p + 28) (ntohl (ntohl seq + word_of_int dlen + (if has fl T_SYN then 1 else 0))) m));
         m = wr8 (p + 33) (if has fl T_ACK then T_RST else T_RST OR T_ACK) m;
         m = wr16 (p + 10) (ntohs (word_of_nat TCPSIZE)) m;
         m = wr8 (p + 32) ((rd8 m (p + 32) AND 0x0f) OR 0x50) m in
     wr16 (p + 36) (cksum [m] THSIZE) m)"

definition tcp_reject :: "nat \<Rightarrow> nat \<Rightarrow> int \<Rightarrow> mbuf list \<Rightarrow> net \<Rightarrow> net" where
  "tcp_reject ifp p dlen mp net =
    (let net = freem (tl mp) net;
         m = rst_packet p dlen (hd mp);
         (_, route, net) = ip_send ifp None [m] TCPROTO (int TCPSIZE) 0 [] 0 net;
         net = h_free_opt route net in
     stat (\<lambda>s. s\<lparr>t_badsegs := t_badsegs s + 1\<rparr>) net)"

text \<open>The segment part of tcp_input; the flag says that the work list is to be run.\<close>

definition tcp_segment :: "mbuf list \<Rightarrow> nat \<Rightarrow> net \<Rightarrow> bool \<times> net" where
  "tcp_segment mp ifp net =
    (let m = hd mp; p = m_off m; hlen = 4 * (unat (rd8 m (p + 32)) div 16) in
     if hlen > m_len m then (False, netlog mp (emit (Printf ''tcp header overflow'') net))
     else
       (let tlen = unat (rd16 m (p + 2));
            m = wr16 (p + 10) (ntohs (word_of_nat tlen)) m;
            m = wr32 p 0 m;
            m = wr32 (p + 4) 0 m;
            m = wr8 (p + 8) 0 m;
            lport = ntohs (rd16 m (p + 22));
            fport = ntohs (rd16 m (p + 20));
            i = rd16 m (p + 36);
            m = wr16 (p + 36) 0 m;
            mp = m # tl mp;
            bad = (i \<noteq> cksum mp (tlen + IPSIZE));
            net = (if bad then stat (\<lambda>s. s\<lparr>t_badsum := t_badsum s + 1\<rparr>) net else net) in
        if bad \<and> \<not> nosum net then (True, netlog mp net)
        else
          (case tcp_find net (rd32 m (p + 12)) (rd32 m (p + 16)) lport fport of
             Some t \<Rightarrow>
               (True, tcp_deliver t (th_of mp p (int tlen - int hlen)) p hlen mp net)
           | None \<Rightarrow>
               if has (rd8 m (p + 33)) T_RST then (False, freem mp net)
               else (True, tcp_reject ifp p (int tlen - int hlen) mp net))))"

definition tcp_input :: "mbuf list option \<Rightarrow> nat \<Rightarrow> net \<Rightarrow> net" where
  "tcp_input dgram ifp net =
    (let (go, net) = (case dgram of None \<Rightarrow> (True, net) | Some mp \<Rightarrow> tcp_segment mp ifp net) in
     if go then run_work net else net)"

end
