(* ===== verification/Raw_Input.thy ===== *)
theory Raw_Input
  imports Ip_Output
begin

text \<open>
  raw_input.c: delivery of messages to raw connections and the protocol entries that say who gets
  what.  An entry occupies a slot of a block (a buffer) of its connection and is linked into one
  chain: one of five built-in chains or a chain of the hash table protab.
\<close>

definition NPRMB :: nat where [net_simps]: "NPRMB = 14"
definition NPROTO :: int where [net_simps]: "NPROTO = 67"
definition ICMPROTO :: byte where [net_simps]: "ICMPROTO = 1"
definition GGPROTO :: byte where [net_simps]: "GGPROTO = 3"
definition UDPROTO :: byte where [net_simps]: "UDPROTO = 17"

text \<open>The hash of a protocol or link number that is not negative; for a negative one the C
  remainder indexes in front of the table, which the model does not follow.\<close>

definition prhash :: "int \<Rightarrow> nat" where
  "prhash x = nat (x mod NPROTO)"

section \<open>Delivery\<close>

definition raw_queue :: "mbuf list \<Rightarrow> nat \<Rightarrow> net \<Rightarrow> bool \<times> net" where
  "raw_queue mp up net =
    (let u = ucbs net up; count = length mp in
     if count + uc_rsize u \<le> uc_rcv u then
       (let mp = upd_hd (m_act_update (\<lambda>_. 0)) mp;
            net = upd_ucb up (\<lambda>u. u\<lparr>uc_rsize := uchar (int (uc_rsize u) + int count),
                    uc_rmsgs := uc_rmsgs u @ [mp], uc_flags := uc_flags u AND NOT ULOCK\<rparr>) net;
            net = wakeup (W_ucflags up) net in
        (True, wakeup (W_ucb up) net))
     else (False, freem mp (to_user up UDROP net)))"

definition raw_match :: "net \<Rightarrow> addr \<Rightarrow> addr \<Rightarrow> int \<Rightarrow> u16 \<Rightarrow> bool \<Rightarrow> proto \<Rightarrow> bool" where
  "raw_match net src dst link msk err p \<longleftrightarrow>
    (let u = ucbs net (pr_ucb p) in
     pr_num p = link \<and> has (uc_flags u) msk
     \<and> (uc_host u = 0 \<or> src = uc_host u) \<and> (uc_local u = 0 \<or> dst = uc_local u)
     \<and> (\<not> err \<or> has (uc_flags u) RAWERR))"

text \<open>The walk over the chain: the message left over ([] is NULL), whether it was copied, and
  whether the last one was queued.\<close>

fun raw_in_loop :: "addr \<Rightarrow> addr \<Rightarrow> int \<Rightarrow> u16 \<Rightarrow> bool \<Rightarrow> proto list \<Rightarrow> mbuf list \<Rightarrow> bool \<Rightarrow> bool \<Rightarrow> net
    \<Rightarrow> mbuf list \<times> bool \<times> bool \<times> net" where
  "raw_in_loop src dst link msk err [] mp copied queued net = (mp, copied, queued, net)"
| "raw_in_loop src dst link msk err (p # ps) mp copied queued net =
    (if raw_match net src dst link msk err p then
       (let (m, net) = (if ps \<noteq> [] then m_copy mp net else ([], net));
            copied = (ps \<noteq> [] \<and> m \<noteq> []);
            (queued, net) = (if mp \<noteq> [] then raw_queue mp (pr_ucb p) net
                             else (queued, to_user (pr_ucb p) UDROP net)) in
        raw_in_loop src dst link msk err ps m copied queued net)
     else raw_in_loop src dst link msk err ps mp copied queued net)"

definition raw_input :: "mbuf list \<Rightarrow> addr \<Rightarrow> addr \<Rightarrow> int \<Rightarrow> u16 \<Rightarrow> bool \<Rightarrow> net \<Rightarrow> net" where
  "raw_input mp src dst link msk err net =
    (let (mp, copied, queued, net) =
           raw_in_loop src dst link msk err (protab net (prhash link)) mp True False net;
         net = (if copied then freem mp net else net) in
     if queued then stat (\<lambda>s. s\<lparr>net_drops := net_drops s + 1\<rparr>) net else net)"

fun raw_disp :: "mbuf list \<Rightarrow> proto list \<Rightarrow> net \<Rightarrow> net" where
  "raw_disp m [] net = net"
| "raw_disp m (p # ps) net =
    (if m = [] then raw_disp [] ps (to_user (pr_ucb p) UDROP net)
     else
       (let (n, net) = (if ps \<noteq> [] then m_copy m net else ([], net));
            (_, net) = raw_queue m (pr_ucb p) net in
        raw_disp n ps net))"

section \<open>Protocol entries\<close>

datatype chain = Ch_tcp | Ch_ip | Ch_icmp | Ch_ggp | Ch_udp | Ch_tab nat

definition profind :: "nat \<Rightarrow> int \<Rightarrow> net \<Rightarrow> chain" where
  "profind up prnum net =
    (let u = ucbs net up; fl = uc_flags u in
     if prnum = uint TCPROTO \<and> has fl UIP then Ch_tcp
     else if prnum = if_link (ifs net (the (uc_srcif u))) \<and> has fl URAW then Ch_ip
     else if prnum = uint ICMPROTO \<and> has fl UIP then Ch_icmp
     else if prnum = uint GGPROTO \<and> has fl UIP then Ch_ggp
     else if prnum = uint UDPROTO \<and> has fl UIP then Ch_udp
     else Ch_tab (prhash prnum))"

fun get_chain :: "chain \<Rightarrow> net \<Rightarrow> proto list" where
  "get_chain Ch_tcp net = n_tcp_proto net"
| "get_chain Ch_ip net = n_ip_proto net"
| "get_chain Ch_icmp net = n_icmp_proto net"
| "get_chain Ch_ggp net = n_ggp_proto net"
| "get_chain Ch_udp net = n_udp_proto net"
| "get_chain (Ch_tab h) net = protab net h"

fun set_chain :: "chain \<Rightarrow> proto list \<Rightarrow> net \<Rightarrow> net" where
  "set_chain Ch_tcp ps net = net\<lparr>n_tcp_proto := ps\<rparr>"
| "set_chain Ch_ip ps net = net\<lparr>n_ip_proto := ps\<rparr>"
| "set_chain Ch_icmp ps net = net\<lparr>n_icmp_proto := ps\<rparr>"
| "set_chain Ch_ggp ps net = net\<lparr>n_ggp_proto := ps\<rparr>"
| "set_chain Ch_udp ps net = net\<lparr>n_udp_proto := ps\<rparr>"
| "set_chain (Ch_tab h) ps net = net\<lparr>protab := (protab net)(h := ps)\<rparr>"

definition upd_block :: "nat \<Rightarrow> (pblock \<Rightarrow> pblock) \<Rightarrow> ucb \<Rightarrow> ucb" where
  "upd_block k f u = u\<lparr>uc_proto := (uc_proto u)[k := f (uc_proto u ! k)]\<rparr>"

text \<open>Taking slot \<open>j\<close> of block \<open>b\<close> while \<open>k\<close> is the block whose count goes up.\<close>

definition use_slot :: "nat \<Rightarrow> int \<Rightarrow> nat \<Rightarrow> nat \<Rightarrow> nat \<Rightarrow> net \<Rightarrow> net" where
  "use_slot up prnum b j k net =
    (let net = upd_ucb up (upd_block b (\<lambda>pb. pb\<lparr>pb_slots := (pb_slots pb)[j := \<lparr>ps_num = prnum, ps_used = True\<rparr>]\<rparr>)) net;
         net = upd_ucb up (upd_block k (\<lambda>pb. pb\<lparr>pb_m := (pb_m pb)\<lparr>m_len := uchar (int (m_len (pb_m pb)) + 1)\<rparr>\<rparr>)) net;
         blkid = m_id (pb_m (uc_proto (ucbs net up) ! b));
         c = profind up prnum net in
     set_chain c (get_chain c net @ [\<lparr>pr_blk = blkid, pr_slot = j, pr_num = prnum, pr_ucb = up\<rparr>]) net)"

definition new_block :: "nat \<Rightarrow> mbuf \<Rightarrow> net \<Rightarrow> net" where
  "new_block up m net =
    upd_ucb up (\<lambda>u. u\<lparr>uc_proto := uc_proto u @
      [\<lparr>pb_m = m\<lparr>m_len := 0\<rparr>, pb_slots = replicate NPRMB \<lparr>ps_num = 0, ps_used = False\<rparr>\<rparr>]\<rparr>) net"

text \<open>
  The search goes for a block that is not full, but the free slot is looked for in the first block,
  through a pointer that is not reset: after a search that failed the block found is marked full
  and the next search starts where the first block ends.  \<open>fresh\<close> says that the pointer is
  still at the first slot; a second search, in the memory behind the first block, is a panic of the
  model.
\<close>

fun raw_add_loop :: "nat \<Rightarrow> nat \<Rightarrow> int \<Rightarrow> net \<Rightarrow> net" where
  "raw_add_loop fresh up prnum net =
    (let bs = uc_proto (ucbs net up) in
     case find_index (\<lambda>b. m_len (pb_m b) \<noteq> NPRMB) bs of
       None \<Rightarrow>
         (let (got, net) = m_get 1 net in
          if got = None then set_error ENETBUF net
          else use_slot up prnum (length bs) 0 (length bs) (new_block up (the got) net))
     | Some k \<Rightarrow>
         (case fresh of
            0 \<Rightarrow> panic ''raw_add: slot pointer behind its block'' net
          | Suc fresh' \<Rightarrow>
              (case find_index (\<lambda>s. \<not> ps_used s) (pb_slots (bs ! 0)) of
                 Some j \<Rightarrow> use_slot up prnum 0 j k net
               | None \<Rightarrow>
                   raw_add_loop fresh' up prnum
                     (upd_ucb up (upd_block k (\<lambda>pb. pb\<lparr>pb_m := (pb_m pb)\<lparr>m_len := NPRMB\<rparr>\<rparr>)) net))))"

definition raw_add :: "nat \<Rightarrow> int \<Rightarrow> net \<Rightarrow> net" where
  "raw_add up prnum net =
    (if \<exists>p\<in>set (get_chain (profind up prnum net) net). pr_num p = prnum \<and> pr_ucb p = up then net
     else raw_add_loop 1 up prnum net)"

text \<open>prodel: unlink an entry and free its slot.\<close>

definition prodel :: "nat \<Rightarrow> proto \<Rightarrow> net \<Rightarrow> net" where
  "prodel up p net =
    (let c = profind up (pr_num p) net;
         net = set_chain c (filter (\<lambda>q. \<not> (pr_blk q = pr_blk p \<and> pr_slot q = pr_slot p)) (get_chain c net)) net in
     case find_index (\<lambda>b. m_id (pb_m b) = pr_blk p) (uc_proto (ucbs net up)) of
       None \<Rightarrow> net
     | Some k \<Rightarrow>
         upd_ucb up (upd_block k (\<lambda>pb. pb\<lparr>
           pb_slots := (pb_slots pb)[pr_slot p := (pb_slots pb ! pr_slot p)\<lparr>ps_used := False\<rparr>],
           pb_m := (pb_m pb)\<lparr>m_len := (if m_len (pb_m pb) \<noteq> 0 then m_len (pb_m pb) - 1 else 0)\<rparr>\<rparr>)) net)"

definition raw_del :: "nat \<Rightarrow> int \<Rightarrow> net \<Rightarrow> net" where
  "raw_del up prnum net =
    (case find (\<lambda>p. pr_num p = prnum \<and> pr_ucb p = up) (get_chain (profind up prnum net) net) of
       None \<Rightarrow> set_error ENETRNG net
     | Some p \<Rightarrow> prodel up p net)"

text \<open>raw_stat: the numbers of the used slots, as many as fit (copyout is the caller's).\<close>

definition raw_stat :: "ucb \<Rightarrow> nat \<Rightarrow> int list" where
  "raw_stat u protlen =
    take ((protlen + 1) div 2)
      (map ps_num (filter ps_used (concat (map pb_slots (uc_proto u)))))"

text \<open>
  raw_free: every used slot of the first block is deleted, then the blocks are freed.  The pointer
  to the slots runs on behind the first block while the second one is looked at, into memory that
  is not its own: a connection with more than one block is a panic of the model.
\<close>

fun prodel_slots :: "nat \<Rightarrow> nat \<Rightarrow> nat \<Rightarrow> pslot list \<Rightarrow> net \<Rightarrow> net" where
  "prodel_slots up b j [] net = net"
| "prodel_slots up b j (s # ss) net =
    prodel_slots up b (Suc j) ss
      (if ps_used s then prodel up \<lparr>pr_blk = b, pr_slot = j, pr_num = ps_num s, pr_ucb = up\<rparr> net else net)"

definition raw_free :: "nat \<Rightarrow> net \<Rightarrow> net" where
  "raw_free up net =
    (case uc_proto (ucbs net up) of
       [] \<Rightarrow> net
     | b # bs \<Rightarrow>
         (let net = upd_ucb up (uc_proto_update (\<lambda>_. [])) net;
              net = prodel_slots up (m_id (pb_m b)) 0 (pb_slots b) net;
              net = snd (m_free [pb_m b] net) in
          if bs = [] then net else panic ''raw_free: slot pointer behind its block'' net))"

end
