(* ===== verification/Icmp.thy ===== *)
theory Icmp
  imports Raw_Input
begin

text \<open>
  icmp.c: ICMP and GGP messages.  The ip header is at offset \<open>p\<close> of the first buffer, the
  message behind it at \<open>p + 20\<close>: type 0, code 1, checksum 2, gateway address 4, the header of
  the original datagram 8 (GGP: 4, or 8 in a redirect).
\<close>

datatype icop = ICBAD | ICERR | ICDAT | ICINT

definition icaction :: "icop list" where
  "icaction = [ICDAT, ICBAD, ICBAD, ICERR, ICERR, ICERR, ICBAD, ICBAD, ICINT, ICBAD, ICBAD,
               ICERR, ICERR, ICINT, ICDAT, ICINT, ICDAT]"

text \<open>The connection that sent the datagram whose header is at offset \<open>h\<close>.\<close>

definition ic_match :: "net \<Rightarrow> mbuf \<Rightarrow> nat \<Rightarrow> nat \<Rightarrow> bool" where
  "ic_match net m h up \<longleftrightarrow>
    (let u = ucbs net up; src = ntohs (rd16 m (h + 20)); dst = ntohs (rd16 m (h + 22));
         pr = rd8 m (h + 9); ts = rd32 m (h + 12); td = rd32 m (h + 16) in
     if has (uc_flags u) UTCP then
       (case uc_tcb u of None \<Rightarrow> False
        | Some tp \<Rightarrow> t_lport (tcbs net tp) = src \<and> t_fport (tcbs net tp) = dst
            \<and> uc_host u = td \<and> uc_local u = ts \<and> pr = TCPROTO)
     else if has (uc_flags u) UIP then
       (uc_host u = td \<or> uc_host u = 0) \<and> (uc_local u = ts \<or> uc_local u = 0)
       \<and> uc_prnum u = Some (uint pr)
     else if has (uc_flags u) URAW then
       (uc_host u = td \<or> uc_host u = 0) \<and> (uc_local u = ts \<or> uc_local u = 0)
       \<and> uc_prnum u = Some (if_link (ifs net (the (uc_srcif u))))
     else False)"

definition icfind :: "mbuf \<Rightarrow> nat \<Rightarrow> net \<Rightarrow> nat option \<times> net" where
  "icfind m h net =
    (case find (ic_match net m h) (n_ucbs net) of
       Some up \<Rightarrow> (Some up, net)
     | None \<Rightarrow> (None, stat (\<lambda>s. s\<lparr>ic_drops := ic_drops s + 1\<rparr>) net))"

text \<open>Turning a packet around.\<close>

definition icsend :: "mbuf list \<Rightarrow> nat \<Rightarrow> nat \<Rightarrow> int \<Rightarrow> net \<Rightarrow> net" where
  "icsend mp ifp p ilen net =
    (let hlen = 4 * (unat (rd8 (hd mp) p) mod 16);
         ilen = ilen + int hlen;
         mp = upd_hd (wr16 (p + 2) (ntohs (word_of_int ilen))) mp;
         mp = upd_hd (wr16 (p + 6) 0) mp;
         mp = upd_hd (wr8 (p + 1) 0) mp;
         mp = upd_hd (wr16 (p + 10) 0) mp;
         mp = upd_hd (wr16 (p + 10) (cksum mp hlen)) mp in
     case ip_route (rd32 (hd mp) (p + 12)) (rd32 (hd mp) (p + 16)) net of
       Some (_, ap) \<Rightarrow> snd (if_send mp ifp ap ilen (if_link (ifs net ifp)) False net)
     | None \<Rightarrow> freem mp net)"

definition unrch_user :: "nat option \<Rightarrow> byte \<Rightarrow> net \<Rightarrow> net" where
  "unrch_user up code net =
    (case up of None \<Rightarrow> net
     | Some u \<Rightarrow> to_user u (if code = 1 then UDEAD else UNRCH)
                   (upd_ucb u (uc_xstat_update (\<lambda>_. ucast code)) net))"

definition redirect_user :: "nat option \<Rightarrow> addr \<Rightarrow> net \<Rightarrow> net" where
  "redirect_user up gw net =
    (case up of None \<Rightarrow> net
     | Some u \<Rightarrow>
         (let net = h_free_opt (uc_route (ucbs net u)) net;
              (r, net) = h_make gw False net;
              net = upd_ucb u (uc_route_update (\<lambda>_. r)) net in
          stat (\<lambda>s. s\<lparr>ic_redirects := ic_redirects s + 1\<rparr>) net))"

definition swap_addrs :: "nat \<Rightarrow> mbuf \<Rightarrow> mbuf" where
  "swap_addrs p m = wr32 (p + 16) (rd32 m (p + 12)) (wr32 (p + 12) (rd32 m (p + 16)) m)"

text \<open>The reply: checksum of the message, then the ip header put back in front.\<close>

definition ic_reply :: "mbuf list \<Rightarrow> nat \<Rightarrow> nat \<Rightarrow> nat \<Rightarrow> net \<Rightarrow> net" where
  "ic_reply mp ifp p ilen net =
    (let mp = upd_hd (wr16 (p + 22) (cksum mp ilen)) mp;
         mp = upd_hd (push_hdr IPSIZE) mp in
     icsend mp ifp p (int ilen) net)"

text \<open>
  The connection is looked up for error messages only; for the data format types the code goes on
  with a variable that was never set, whose value cannot matter to a message of that format.  A timestamp or information request with a code
  other than 0 is neither answered nor freed.
\<close>

definition icmp :: "mbuf list \<Rightarrow> nat \<Rightarrow> net \<Rightarrow> net" where
  "icmp mp ifp net =
    (let now = n_time net; p = m_off (hd mp); c = p + IPSIZE;
         mp = upd_hd (pull_hdr IPSIZE) mp;
         ilen = unat (rd16 (hd mp) (p + 2));
         i = rd16 (hd mp) (c + 2);
         mp = upd_hd (wr16 (c + 2) 0) mp;
         bad = (i \<noteq> cksum mp ilen);
         net = (if bad then stat (\<lambda>s. s\<lparr>ic_badsum := ic_badsum s + 1\<rparr>) net else net) in
     if bad \<and> \<not> nosum net then netlog mp net
     else
       (let ty = rd8 (hd mp) c; code = rd8 (hd mp) (c + 1);
            op = (if unat ty < 17 then icaction ! unat ty else ICBAD) in
        if op = ICBAD then netlog mp (stat (\<lambda>s. s\<lparr>ic_drops := ic_drops s + 1\<rparr>) net)
        else
          (let (up, net) = (if op = ICERR then icfind (hd mp) (c + 8) net else (n_junk_up net, net));
               finish = (\<lambda>net.
                 (if up \<noteq> None \<and> has (uc_flags (ucbs net (the up))) (UIP + URAW) \<and> op = ICERR
                     \<and> has (uc_flags (ucbs net (the up))) RAWERR
                  then snd (raw_queue (upd_hd (push_hdr IPSIZE) mp) (the up) net)
                  else netlog mp net)) in
           if ty = 3 then finish (unrch_user up code net)
           else if ty = 4 then finish (stat (\<lambda>s. s\<lparr>ic_quenches := ic_quenches s + 1\<rparr>) net)
           else if ty = 5 then finish (redirect_user up (rd32 (hd mp) (c + 4)) net)
           else if ty = 8 then
             (let mp = upd_hd (\<lambda>m. swap_addrs p (wr8 c 0 m)) mp;
                  net = ic_reply mp ifp p ilen net in
              stat (\<lambda>s. s\<lparr>ic_echoes := ic_echoes s + 1\<rparr>) net)
           else if ty = 11 then finish (stat (\<lambda>s. s\<lparr>ic_timex := ic_timex s + 1\<rparr>) net)
           else if ty = 13 then
             (if code = 0 then
                (let mp = upd_hd (\<lambda>m. swap_addrs p (wr32 (c + 16) (now OR 1)
                            (wr32 (c + 12) (now OR 1) (wr8 c 14 m)))) mp in
                 ic_reply mp ifp p ilen net)
              else net)
           else if ty = 15 then
             (if code = 0 then
                (let nt = iptonet (if_addr (ifs net ifp));
                     mp = upd_hd (\<lambda>m. let m = wr8 c 16 m; src = rd32 m (p + 12) in
                            wr32 (p + 16) (src OR nt)
                              (wr32 (p + 12) (rd32 m (p + 16) OR nt) m)) mp in
                 ic_reply mp ifp p ilen net)
              else net)
           else finish net)))"

text \<open>ggp tests two variables that one branch, or no statement at all, has set.\<close>

definition ggp :: "mbuf list \<Rightarrow> nat \<Rightarrow> net \<Rightarrow> net" where
  "ggp mp ifp net =
    (let p = m_off (hd mp); g = p + IPSIZE; m = hd mp;
         ilen = unat (rd16 m (p + 2)); ty = rd8 m g;
         finish = (\<lambda>up net.
           (if up \<noteq> None \<and> has (uc_flags (ucbs net (the up))) (UIP + URAW) \<and> n_junk_i net = 1
               \<and> has (uc_flags (ucbs net (the up))) RAWERR
            then snd (raw_queue mp (the up) net) else netlog mp net)) in
     if ty = 3 then
       (let (up, net) = icfind m (g + 4) net in finish up (unrch_user up (rd8 m (g + 1)) net))
     else if ty = 4 then
       (let (up, net) = icfind m (g + 4) net in
        finish up (stat (\<lambda>s. s\<lparr>ic_quenches := ic_quenches s + 1\<rparr>) net))
     else if ty = 5 then
       (let (up, net) = icfind m (g + 8) net in finish up (redirect_user up (rd32 m (g + 4)) net))
     else if ty = 8 then
       (let mp = upd_hd (\<lambda>m. swap_addrs p (wr8 g 0 m)) mp;
            net = icsend mp ifp p (int ilen) net in
        stat (\<lambda>s. s\<lparr>ic_echoes := ic_echoes s + 1\<rparr>) net)
     else finish (n_junk_up net) (stat (\<lambda>s. s\<lparr>ic_drops := ic_drops s + 1\<rparr>) net))"

end
