(* ===== verification/Udp.thy ===== *)
theory Udp
  imports Raw_Input
begin

text \<open>
  udp.c.  The UDP leader overlays the ip header: u_x1 8, u_pr 9, u_ilen 10, addresses 12 and 16,
  ports 20 and 22, length 24, checksum 26; the first eight bytes are skipped for the checksum.
\<close>

definition UDPHDR :: nat where [net_simps]: "UDPHDR = 28"
definition UDPSIZE :: int where [net_simps]: "UDPSIZE = 8"

definition udp_exact :: "net \<Rightarrow> addr \<Rightarrow> addr \<Rightarrow> u16 \<Rightarrow> nat \<Rightarrow> bool" where
  "udp_exact net src dst lport up \<longleftrightarrow>
    (let u = ucbs net up in
     has (uc_flags u) UUDP \<and> uc_lport u = lport \<and> uc_host u = src \<and> uc_local u = dst)"

definition udp_wild :: "net \<Rightarrow> addr \<Rightarrow> addr \<Rightarrow> u16 \<Rightarrow> nat \<Rightarrow> bool" where
  "udp_wild net src dst lport up \<longleftrightarrow>
    (let u = ucbs net up in
     has (uc_flags u) UUDP \<and> uc_lport u = lport
     \<and> (uc_host u = src \<or> uc_host u = 0) \<and> (uc_local u = dst \<or> uc_local u = 0))"

definition udp_find :: "net \<Rightarrow> addr \<Rightarrow> addr \<Rightarrow> u16 \<Rightarrow> nat option" where
  "udp_find net src dst lport =
    (case find (udp_exact net src dst lport) (n_ucbs net) of
       Some up \<Rightarrow> Some up
     | None \<Rightarrow> find (udp_wild net src dst lport) (n_ucbs net))"

definition udp_input :: "mbuf list \<Rightarrow> net \<Rightarrow> net" where
  "udp_input mp net =
    (let p = m_off (hd mp);
         mp = upd_hd (pull_hdr 8) mp;
         mp = upd_hd (wr8 (p + 8) 0) mp;
         mp = upd_hd (\<lambda>m. wr16 (p + 10) (rd16 m (p + 24)) m) mp;
         ulen = unat (ntohs (rd16 (hd mp) (p + 24)));
         lport = ntohs (rd16 (hd mp) (p + 22));
         i = rd16 (hd mp) (p + 26);
         mp0 = upd_hd (wr16 (p + 26) 0) mp;
         bad = (i \<noteq> 0 \<and> i \<noteq> cksum mp0 (ulen + 12));
         mp = (if i \<noteq> 0 then mp0 else mp);
         net = (if bad then stat (\<lambda>s. s\<lparr>u_badsum := u_badsum s + 1\<rparr>) net else net) in
     if bad \<and> \<not> nosum net then netlog mp net
     else
       (case udp_find net (rd32 (hd mp) (p + 12)) (rd32 (hd mp) (p + 16)) lport of
          Some up \<Rightarrow> snd (raw_queue (upd_hd (push_hdr 8) mp) up net)
        | None \<Rightarrow> freem mp (stat (\<lambda>s. s\<lparr>u_drops := u_drops s + 1\<rparr>) net)))"

text \<open>The second half of udp_output: pseudo header, checksum, and IP.\<close>

definition udp_emit :: "nat \<Rightarrow> mbuf list \<Rightarrow> int \<Rightarrow> net \<Rightarrow> net" where
  "udp_emit up mp len net =
    (let u = ucbs net up; p = m_off (hd mp);
         mp = upd_hd (\<lambda>m. wr16 (p + 10) (rd16 m (p + 24)) (wr8 (p + 9) UDPROTO (wr8 (p + 8) 0 m))) mp;
         mp = (if \<not> has (uc_flags u) RAWASIS then
                 (let mp = upd_hd (\<lambda>m. wr16 (p + 26) 0 (pull_hdr 8 m)) mp;
                      mp = upd_hd (wr16 (p + 26) (cksum mp (nat (len + 20)))) mp in
                  upd_hd (push_hdr 8) mp)
               else mp);
         (ok, net) = ip_send_up up mp UDPROTO (len + UDPSIZE) 0 [] 0 net in
     if ok then net else set_error ERAWBAD net)"

definition udp_output :: "nat \<Rightarrow> mbuf list \<Rightarrow> int \<Rightarrow> net \<Rightarrow> net" where
  "udp_output up mp len net =
    (let u = ucbs net up; mode = uc_flags u AND RAWMASK; p = MSIZE - UDPHDR in
     if mode = RAWCOMP then
       (let mp = upd_hd (\<lambda>m.
               let m = m\<lparr>m_off := p, m_len := UDPHDR\<rparr>;
                   m = wr16 (p + 24) (ntohs (word_of_int (len + UDPSIZE))) m;
                   m = wr32 (p + 12) (uc_local u) m;
                   m = wr32 (p + 16) (uc_host u) m;
                   m = wr16 (p + 20) (ntohs (uc_lport u)) m in
               wr16 (p + 22) (ntohs (uc_fport u)) m) mp in
        udp_emit up mp len net)
     else if mode = RAWVER \<or> mode = RAWASIS then
       (case tl mp of
          [] \<Rightarrow> panic ''udp_output: no data'' net
        | m # ms \<Rightarrow>
            if m_len m < UDPHDR then freem mp (set_error ERAWBAD net)
            else
              (let h = blit (m_dat m) (m_off m) p UDPHDR ((hd mp)\<lparr>m_off := p, m_len := UDPHDR\<rparr>) in
               udp_emit up (h # pull_hdr UDPHDR m # ms) (len - int UDPHDR) net))
     else set_error ENETPARM (freem mp net))"

end
