(* ===== verification/Ip_Input.thy ===== *)
theory Ip_Input
  imports Tcp_Input Icmp Udp
begin

text \<open>
  ip_input.c: checks of a received datagram, fragment reassembly, removal of options, and the
  dispatch on the protocol number.
\<close>

section \<open>The fragment queue\<close>

text \<open>Trimming a fragment in front and at its end (the fields are u_shorts).\<close>

definition fr_front :: "int \<Rightarrow> ipfrag \<Rightarrow> ipfrag" where
  "fr_front i f = f\<lparr>f_off := ushort (int (f_off f) + i), f_len := ushort (int (f_len f) - i),
                    f_m := m_adj (f_m f) i\<rparr>"

definition fr_back :: "int \<Rightarrow> ipfrag \<Rightarrow> ipfrag" where
  "fr_back i f = f\<lparr>f_len := ushort (int (f_len f) - i), f_end := ushort (int (f_end f) - i),
                   f_m := m_adj (f_m f) (- i)\<rparr>"

fun ip_succ :: "ipfrag \<Rightarrow> ipfrag list \<Rightarrow> ipfrag \<times> ipfrag list \<times> ipfrag list" where
  "ip_succ f [] = (f, [], [])"
| "ip_succ f (q # qs) =
    (if f_len f \<noteq> 0 \<and> f_off q < f_end f then
       (if f_end q \<le> f_end f then (let (f, qs, dead) = ip_succ f qs in (f, qs, q # dead))
        else
          (let i = int (f_end f) - int (f_off q) + 1 in
           (if i < int (f_len f) then fr_back i f else f\<lparr>f_len := 0\<rparr>, q # qs, [])))
     else (f, q # qs, []))"

text \<open>The queue after the merge and the fragments to be freed, in order.\<close>

definition ip_merge :: "ipfrag \<Rightarrow> ipfrag list \<Rightarrow> ipfrag list \<times> ipfrag list" where
  "ip_merge f queue =
    (let pre = takeWhile (\<lambda>q. f_off f > f_end q) queue in
     case dropWhile (\<lambda>q. f_off f > f_end q) queue of
       [] \<Rightarrow> (pre @ [f], [])
     | q # post \<Rightarrow>
         if f_end f < f_off q then (pre @ f # q # post, [])
         else if f_end f < f_end q then
           (let i = int (f_end f) - int (f_off q) + 1 in
            if i < int (f_len f) then (pre @ fr_back i f # q # post, []) else (queue, [f]))
         else
           (let (f, pre, dead) =
              (if f_off f \<le> f_off q then (f, pre, [q])
               else
                 (let i = int (f_end q) - int (f_off f) + 1 in
                  (if i < int (f_len f) then fr_front i f else f\<lparr>f_len := 0\<rparr>, pre @ [q], [])));
              (f, post, dead') = ip_succ f post in
            if f_len f \<noteq> 0 then (pre @ f # post, dead @ dead')
            else (pre @ post, dead @ dead' @ [f])))"

text \<open>ip_done: the length of the data when all of it is there, else 0.\<close>

fun done_walk :: "ipfrag \<Rightarrow> ipfrag list \<Rightarrow> nat" where
  "done_walk q [] = (if \<not> f_mff q then f_end q + 1 else 0)"
| "done_walk q (r # rs) = (if f_off r = f_end q + 1 then done_walk r rs else 0)"

definition ip_done :: "ipfrag list \<Rightarrow> nat" where
  "ip_done frags = (case frags of [] \<Rightarrow> 0 | q # rs \<Rightarrow> if f_off q \<noteq> 0 then 0 else done_walk q rs)"

text \<open>With an empty queue ip_done looks at the dummy element in the header's buffer, which is only
  partly set; the value is then taken from whatever the buffer holds.\<close>

definition ip_done_empty :: "mbuf \<Rightarrow> nat" where
  "ip_done_empty m =
    (if rd16 m (MHEAD + 6) \<noteq> 0 then 0
     else if rd8 m (MHEAD + 1) = 0 then unat (rd16 m (MHEAD + 10)) + 1 else 0)"

text \<open>ip_mergef: one chain of all buffers that hold data; the empty ones are freed.\<close>

fun ip_mergef :: "ipfrag list \<Rightarrow> net \<Rightarrow> mbuf list \<times> net" where
  "ip_mergef [] net = ([], net)"
| "ip_mergef (q # qs) net =
    (let (ms, net) = strip_null (f_m q) net; (rest, net) = ip_mergef qs net in (ms @ rest, net))"

text \<open>ip_opt: the data is moved over the options.\<close>

definition ip_opt :: "nat \<Rightarrow> nat \<Rightarrow> mbuf \<Rightarrow> mbuf" where
  "ip_opt p hlen m =
    (if hlen > IPSIZE then
       (let optlen = hlen - IPSIZE; q = p + hlen; len = m_off m + m_len m - q in
        (blit (m_dat m) q (p + IPSIZE) len m)\<lparr>m_len := uchar (int (m_len m) - int optlen)\<rparr>)
     else m)"

section \<open>Checks\<close>

text \<open>The adjustment to the length in the header.  A datagram that is shorter than its header says
  has its last buffer lengthened.\<close>

definition ip_fit :: "int \<Rightarrow> mbuf list \<Rightarrow> mbuf list" where
  "ip_fit iplen mp =
    (let i = int (chain_len mp) - iplen; n = last mp in
     if i = 0 then mp
     else if i > int (m_len n) then m_adj mp (- i)
     else butlast mp @ [n\<lparr>m_len := uchar (int (m_len n) - i)\<rparr>])"

text \<open>iqh, the saved header, starts at this offset of the queue header's buffer.\<close>

definition IQH :: nat where [net_simps]: "IQH = 38"

definition ipq_match :: "mbuf \<Rightarrow> nat \<Rightarrow> ipq \<Rightarrow> bool" where
  "ipq_match m p fp \<longleftrightarrow>
    rd32 m (p + 12) = rd32 (iq_m fp) (IQH + 12) \<and> rd32 m (p + 16) = rd32 (iq_m fp) (IQH + 16)
    \<and> rd16 m (p + 4) = rd16 (iq_m fp) (IQH + 4) \<and> rd8 m (p + 9) = rd8 (iq_m fp) (IQH + 9)"

definition new_ipq :: "mbuf \<Rightarrow> nat \<Rightarrow> nat \<Rightarrow> mbuf \<Rightarrow> ipq" where
  "new_ipq m p hlen b =
    \<lparr>iq_m = wr8 (MHEAD + 8) MAXTTL (blit (m_dat m) p IQH (min 90 hlen) b), iq_frags = []\<rparr>"

definition upd_ipq :: "nat \<Rightarrow> (ipq \<Rightarrow> ipq) \<Rightarrow> net \<Rightarrow> net" where
  "upd_ipq i f net =
    net\<lparr>n_ipqs := map (\<lambda>q. if m_id (iq_m q) = i then f q else q) (n_ipqs net)\<rparr>"

section \<open>Dispatch\<close>

definition ip_dispatch :: "byte \<Rightarrow> addr \<Rightarrow> addr \<Rightarrow> mbuf list \<Rightarrow> nat \<Rightarrow> net \<Rightarrow> net" where
  "ip_dispatch proto src dst mp ifp net =
    (let with_copy = (\<lambda>r up.
           (let (m, net) = (if r \<noteq> [] then m_copy mp net else ([], net));
                net = up net in
            if r \<noteq> [] then raw_disp m r net else net)) in
     if proto = TCPROTO then with_copy (n_tcp_proto net) (tcp_input (Some mp) ifp)
     else if proto = ICMPROTO then with_copy (n_icmp_proto net) (icmp mp ifp)
     else if proto = GGPROTO then with_copy (n_ggp_proto net) (ggp mp ifp)
     else if proto = UDPROTO then with_copy (n_udp_proto net) (udp_input mp)
     else raw_input mp src dst (uint proto) UIP False net)"

section \<open>Reassembly of a fragment\<close>

text \<open>The address of a fragment's header and of a queue header: on the queue they overlay the
  internet addresses, and raw input is given them as the addresses of a reassembled datagram when
  the fragment that completed it is not the first.\<close>

definition frag_ptr :: "net \<Rightarrow> ipfrag \<Rightarrow> u32" where
  "frag_ptr net f = netutl net + word_of_nat (MSIZE * m_id (hd (f_m f)) + f_hdr f)"

definition link_of :: "u32 \<Rightarrow> net \<Rightarrow> ipfrag list \<Rightarrow> u32" where
  "link_of head net fs = (case fs of [] \<Rightarrow> head | f # _ \<Rightarrow> frag_ptr net f)"

definition raw_addrs :: "ipfrag \<Rightarrow> ipq \<Rightarrow> ipfrag list \<Rightarrow> net \<Rightarrow> addr \<times> addr" where
  "raw_addrs f fp q net =
    (let me = (\<lambda>g. m_id (hd (f_m g)) = m_id (hd (f_m f)));
         src = rd32 (hd (f_m f)) (f_hdr f + 12); dst = rd32 (hd (f_m f)) (f_hdr f + 16);
         head = netutl net + word_of_nat (MSIZE * m_id (iq_m fp) + MHEAD) in
     if q = [] \<or> me (hd q) \<or> find me q = None then (src, dst)
     else (link_of head net (tl (dropWhile (\<lambda>g. \<not> me g) q)),
           link_of head net (rev (takeWhile (\<lambda>g. \<not> me g) q))))"

definition ip_complete :: "nat \<Rightarrow> ipfrag \<Rightarrow> ipq \<Rightarrow> nat \<Rightarrow> net \<Rightarrow> net" where
  "ip_complete i f fp ifp net =
    (let p = hd (iq_frags fp); h = f_hdr p;
         (src, dst) = raw_addrs f fp (iq_frags fp) net;
         proto = rd8 (hd (f_m f)) (f_hdr f + 9);
         m = hd (f_m p);
         m = wr8 (h + 1) (if f_mff p then 1 else 0) m;
         m = wr16 (h + 6) (word_of_nat (f_off p)) m;
         m = wr16 (h + 10) (word_of_nat (f_end p)) m;
         m = wr16 (h + 2) (word_of_nat i) m;
         m = ip_opt h (4 * (unat (rd8 m h) mod 16)) m;
         m = wr32 (h + 12) (rd32 (iq_m fp) (IQH + 12)) m;
         m = wr32 (h + 16) (rd32 (iq_m fp) (IQH + 16)) m;
         (mp, net) = ip_mergef (p\<lparr>f_m := m # tl (f_m p)\<rparr> # tl (iq_frags fp)) net;
         net = ip_freef fp net;
         net = net\<lparr>n_ip_lock := 0\<rparr> in
     ip_dispatch proto src dst mp ifp net)"

definition ip_fragment :: "ipq option \<Rightarrow> nat \<Rightarrow> nat \<Rightarrow> ipfrag \<Rightarrow> nat \<Rightarrow> net \<Rightarrow> net" where
  "ip_fragment old p hlen f ifp net =
    (let m = hd (f_m f);
         f = (if f_off f \<noteq> 0 then f\<lparr>f_m := upd_hd (pull_hdr hlen) (f_m f)\<rparr> else f);
         (fpo, net) =
           (case old of
              Some fp \<Rightarrow> (Some fp, net)
            | None \<Rightarrow>
                (let (got, net) = m_get 1 net in
                 if got = None then (None, freem (f_m f) net)
                 else (let fp = new_ipq m p hlen (the got) in
                       (Some fp, net\<lparr>n_ipqs := n_ipqs net @ [fp]\<rparr>)))) in
     case fpo of
       None \<Rightarrow> net
     | Some fp \<Rightarrow>
         (let f = f\<lparr>f_end := ushort (int (f_off f) + int (f_len f) - 1)\<rparr>;
              (q, dead) = ip_merge f (iq_frags fp);
              (_, net) = free_frags dead net;
              fp = fp\<lparr>iq_frags := q\<rparr>;
              net = upd_ipq (m_id (iq_m fp)) (\<lambda>_. fp) net;
              i = (if q = [] then ip_done_empty (iq_m fp) else ip_done q) in
          if i = 0 then net\<lparr>n_ip_lock := 0\<rparr>
          else if q = [] then panic ''ip_input: empty chain'' net
          else ip_complete i f fp ifp net))"

definition ip_input :: "mbuf list \<Rightarrow> nat \<Rightarrow> net \<Rightarrow> net" where
  "ip_input mp ifp net =
    (let p = m_off (hd mp); hlen = 4 * (unat (rd8 (hd mp) p) mod 16) in
     if hlen > m_len (hd mp) then netlog mp (emit (Printf ''ip header overflow'') net)
     else
       (let mp = ip_fit (int (unat (ntohs (rd16 (hd mp) (p + 2))))) mp;
            i = rd16 (hd mp) (p + 10);
            mp = upd_hd (wr16 (p + 10) 0) mp;
            bad = (i \<noteq> cksum mp hlen);
            net = (if bad then stat (\<lambda>s. s\<lparr>ip_badsum := ip_badsum s + 1\<rparr>) net else net) in
        if bad \<and> \<not> nosum net then netlog mp net
        else if rd32 (hd mp) (p + 16) \<noteq> if_addr (ifs net ifp)
        then netlog mp (stat (\<lambda>s. s\<lparr>ip_drops := ip_drops s + 1\<rparr>) net)
        else
          (let off = ntohs (rd16 (hd mp) (p + 6));
               len = ushort (int (unat (ntohs (rd16 (hd mp) (p + 2)))) - int hlen);
               mff = has off ip_mf;
               off8 = push_bit 3 off;
               mp = upd_hd (wr16 (p + 2) (word_of_nat len)) mp;
               mp = upd_hd (wr8 (p + 1) (if mff then 1 else 0)) mp;
               mp = upd_hd (wr16 (p + 6) off8) mp;
               net = net\<lparr>n_ip_lock := n_ip_lock net + 1\<rparr>;
               old = find (ipq_match (hd mp) p) (n_ipqs net) in
           if \<not> mff \<and> off8 = 0 then
             (let net = (case old of None \<Rightarrow> net
                         | Some fp \<Rightarrow> ip_freef fp (snd (free_frags (iq_frags fp) net)));
                  mp = upd_hd (ip_opt p hlen) mp;
                  net = net\<lparr>n_ip_lock := 0\<rparr>;
                  m = hd mp in
              ip_dispatch (rd8 m (p + 9)) (rd32 m (p + 12)) (rd32 m (p + 16)) mp ifp net)
           else
             ip_fragment old p hlen
               \<lparr>f_hdr = p, f_off = unat off8, f_len = len, f_end = 0, f_mff = mff, f_m = mp\<rparr> ifp net)))"

section \<open>Timeout of fragments\<close>

definition iq_ttl :: "ipq \<Rightarrow> byte" where
  "iq_ttl fp = rd8 (iq_m fp) (MHEAD + 8)"

fun ip_timeo_loop :: "ipq list \<Rightarrow> net \<Rightarrow> net" where
  "ip_timeo_loop [] net = net"
| "ip_timeo_loop (fp # fps) net =
    (let ttl = iq_ttl fp - 1;
         fp = fp\<lparr>iq_m := wr8 (MHEAD + 8) ttl (iq_m fp)\<rparr>;
         net = upd_ipq (m_id (iq_m fp)) (\<lambda>_. fp) net;
         net = (if ttl = 0 then ip_freef fp (snd (free_frags (iq_frags fp) net)) else net) in
     ip_timeo_loop fps net)"

definition ip_timeo :: "net \<Rightarrow> net" where
  "ip_timeo net = (if n_ip_lock net \<noteq> 0 then net else ip_timeo_loop (n_ipqs net) net)"

end
