(* ===== verification/Netmain.thy ===== *)
theory Netmain
  imports Ip_Input
begin

text \<open>
  The input process: netmain.c and the input sides of imp_io.c and vii_io.c.  One pass over the
  interfaces is a function of the state; the process repeats it for ever, asleep in between.  An
  interface is dispatched on its kind, as if_send is.
\<close>

section \<open>Reset of an interface, the timer\<close>

definition netreset :: "nat \<Rightarrow> net \<Rightarrow> net" where
  "netreset ip net =
    (let net = upd_if ip (\<lambda>i. i\<lparr>if_avail := False\<rparr>) net;
         net = free_queue (if_inq (ifs net ip)) net;
         net = upd_if ip (\<lambda>i. i\<lparr>if_inq := []\<rparr>) net;
         net = free_queue (if_outq (ifs net ip)) net;
         net = upd_if ip (\<lambda>i. i\<lparr>if_outq := []\<rparr>) net;
         net = freem (if_inq_msg (ifs net ip)) net;
         net = upd_if ip (\<lambda>i. i\<lparr>if_inq_msg := []\<rparr>) net;
         net = freem (if_outq_cur (ifs net ip)) net;
         net = upd_if ip (\<lambda>i. i\<lparr>if_outq_cur := []\<rparr>) net;
         net = h_reset (iptonet (if_addr (ifs net ip))) net;
         net = emit (Printf ''netreset'') net;
         net = upd_if ip (\<lambda>i. i\<lparr>if_resets := if_resets i + 1\<rparr>) net in
     emit (If_init ip) net)"

definition net_timer :: "net \<Rightarrow> net" where
  "net_timer net = emit (Timeout ''net_timer'' 60) (tcp_timeo (ip_timeo net))"

section \<open>imp_rcv\<close>

text \<open>The bytes 4..7 of a leader, with the net number in the first, as an internet address.\<close>

definition imp_addr :: "nat \<Rightarrow> net \<Rightarrow> mbuf \<Rightarrow> mbuf" where
  "imp_addr ip net m = wr8 (m_off m + 4) (ucast (iptonet (if_addr (ifs net ip)))) m"

definition rfnm_in :: "nat \<Rightarrow> nat \<Rightarrow> net \<Rightarrow> net" where
  "rfnm_in ip hp net =
    (if h_rfnm (hosts net ! hp) \<noteq> 0 then
       (let net = upd_host hp (\<lambda>h. h\<lparr>h_rfnm := h_rfnm h - 1\<rparr>) net in
        case h_outq (hosts net ! hp) of
          n # q \<Rightarrow> snd (imp_snd n ip 0 0 0 True (upd_host hp (\<lambda>h. h\<lparr>h_outq := q\<rparr>) net))
        | [] \<Rightarrow>
            if h_rfnm (hosts net ! hp) = 0 \<and> htemp (hosts net ! hp) then h_free hp net else net)
     else net)"

text \<open>Telling the connections that go through a dead host.\<close>

fun dead_conns :: "byte \<Rightarrow> nat \<Rightarrow> nat list \<Rightarrow> net \<Rightarrow> net" where
  "dead_conns stype hp [] net = net"
| "dead_conns stype hp (up # ups) net =
    (let u = ucbs net up;
         net =
           (if uc_proc u \<noteq> None \<and> uc_route u = Some hp then
              (if h_addr (hosts net ! hp) = addr_1822 (uc_host u) then
                 to_user up (if stype = 1 then UDEAD else UNRCH)
                   (upd_ucb up (uc_xstat_update (\<lambda>_. ucast stype)) net)
               else
                 (let (ok, net) = ip_reroute up hp net in
                  if ok then net else to_user up UNRCH (upd_ucb up (uc_xstat_update (\<lambda>_. 0)) net)))
            else net) in
     dead_conns stype hp ups net)"

definition host_down :: "host \<Rightarrow> host" where
  "host_down h = h\<lparr>h_stat := (if odd (h_stat h div HUP) then h_stat h - HUP else h_stat h), h_rfnm := 0\<rparr>"

definition imp_raw_in :: "nat \<Rightarrow> mbuf list \<Rightarrow> bool \<Rightarrow> net \<Rightarrow> net" where
  "imp_raw_in ip mp err net =
    (let m = hd mp; p = m_off m; my = if_addr (ifs net ip);
         naddr = set_host (rd8 m (p + 5)) (set_imp (rd16 m (p + 6)) my) in
     raw_input mp naddr my (uint (rd8 m (p + 8))) URAW err net)"

definition imp_err_in :: "nat \<Rightarrow> mbuf list \<Rightarrow> net \<Rightarrow> net" where
  "imp_err_in ip mp net =
    (if uint (rd8 (hd mp) (m_off (hd mp) + 8)) = if_link (ifs net ip) \<and> n_ip_proto net = []
     then freem mp net else imp_raw_in ip mp True net)"

definition imp_data_in :: "nat \<Rightarrow> mbuf list \<Rightarrow> net \<Rightarrow> net" where
  "imp_data_in ip mp net =
    (let p = m_off (hd mp);
         mp = upd_hd (\<lambda>m. wr16 (p + 10) (drop_bit 3 (ntohs (rd16 m (p + 10)))) m) mp in
     if uint (rd8 (hd mp) (p + 8)) = if_link (ifs net ip) then
       (let mp = upd_hd (pull_hdr IMPSIZE) mp;
            q = n_ip_proto net;
            (n, net) = (if q \<noteq> [] then m_copy mp net else ([], net));
            net = ip_input mp ip net in
        if q \<noteq> [] then raw_disp (upd_hd (push_hdr IMPSIZE) n) q net else net)
     else imp_raw_in ip mp False net)"

definition imp_msg :: "nat \<Rightarrow> mbuf list \<Rightarrow> net \<Rightarrow> net" where
  "imp_msg ip mp net =
    (let mp = upd_hd (m_act_update (\<lambda>_. 0)) mp; m = hd mp; p = m_off m; ty = rd8 m (p + 3) in
     if rd8 m p \<noteq> IMP_NFF then freem mp net
     else if ty = IMP_DATA then imp_data_in ip mp net
     else if ty = 1 then
       (let net = emit (Printf ''leader error'') net;
            net = h_reset (iptonet (if_addr (ifs net ip))) net in
        freem mp (snd (imp_noops ip net)))
     else if ty = 2 then
       (let net = emit (Printf ''going down'') net;
            net = upd_if ip (\<lambda>i. i\<lparr>if_avail := False\<rparr>) net in
        freem mp (emit (Timeout ''netreset'' 1800) net))
     else if ty = IMP_NOP then
       (let my = if_addr (ifs net ip);
            net = (if rd8 m (p + 5) \<noteq> s_host my \<or> rd16 m (p + 6) \<noteq> s_imp my
                   then emit (Printf ''imp: address mismatch'')
                          (upd_if ip (\<lambda>i. i\<lparr>if_addr := set_imp (rd16 m (p + 6)) (set_host (rd8 m (p + 5)) my)\<rparr>) net)
                   else net) in
        freem mp net)
     else if ty = 5 \<or> ty = 9 then
       (let mp = upd_hd (imp_addr ip net) mp;
            net = (case h_find (rd32 (hd mp) (p + 4)) net of
                     None \<Rightarrow> net | Some hp \<Rightarrow> rfnm_in ip hp net) in
        imp_err_in ip mp net)
     else if ty = 7 then
       (let mp = upd_hd (imp_addr ip net) mp;
            net = (case h_find (rd32 (hd mp) (p + 4)) net of
                     None \<Rightarrow> net
                   | Some hp \<Rightarrow> dead_conns (rd8 m (p + 9)) hp (n_ucbs net) (upd_host hp host_down net)) in
        imp_err_in ip mp net)
     else if ty = 8 then
       (let net = emit (Printf ''data error'') net;
            mp = upd_hd (imp_addr ip net) mp;
            net = (case h_find (rd32 (hd mp) (p + 4)) net of
                     None \<Rightarrow> net | Some hp \<Rightarrow> upd_host hp (\<lambda>h. h\<lparr>h_rfnm := 0\<rparr>) net);
            net = snd (imp_noops ip net) in
        imp_err_in ip mp net)
     else if ty = 10 then freem mp (emit (Printf ''reset complete'') net)
     else freem mp net)"

section \<open>vii_rcv\<close>

definition vii_msg :: "nat \<Rightarrow> mbuf list \<Rightarrow> net \<Rightarrow> net" where
  "vii_msg ip mp net =
    (let mp = upd_hd (m_act_update (\<lambda>_. 0)) mp; m = hd mp; v = m_off m;
         net = (if rd8 m v \<noteq> s_vhst (if_addr (ifs net ip))
                then emit (Printf ''vii: address mismatch'')
                       (upd_if ip (\<lambda>i. i\<lparr>if_addr := set_vhst (rd8 m v) (if_addr i)\<rparr>) net)
                else net) in
     if uint (rd8 m (v + 3)) = if_link (ifs net ip) then
       (let mp = upd_hd (pull_hdr VIISIZE) mp;
            q = n_ip_proto net;
            (n, net) = (if q \<noteq> [] then m_copy mp net else ([], net));
            net = ip_input mp ip net in
        if q \<noteq> [] then raw_disp (upd_hd (push_hdr VIISIZE) n) q net else net)
     else
       raw_input mp (set_vhst (rd8 m (v + 1)) (if_addr (ifs net ip))) (if_addr (ifs net ip))
         (uint (rd8 m (v + 3))) URAW False net)"

text \<open>The loops take one message after the other off the input queue; nothing but the device adds
  to it.\<close>

fun rcv_loop :: "(nat \<Rightarrow> mbuf list \<Rightarrow> net \<Rightarrow> net) \<Rightarrow> nat \<Rightarrow> nat \<Rightarrow> net \<Rightarrow> net" where
  "rcv_loop f 0 ip net = net"
| "rcv_loop f (Suc k) ip net =
    (case if_inq (ifs net ip) of
       [] \<Rightarrow> net
     | m # q \<Rightarrow> rcv_loop f k ip (f ip m (upd_if ip (\<lambda>i. i\<lparr>if_inq := q\<rparr>) net)))"

definition imp_rcv :: "nat \<Rightarrow> net \<Rightarrow> net" where
  "imp_rcv ip net = rcv_loop imp_msg (length (if_inq (ifs net ip))) ip net"

definition vii_rcv :: "nat \<Rightarrow> net \<Rightarrow> net" where
  "vii_rcv ip net = rcv_loop vii_msg (length (if_inq (ifs net ip))) ip net"

definition if_rcv :: "nat \<Rightarrow> net \<Rightarrow> net" where
  "if_rcv ip net =
    (case if_kind (ifs net ip) of Imp \<Rightarrow> imp_rcv ip net | Vii \<Rightarrow> vii_rcv ip net)"

section \<open>netmain\<close>

definition balance_bufs :: "net \<Rightarrow> net" where
  "balance_bufs net =
    (if n_bufs (pool net) < n_lowat (pool net) then snd (m_expand net)
     else if n_bufs (pool net) > n_hiwat (pool net) then
       (case m_relse (pool net) of Inl e \<Rightarrow> panic e net | Inr p \<Rightarrow> net\<lparr>pool := p\<rparr>)
     else net)"

definition netmain_if :: "nat \<Rightarrow> net \<Rightarrow> net" where
  "netmain_if lp net =
    (let net = (if if_error (ifs net lp) \<and> \<not> if_needinit (ifs net lp)
                then netreset lp (upd_if lp (\<lambda>i. i\<lparr>if_needinit := True\<rparr>) net)
                else if if_avail (ifs net lp) \<and> if_inq (ifs net lp) \<noteq> [] then if_rcv lp net
                else net);
         net = (if n_work net \<noteq> [] then tcp_input None lp net else net) in
     balance_bufs net)"

fun netmain_pass :: "nat list \<Rightarrow> net \<Rightarrow> net" where
  "netmain_pass [] net = net"
| "netmain_pass (lp # lps) net = netmain_pass lps (netmain_if lp net)"

end
