(* ===== verification/Tcp_Frame.thy ===== *)
theory Tcp_Frame
  imports Tcp_Input
begin

text \<open>
  What the procedures of the network kernel leave alone: the state, the user block and the local
  port of every connection.  The state of a connection is changed by action and by tcp_input only
  (and by the user calls that create it), never inside a procedure or an action routine.

  \<open>sat P net\<close> is just \<open>P net\<close>, a mark for the rules below; \<open>keeps S net\<close> says that these
  fields are \<open>S\<close>.  The collection \<open>keeps\<close> holds a rule for every
  operation and for the let and case of the models, so that a proof follows the text of the
  operation.  (\<open>keeps_val\<close> has the rules for values that are not states; they are tried last.)
\<close>

named_theorems keeps
named_theorems keeps_val

definition st :: "net \<Rightarrow> nat \<Rightarrow> nat \<times> nat \<times> u16" where
  "st net t = (t_state (tcbs net t), t_ucb (tcbs net t), t_lport (tcbs net t))"

definition sat :: "(net \<Rightarrow> bool) \<Rightarrow> net \<Rightarrow> bool" where
  "sat P net \<longleftrightarrow> P net"

abbreviation keeps :: "(nat \<Rightarrow> nat \<times> nat \<times> u16) \<Rightarrow> net \<Rightarrow> bool" where
  "keeps S \<equiv> sat (\<lambda>net. st net = S)"

lemma keeps_def: "keeps S net \<longleftrightarrow> st net = S"
  by (simp add: sat_def)

definition tid :: "tcb \<Rightarrow> nat \<times> nat \<times> u16" where
  "tid c = (t_state c, t_ucb c, t_lport c)"

lemma tid_set_timer [simp]: "tid (set_timer i v c) = tid c"
  by (simp add: tid_def set_timer_def)

section \<open>Rules for the structure of the models\<close>

lemma keeps_let [keeps]:
  "sat P e \<Longrightarrow> (\<And>n. sat P n \<Longrightarrow> sat P (b n)) \<Longrightarrow> sat P (Let e b)"
  by simp

lemma keeps_let_val [keeps_val]: "(\<And>x. x = e \<Longrightarrow> sat P (b x)) \<Longrightarrow> sat P (Let (e :: 'a) b)"
  by simp

lemma keeps_snd_let [keeps]:
  "sat P e \<Longrightarrow> (\<And>n. sat P n \<Longrightarrow> sat P (snd (b n))) \<Longrightarrow> sat P (snd (Let e b))"
  "sat P e \<Longrightarrow> (\<And>n. sat P n \<Longrightarrow> sat P (snd (snd (c n)))) \<Longrightarrow> sat P (snd (snd (Let e c)))"
  "sat P e \<Longrightarrow> (\<And>n. sat P n \<Longrightarrow> sat P (snd (snd (snd (d n))))) \<Longrightarrow> sat P (snd (snd (snd (Let e d))))"
  by simp_all

lemma keeps_snd_let_val [keeps_val]:
  "(\<And>x. x = (e :: 'a) \<Longrightarrow> sat P (snd (b x))) \<Longrightarrow> sat P (snd (Let e b))"
  "(\<And>x. x = (e :: 'a) \<Longrightarrow> sat P (snd (snd (c x)))) \<Longrightarrow> sat P (snd (snd (Let e c)))"
  "(\<And>x. x = (e :: 'a) \<Longrightarrow> sat P (snd (snd (snd (d x))))) \<Longrightarrow> sat P (snd (snd (snd (Let e d))))"
  by simp_all

text \<open>A pair or a triple whose last part is the state, bound or passed on.\<close>

lemma keeps_pair [keeps]:
  "sat P (snd e) \<Longrightarrow> (\<And>x n. sat P n \<Longrightarrow> sat P (b x n)) \<Longrightarrow> sat P (case e of (x, n) \<Rightarrow> b x n)"
  "sat P (snd e) \<Longrightarrow> (\<And>x n. sat P n \<Longrightarrow> sat P (snd (c x n))) \<Longrightarrow> sat P (snd (case e of (x, n) \<Rightarrow> c x n))"
  "sat P (snd e) \<Longrightarrow> (\<And>x n. sat P n \<Longrightarrow> sat P (snd (snd (d x n)))) \<Longrightarrow> sat P (snd (snd (case e of (x, n) \<Rightarrow> d x n)))"
  "sat P (snd e) \<Longrightarrow> (\<And>x n. sat P n \<Longrightarrow> sat P (snd (snd (snd (f x n))))) \<Longrightarrow> sat P (snd (snd (snd (case e of (x, n) \<Rightarrow> f x n))))"
  by (simp_all add: split_beta)

lemma keeps_triple [keeps]:
  "sat P (snd (snd e)) \<Longrightarrow> (\<And>x y n. sat P n \<Longrightarrow> sat P (b x y n)) \<Longrightarrow> sat P (case e of (x, y, n) \<Rightarrow> b x y n)"
  "sat P (snd (snd e)) \<Longrightarrow> (\<And>x y n. sat P n \<Longrightarrow> sat P (snd (c x y n))) \<Longrightarrow> sat P (snd (case e of (x, y, n) \<Rightarrow> c x y n))"
  "sat P (snd (snd e)) \<Longrightarrow> (\<And>x y n. sat P n \<Longrightarrow> sat P (snd (snd (d x y n)))) \<Longrightarrow> sat P (snd (snd (case e of (x, y, n) \<Rightarrow> d x y n)))"
  "sat P (snd (snd e)) \<Longrightarrow> (\<And>x y n. sat P n \<Longrightarrow> sat P (snd (snd (snd (f x y n))))) \<Longrightarrow> sat P (snd (snd (snd (case e of (x, y, n) \<Rightarrow> f x y n))))"
  by (simp_all add: split_beta)

lemma keeps_quad [keeps]:
  "sat P (snd (snd (snd e))) \<Longrightarrow> (\<And>x y z n. sat P n \<Longrightarrow> sat P (b x y z n)) \<Longrightarrow> sat P (case e of (x, y, z, n) \<Rightarrow> b x y z n)"
  "sat P (snd (snd (snd e))) \<Longrightarrow> (\<And>x y z n. sat P n \<Longrightarrow> sat P (snd (c x y z n))) \<Longrightarrow> sat P (snd (case e of (x, y, z, n) \<Rightarrow> c x y z n))"
  "sat P (snd (snd (snd e))) \<Longrightarrow> (\<And>x y z n. sat P n \<Longrightarrow> sat P (snd (snd (d x y z n)))) \<Longrightarrow> sat P (snd (snd (case e of (x, y, z, n) \<Rightarrow> d x y z n)))"
  "sat P (snd (snd (snd e))) \<Longrightarrow> (\<And>x y z n. sat P n \<Longrightarrow> sat P (snd (snd (snd (f x y z n))))) \<Longrightarrow> sat P (snd (snd (snd (case e of (x, y, z, n) \<Rightarrow> f x y z n))))"
  by (simp_all add: split_beta)

lemma keeps_if [keeps]:
  "(c \<Longrightarrow> sat P a) \<Longrightarrow> (\<not> c \<Longrightarrow> sat P b) \<Longrightarrow> sat P (if c then a else b)"
  "(c \<Longrightarrow> sat P (snd a1)) \<Longrightarrow> (\<not> c \<Longrightarrow> sat P (snd b1)) \<Longrightarrow> sat P (snd (if c then a1 else b1))"
  "(c \<Longrightarrow> sat P (snd (snd a2))) \<Longrightarrow> (\<not> c \<Longrightarrow> sat P (snd (snd b2))) \<Longrightarrow> sat P (snd (snd (if c then a2 else b2)))"
  "(c \<Longrightarrow> sat P (snd (snd (snd a3)))) \<Longrightarrow> (\<not> c \<Longrightarrow> sat P (snd (snd (snd b3)))) \<Longrightarrow> sat P (snd (snd (snd (if c then a3 else b3))))"
  by simp_all

lemma keeps_option [keeps]:
  "(e = None \<Longrightarrow> sat P a) \<Longrightarrow> (\<And>x. e = Some x \<Longrightarrow> sat P (b x)) \<Longrightarrow> sat P (case e of None \<Rightarrow> a | Some x \<Rightarrow> b x)"
  "(e = None \<Longrightarrow> sat P (snd a1)) \<Longrightarrow> (\<And>x. e = Some x \<Longrightarrow> sat P (snd (b1 x))) \<Longrightarrow> sat P (snd (case e of None \<Rightarrow> a1 | Some x \<Rightarrow> b1 x))"
  "(e = None \<Longrightarrow> sat P (snd (snd a2))) \<Longrightarrow> (\<And>x. e = Some x \<Longrightarrow> sat P (snd (snd (b2 x)))) \<Longrightarrow> sat P (snd (snd (case e of None \<Rightarrow> a2 | Some x \<Rightarrow> b2 x)))"
  by (simp_all split: option.split)

lemma keeps_list [keeps]:
  "(e = [] \<Longrightarrow> sat P a) \<Longrightarrow> (\<And>x xs. e = x # xs \<Longrightarrow> sat P (b x xs)) \<Longrightarrow> sat P (case e of [] \<Rightarrow> a | x # xs \<Rightarrow> b x xs)"
  "(e = [] \<Longrightarrow> sat P (snd a1)) \<Longrightarrow> (\<And>x xs. e = x # xs \<Longrightarrow> sat P (snd (b1 x xs))) \<Longrightarrow> sat P (snd (case e of [] \<Rightarrow> a1 | x # xs \<Rightarrow> b1 x xs))"
  "(e = [] \<Longrightarrow> sat P (snd (snd a2))) \<Longrightarrow> (\<And>x xs. e = x # xs \<Longrightarrow> sat P (snd (snd (b2 x xs)))) \<Longrightarrow> sat P (snd (snd (case e of [] \<Rightarrow> a2 | x # xs \<Rightarrow> b2 x xs)))"
  by (simp_all split: list.split)

lemma keeps_sum [keeps]:
  "(\<And>x. e = Inl x \<Longrightarrow> sat P (a x)) \<Longrightarrow> (\<And>x. e = Inr x \<Longrightarrow> sat P (b x)) \<Longrightarrow> sat P (case e of Inl x \<Rightarrow> a x | Inr x \<Rightarrow> b x)"
  "(\<And>x. e = Inl x \<Longrightarrow> sat P (snd (a1 x))) \<Longrightarrow> (\<And>x. e = Inr x \<Longrightarrow> sat P (snd (b1 x))) \<Longrightarrow> sat P (snd (case e of Inl x \<Rightarrow> a1 x | Inr x \<Rightarrow> b1 x))"
  by (simp_all split: sum.split)

text \<open>A pair without a state in it.\<close>

lemma keeps_split_val [keeps_val]:
  "(\<And>x y. e = (x, y) \<Longrightarrow> sat P (b x y)) \<Longrightarrow> sat P (case (e :: 'a \<times> 'b) of (x, y) \<Rightarrow> b x y)"
  "(\<And>x y. e = (x, y) \<Longrightarrow> sat P (snd (c x y))) \<Longrightarrow> sat P (snd (case e of (x, y) \<Rightarrow> c x y))"
  "(\<And>x y. e = (x, y) \<Longrightarrow> sat P (snd (snd (d x y)))) \<Longrightarrow> sat P (snd (snd (case e of (x, y) \<Rightarrow> d x y)))"
  by (simp_all add: split_beta)

text \<open>A let of a pattern is a case.\<close>

lemma Let_split: "Let e (case_prod b) = case_prod b e"
  by (simp add: Let_def)

text \<open>A let of a function that takes a state (a common ending of several branches).\<close>

lemma Let_fun:
  "Let (f :: 'a \<Rightarrow> net) b = b f" "Let (g :: 'a \<Rightarrow> 'b \<Rightarrow> net) c = c g"
  by (simp_all add: Let_def)

lemma keeps_snd [keeps]:
  "sat P n \<Longrightarrow> sat P (snd (x, n))" "sat P n \<Longrightarrow> sat P (snd (snd (x, y, n)))"
  "sat P n \<Longrightarrow> sat P (snd (snd (snd (x, y, z, n))))"
  by simp_all

section \<open>Primitive changes\<close>

lemma keeps_upd_tcb:
  assumes "keeps S net" "tid (f (tcbs net t)) = tid (tcbs net t)"
  shows "keeps S (upd_tcb t f net)"
  using assms by (auto simp: sat_def st_def upd_tcb_def tid_def fun_eq_iff)

lemma keeps_upd_tcb_same [keeps]:
  assumes "keeps S net" "\<And>c. tid (f c) = tid c"
  shows "keeps S (upd_tcb t f net)"
  using assms by (intro keeps_upd_tcb)

lemma keeps_fields [keeps]:
  assumes "keeps S net"
  shows "keeps S (net\<lparr>pool := v1\<rparr>)" "keeps S (net\<lparr>n_tcbs := v2\<rparr>)" "keeps S (net\<lparr>n_ucbs := v3\<rparr>)"
    "keeps S (net\<lparr>n_ipqs := v4\<rparr>)" "keeps S (net\<lparr>n_log := v5\<rparr>)" "keeps S (net\<lparr>n_work := v6\<rparr>)"
    "keeps S (net\<lparr>n_iss := v7\<rparr>)" "keeps S (net\<lparr>n_ip_cnt := v8\<rparr>)" "keeps S (net\<lparr>n_ip_lock := v9\<rparr>)"
  using assms by (simp_all add: sat_def st_def fun_eq_iff)

lemma keeps_prims [keeps]:
  assumes "keeps S net"
  shows "keeps S (upd_ucb u f net)" "keeps S (upd_if i g net)" "keeps S (upd_host h k net)"
    "keeps S (stat l net)" "keeps S (emit ev net)" "keeps S (panic e net)" "keeps S (set_error x net)"
    "keeps S (wakeup c net)"
  using assms
  by (simp_all add: sat_def st_def fun_eq_iff upd_ucb_def upd_if_def upd_host_def stat_def emit_def
      panic_def set_error_def wakeup_def)


section \<open>Buffers and messages\<close>

lemma keeps_m_freem [keeps]: "keeps S net \<Longrightarrow> keeps S (freem ms net)"
  unfolding m_freem_def Let_split
  by (assumption | rule keeps | rule keeps_val | (simp; fail) | (simp add: tid_def set_timer_def; fail))+

lemma keeps_m_free [keeps]: "keeps S net \<Longrightarrow> keeps S (snd (m_free ms net))"
  unfolding m_free_def Let_split
  by (assumption | rule keeps | rule keeps_val | (simp; fail) | (simp add: tid_def set_timer_def; fail))+

lemma keeps_ip_freef [keeps]: "keeps S net \<Longrightarrow> keeps S (ip_freef fp net)"
  unfolding ip_freef_def Let_split
  by (assumption | rule keeps | rule keeps_val | (simp; fail) | (simp add: tid_def set_timer_def; fail))+

lemma keeps_free_frags [keeps]: "keeps S net \<Longrightarrow> keeps S (snd (free_frags fs net))"
proof (induction fs arbitrary: net)
  case Nil
  then show ?case unfolding free_frags.simps Let_split by - (assumption | rule keeps | rule keeps_val | (simp; fail) | (simp add: tid_def set_timer_def; fail))+
next
  case (Cons a b)
  note IH = Cons.IH
  show ?case using Cons.prems unfolding free_frags.simps Let_split
    by - (assumption | rule IH | rule keeps | rule keeps_val | (simp; fail) | (simp add: tid_def set_timer_def; fail))+
qed

lemma keeps_steal_ipqs [keeps]: "keeps S net \<Longrightarrow> keeps S (snd (steal_ipqs fps need net))"
proof (induction fps arbitrary: need net)
  case Nil
  then show ?case unfolding steal_ipqs.simps Let_split by - (assumption | rule keeps | rule keeps_val | (simp; fail) | (simp add: tid_def set_timer_def; fail))+
next
  case (Cons a b)
  note IH = Cons.IH
  show ?case using Cons.prems unfolding steal_ipqs.simps Let_split
    by - (assumption | rule IH | rule keeps | rule keeps_val | (simp; fail) | (simp add: tid_def set_timer_def; fail))+
qed

lemma keeps_free_segs [keeps]: "keeps S net \<Longrightarrow> keeps S (snd (free_segs ts net))"
proof (induction ts arbitrary: net)
  case Nil
  then show ?case unfolding free_segs.simps Let_split by - (assumption | rule keeps | rule keeps_val | (simp; fail) | (simp add: tid_def set_timer_def; fail))+
next
  case (Cons a b)
  note IH = Cons.IH
  show ?case using Cons.prems unfolding free_segs.simps Let_split
    by - (assumption | rule IH | rule keeps | rule keeps_val | (simp; fail) | (simp add: tid_def set_timer_def; fail))+
qed

lemma keeps_steal_unack [keeps]: "keeps S net \<Longrightarrow> keeps S (snd (steal_unack tps need net))"
proof (induction tps arbitrary: need net)
  case Nil
  then show ?case unfolding steal_unack.simps Let_split by - (assumption | rule keeps | rule keeps_val | (simp; fail) | (simp add: tid_def set_timer_def; fail))+
next
  case (Cons a b)
  note IH = Cons.IH
  show ?case using Cons.prems unfolding steal_unack.simps Let_split
    by - (assumption | rule IH | rule keeps | rule keeps_val | (simp; fail) | (simp add: tid_def set_timer_def; fail))+
qed

lemma keeps_pg_alloc_n [keeps]: "keeps S net \<Longrightarrow> keeps S (snd (pg_alloc_n n net))"
  unfolding pg_alloc_n_def Let_split
  by (assumption | rule keeps | rule keeps_val | (simp; fail) | (simp add: tid_def set_timer_def; fail))+

lemma keeps_expand_singly [keeps]: "keeps S net \<Longrightarrow> keeps S (snd (expand_singly k np need net))"
proof (induction k arbitrary: need net)
  case 0
  then show ?case unfolding expand_singly.simps Let_split by - (assumption | rule keeps | rule keeps_val | (simp; fail) | (simp add: tid_def set_timer_def; fail))+
next
  case (Suc k)
  note IH = Suc.IH
  show ?case using Suc.prems unfolding expand_singly.simps Let_split
    by - (assumption | rule IH | rule keeps | rule keeps_val | (simp; fail) | (simp add: tid_def set_timer_def; fail))+
qed

lemma keeps_m_expand [keeps]: "keeps S net \<Longrightarrow> keeps S (snd (m_expand net))"
  unfolding m_expand_def Let_split
  by (assumption | rule keeps | rule keeps_val | (simp; fail) | (simp add: tid_def set_timer_def; fail))+

lemma keeps_m_get [keeps]: "keeps S net \<Longrightarrow> keeps S (snd (m_get ty net))"
  unfolding m_get_def Let_split
  by (assumption | rule keeps | rule keeps_val | (simp; fail) | (simp add: tid_def set_timer_def; fail))+

lemma keeps_m_copy_loop [keeps]: "keeps S net \<Longrightarrow> keeps S (snd (m_copy_loop ms cpy net))"
proof (induction ms arbitrary: cpy net)
  case Nil
  then show ?case unfolding m_copy_loop.simps Let_split by - (assumption | rule keeps | rule keeps_val | (simp; fail) | (simp add: tid_def set_timer_def; fail))+
next
  case (Cons a b)
  note IH = Cons.IH
  show ?case using Cons.prems unfolding m_copy_loop.simps Let_split
    by - (assumption | rule IH | rule keeps | rule keeps_val | (simp; fail) | (simp add: tid_def set_timer_def; fail))+
qed

lemma keeps_m_copy [keeps]: "keeps S net \<Longrightarrow> keeps S (snd (m_copy ms net))"
  unfolding m_copy_def Let_split
  by (assumption | rule keeps | rule keeps_val | (simp; fail) | (simp add: tid_def set_timer_def; fail))+

lemma keeps_log_trim [keeps]: "keeps S net \<Longrightarrow> keeps S (log_trim ms net)"
proof (induction ms arbitrary: net)
  case Nil
  then show ?case unfolding log_trim.simps Let_split by - (assumption | rule keeps | rule keeps_val | (simp; fail) | (simp add: tid_def set_timer_def; fail))+
next
  case (Cons a b)
  note IH = Cons.IH
  show ?case using Cons.prems unfolding log_trim.simps Let_split
    by - (assumption | rule IH | rule keeps | rule keeps_val | (simp; fail) | (simp add: tid_def set_timer_def; fail))+
qed

lemma keeps_netlog [keeps]: "keeps S net \<Longrightarrow> keeps S (netlog ms net)"
  unfolding netlog_def Let_split
  by (assumption | rule keeps | rule keeps_val | (simp; fail) | (simp add: tid_def set_timer_def; fail))+

lemma keeps_to_user [keeps]: "keeps S net \<Longrightarrow> keeps S (to_user u s net)"
  unfolding to_user_def Let_split
  by (assumption | rule keeps | rule keeps_val | (simp; fail) | (simp add: tid_def set_timer_def; fail))+

lemma keeps_w_alloc [keeps]: "keeps S net \<Longrightarrow> keeps S (w_alloc ty sty tp d net)"
  unfolding w_alloc_def Let_split
  by (assumption | rule keeps | rule keeps_val | (simp; fail) | (simp add: tid_def set_timer_def; fail))+

section \<open>Hosts, interfaces and IP output\<close>

lemma keeps_h_make [keeps]: "keeps S net \<Longrightarrow> keeps S (snd (h_make np temp net))"
  unfolding h_make_def Let_split
  by (assumption | rule keeps | rule keeps_val | (simp; fail) | (simp add: tid_def set_timer_def; fail))+

lemma keeps_free_queue [keeps]: "keeps S net \<Longrightarrow> keeps S (free_queue ms net)"
proof (induction ms arbitrary: net)
  case Nil
  then show ?case unfolding free_queue.simps Let_split by - (assumption | rule keeps | rule keeps_val | (simp; fail) | (simp add: tid_def set_timer_def; fail))+
next
  case (Cons a b)
  note IH = Cons.IH
  show ?case using Cons.prems unfolding free_queue.simps Let_split
    by - (assumption | rule IH | rule keeps | rule keeps_val | (simp; fail) | (simp add: tid_def set_timer_def; fail))+
qed

lemma keeps_h_free [keeps]: "keeps S net \<Longrightarrow> keeps S (h_free hp net)"
  unfolding h_free_def Let_split
  by (assumption | rule keeps | rule keeps_val | (simp; fail) | (simp add: tid_def set_timer_def; fail))+

lemma keeps_h_free_opt [keeps]: "keeps S net \<Longrightarrow> keeps S (h_free_opt hp net)"
  unfolding h_free_opt_def Let_split
  by (assumption | rule keeps | rule keeps_val | (simp; fail) | (simp add: tid_def set_timer_def; fail))+

lemma keeps_if_enqueue [keeps]: "keeps S net \<Longrightarrow> keeps S (if_enqueue ip mp net)"
  unfolding if_enqueue_def Let_split
  by (assumption | rule keeps | rule keeps_val | (simp; fail) | (simp add: tid_def set_timer_def; fail))+

lemma keeps_imp_snd [keeps]: "keeps S net \<Longrightarrow> keeps S (snd (imp_snd mp ip ad len link asis net))"
  unfolding imp_snd_def Let_split
  by (assumption | rule keeps | rule keeps_val | (simp; fail) | (simp add: tid_def set_timer_def; fail))+

lemma keeps_vii_snd [keeps]: "keeps S net \<Longrightarrow> keeps S (snd (vii_snd mp ip ad len link asis net))"
  unfolding vii_snd_def Let_split
  by (assumption | rule keeps | rule keeps_val | (simp; fail) | (simp add: tid_def set_timer_def; fail))+

lemma keeps_if_send [keeps]: "keeps S net \<Longrightarrow> keeps S (snd (if_send mp ip ad len link asis net))"
  by (cases "if_kind (ifs net ip)") (simp_all add: if_send_def keeps)

lemma keeps_frag_last [keeps]: "keeps S net \<Longrightarrow> keeps S (snd (frag_last ip ap hlen asis p cur net))"
  unfolding frag_last_def Let_split
  by (assumption | rule keeps | rule keeps_val | (simp; fail) | (simp add: tid_def set_timer_def; fail))+

text \<open>The state in the result of a round of ip_frag.\<close>

fun step_net :: "frag_step \<Rightarrow> net" where
  "step_net (Frag_done ok net) = net"
| "step_net (Frag_more len off p cur net) = net"

lemma keeps_frag_round:
  assumes "keeps S net"
  shows "keeps S (step_net (frag_round ip ap hlen asis len off p cur net))"
proof -
  have "keeps S (snd (frag_last ip ap hlen asis p fr net'))" if "keeps S net'" for fr net'
    using that by (rule keeps)
  moreover have "keeps S (snd (m_get 1 net))" using assms by (rule keeps)
  ultimately show ?thesis using assms
    by (simp add: frag_round_def Let_def split_beta keeps)
qed

lemma keeps_ip_frag_loop [keeps]:
  "keeps S net \<Longrightarrow> keeps S (snd (ip_frag_loop fuel ip ap hlen asis len off p cur net))"
proof (induction fuel arbitrary: len off p cur net)
  case 0
  then show ?case by (simp add: keeps)
next
  case (Suc fuel)
  note r = keeps_frag_round [OF Suc.prems, of ip ap hlen asis len off p cur]
  show ?case
  proof (cases "frag_round ip ap hlen asis len off p cur net")
    case (Frag_done ok net')
    then show ?thesis using r Suc.prems by (simp add: keeps)
  next
    case (Frag_more len' off' p' cur' net')
    then have "keeps S net'" using r by simp
    then show ?thesis using Frag_more Suc.prems Suc.IH by (simp add: keeps)
  qed
qed

lemma keeps_ip_frag [keeps]: "keeps S net \<Longrightarrow> keeps S (snd (ip_frag mp p ip ap hlen asis net))"
  unfolding ip_frag_def Let_split
  by (assumption | rule keeps | rule keeps_val | (simp; fail) | (simp add: tid_def set_timer_def; fail))+

lemma keeps_ip_send [keeps]: "keeps S net \<Longrightarrow> keeps S (snd (snd (ip_send ip route mp proto len optlen options asis net)))"
  unfolding ip_send_def Let_split
  by (assumption | rule keeps | rule keeps_val | (simp; fail) | (simp add: tid_def set_timer_def; fail))+

lemma keeps_ip_send_up [keeps]: "keeps S net \<Longrightarrow> keeps S (snd (ip_send_up up mp proto len optlen options asis net))"
  unfolding ip_send_up_def Let_split
  by (assumption | rule keeps | rule keeps_val | (simp; fail) | (simp add: tid_def set_timer_def; fail))+

section \<open>TCP primitives\<close>

lemma keeps_tcp_debug [keeps]: "keeps S net \<Longrightarrow> keeps S (tcp_debug tp sty inp ns net)"
  unfolding tcp_debug_def Let_split
  by (assumption | rule keeps | rule keeps_val | (simp; fail) | (simp add: tid_def set_timer_def; fail))+

lemma keeps_send_pkt [keeps]: "keeps S net \<Longrightarrow> keeps S (snd (send_pkt tp flags len dat net))"
  unfolding send_pkt_def Let_split
  by (assumption | rule keeps | rule keeps_val | (simp; fail) | (simp add: tid_def set_timer_def; fail))+

lemma keeps_t_cancel [keeps]: "keeps S net \<Longrightarrow> keeps S (t_cancel tp timer net)"
  unfolding t_cancel_def Let_split
  by (assumption | rule keeps | rule keeps_val | (simp; fail) | (simp add: tid_def set_timer_def; fail))+

lemma keeps_snd_copy_loop [keeps]: "keeps S net \<Longrightarrow> keeps S (snd (snd_copy_loop e off dn n ms net))"
proof (induction ms arbitrary: off dn n net)
  case Nil
  then show ?case unfolding snd_copy_loop.simps Let_split by - (assumption | rule keeps | rule keeps_val | (simp; fail) | (simp add: tid_def set_timer_def; fail))+
next
  case (Cons a b)
  note IH = Cons.IH
  show ?case using Cons.prems unfolding snd_copy_loop.simps Let_split
    by - (assumption | rule IH | rule keeps | rule keeps_val | (simp; fail) | (simp add: tid_def set_timer_def; fail))+
qed

lemma keeps_snd_copy [keeps]: "keeps S net \<Longrightarrow> keeps S (snd (snd_copy tp sbuf start e net))"
  unfolding snd_copy_def Let_split
  by (assumption | rule keeps | rule keeps_val | (simp; fail) | (simp add: tid_def set_timer_def; fail))+

lemma keeps_t_open [keeps]: "keeps S net \<Longrightarrow> keeps S (t_open tp active net)"
  unfolding t_open_def Let_split
  by (assumption | rule keeps | rule keeps_val | (simp; fail) | (simp add: tid_def set_timer_def; fail))+

lemma keeps_freem_segs [keeps]: "keeps S net \<Longrightarrow> keeps S (freem_segs ts net)"
proof (induction ts arbitrary: net)
  case Nil
  then show ?case unfolding freem_segs.simps Let_split by - (assumption | rule keeps | rule keeps_val | (simp; fail) | (simp add: tid_def set_timer_def; fail))+
next
  case (Cons a b)
  note IH = Cons.IH
  show ?case using Cons.prems unfolding freem_segs.simps Let_split
    by - (assumption | rule IH | rule keeps | rule keeps_val | (simp; fail) | (simp add: tid_def set_timer_def; fail))+
qed

lemma keeps_t_close [keeps]: "keeps S net \<Longrightarrow> keeps S (t_close tp s net)"
  unfolding t_close_def Let_split
  by (assumption | rule keeps | rule keeps_val | (simp; fail) | (simp add: tid_def set_timer_def; fail))+

section \<open>Sending and acknowledgements\<close>

text \<open>The same calculus for a computation on one control block.\<close>

named_theorems tkeeps_rules

definition tkeeps :: "nat \<times> nat \<times> u16 \<Rightarrow> tcb \<Rightarrow> bool" where
  "tkeeps i c \<longleftrightarrow> tid c = i"

lemma tkeeps_let [tkeeps_rules]:
  "tkeeps i e \<Longrightarrow> (\<And>x. tkeeps i x \<Longrightarrow> tkeeps i (b x)) \<Longrightarrow> tkeeps i (Let e b)"
  "tkeeps i e \<Longrightarrow> (\<And>x. tkeeps i x \<Longrightarrow> tkeeps i (fst (c x))) \<Longrightarrow> tkeeps i (fst (Let e c))"
  by simp_all

lemma tkeeps_pair [tkeeps_rules]:
  "tkeeps i (fst e) \<Longrightarrow> (\<And>x y. tkeeps i x \<Longrightarrow> tkeeps i (fst (c x y))) \<Longrightarrow> tkeeps i (fst (case e of (x, y) \<Rightarrow> c x y))"
  by (simp add: split_beta)

lemma tkeeps_if [tkeeps_rules]:
  "tkeeps i a \<Longrightarrow> tkeeps i b \<Longrightarrow> tkeeps i (if c then a else b)"
  "tkeeps i (fst a1) \<Longrightarrow> tkeeps i (fst b1) \<Longrightarrow> tkeeps i (fst (if c then a1 else b1))"
  by simp_all

lemma tkeeps_fst [tkeeps_rules]: "tkeeps i x \<Longrightarrow> tkeeps i (fst (x, y))"
  by simp

lemma tkeeps_upd [tkeeps_rules]:
  "tkeeps i x \<Longrightarrow> tkeeps i (x\<lparr>snd_lst := v1\<rparr>)" "tkeeps i x \<Longrightarrow> tkeeps i (set_timer k v x)"
  "tkeeps i x \<Longrightarrow> tkeeps i (fst (take_fin (x, fl)))"
  by (simp_all add: tkeeps_def tid_def take_fin_def set_timer_def)

lemma tkeeps_let_val:
  "(\<And>x. tkeeps i (fst (c x))) \<Longrightarrow> tkeeps i (fst (Let (e :: 'a) c))"
  by simp

lemma tid_send_plan: "tid (fst (send_plan t sbuf)) = tid t"
proof -
  have "tkeeps (tid t) t" by (simp add: tkeeps_def)
  then have "tkeeps (tid t) (fst (send_plan t sbuf))"
    unfolding send_plan_def Let_split
    by - (assumption | rule tkeeps_rules | rule tkeeps_let_val)+
  then show ?thesis by (simp add: tkeeps_def)
qed

lemma tid_send_done [simp]: "tid (send_done forced sent t) = tid t"
  by (simp add: send_done_def Let_def tid_def set_timer_def)

lemma keeps_send_ctl [keeps]: "keeps S net \<Longrightarrow> keeps S (snd (send_ctl tp ctl net))"
  unfolding send_ctl_def Let_split
  by (assumption | rule keeps | rule keeps_val | (simp; fail) | (simp add: tid_def set_timer_def; fail))+

lemma keeps_send_tcp [keeps]:
  assumes "keeps S net"
  shows "keeps S (snd (send_tcp tp ctl net))"
proof -
  let ?t = "tcbs net tp" let ?sb = "uc_sbuf (ucbs net (t_ucb ?t))"
  obtain t' fl copy forced where p: "send_plan ?t ?sb = (t', fl, copy, forced)"
    by (cases "send_plan ?t ?sb")
  have "keeps S (upd_tcb tp (\<lambda>_. t') net)"
    using assms tid_send_plan [of ?t ?sb] p by (intro keeps_upd_tcb) simp_all
  then show ?thesis
    unfolding send_tcp_def p Let_split Let_def [of "tcbs net tp"] Let_def [of ?sb] prod.case
    by - (assumption | rule keeps | rule keeps_val | (simp; fail) | (simp add: tid_def; fail))+
qed

lemma keeps_ack_chain [keeps]: "keeps S net \<Longrightarrow> keeps S (snd (snd (ack_chain len ms net)))"
proof (induction ms arbitrary: len net)
  case Nil
  then show ?case unfolding ack_chain.simps Let_split by - (assumption | rule keeps | rule keeps_val | (simp; fail) | (simp add: tid_def set_timer_def; fail))+
next
  case (Cons a b)
  note IH = Cons.IH
  show ?case using Cons.prems unfolding ack_chain.simps Let_split
    by - (assumption | rule IH | rule keeps | rule keeps_val | (simp; fail) | (simp add: tid_def set_timer_def; fail))+
qed

lemma keeps_rcv_ack [keeps]: "keeps S net \<Longrightarrow> keeps S (rcv_ack tp n net)"
  unfolding rcv_ack_def Let_split
  by - (assumption | (rule keeps_upd_tcb, assumption, (simp add: tid_def; fail)) | rule keeps | rule keeps_val | (simp; fail) | (simp add: tid_def; fail))+

lemma keeps_rob_tail [keeps]: "keeps S net \<Longrightarrow> keeps S (snd (snd (rob_tail i j ps net)))"
proof (induction ps arbitrary: i net)
  case Nil
  then show ?case unfolding rob_tail.simps Let_split by - (assumption | rule keeps | rule keeps_val | (simp; fail) | (simp add: tid_def set_timer_def; fail))+
next
  case (Cons a b)
  note IH = Cons.IH
  show ?case using Cons.prems unfolding rob_tail.simps Let_split
    by - (assumption | rule IH | rule keeps | rule keeps_val | (simp; fail) | (simp add: tid_def set_timer_def; fail))+
qed

lemma keeps_recycle [keeps]: "keeps S net \<Longrightarrow> keeps S (recycle tp i ts net)"
proof (induction ts arbitrary: i net)
  case Nil
  then show ?case unfolding recycle.simps Let_split by - (assumption | rule keeps | rule keeps_val | (simp; fail) | (simp add: tid_def set_timer_def; fail))+
next
  case (Cons a b)
  note IH = Cons.IH
  show ?case using Cons.prems unfolding recycle.simps Let_split
    by - (assumption | rule IH | rule keeps | rule keeps_val | (simp; fail) | (simp add: tid_def set_timer_def; fail))+
qed

section \<open>Receiving\<close>

lemma keeps_text_room [keeps]: "keeps S net \<Longrightarrow> keeps S (snd (snd (snd (text_room tp t net))))"
  unfolding text_room_def Let_split
  by (assumption | rule keeps | rule keeps_val | (simp; fail) | (simp add: tid_def set_timer_def; fail))+

lemma keeps_rcv_text [keeps]: "keeps S net \<Longrightarrow> keeps S (snd (rcv_text tp t net))"
  unfolding rcv_text_def Let_split
  by (assumption | rule keeps | rule keeps_val | (simp; fail) | (simp add: tid_def set_timer_def; fail))+

lemma keeps_rcv_ctl [keeps]: "keeps S net \<Longrightarrow> keeps S (rcv_ctl tp n net)"
  unfolding rcv_ctl_def Let_split
  by (assumption | rule keeps | rule keeps_val | (simp; fail) | (simp add: tid_def set_timer_def; fail))+

lemma keeps_rcv_data [keeps]: "keeps S net \<Longrightarrow> keeps S (snd (rcv_data tp n net))"
  unfolding rcv_data_def Let_split
  by (assumption | rule keeps | rule keeps_val | (simp; fail) | (simp add: tid_def set_timer_def; fail))+

lemma keeps_rcv_fin [keeps]: "keeps S net \<Longrightarrow> keeps S (rcv_fin tp n net)"
  unfolding rcv_fin_def Let_split
  by (assumption | rule keeps | rule keeps_val | (simp; fail) | (simp add: tid_def set_timer_def; fail))+

lemma keeps_rcv_tcp [keeps]: "keeps S net \<Longrightarrow> keeps S (snd (rcv_tcp tp n ctl net))"
  unfolding rcv_tcp_def Let_split
  by (assumption | rule keeps | rule keeps_val | (simp; fail) | (simp add: tid_def set_timer_def; fail))+

lemma keeps_send_rst [keeps]: "keeps S net \<Longrightarrow> keeps S (send_rst tp n net)"
  unfolding send_rst_def Let_split
  by (assumption | rule keeps | rule keeps_val | (simp; fail) | (simp add: tid_def set_timer_def; fail))+

lemma keeps_strip_null [keeps]: "keeps S net \<Longrightarrow> keeps S (snd (strip_null ms net))"
proof (induction ms arbitrary: net)
  case Nil
  then show ?case unfolding strip_null.simps Let_split by - (assumption | rule keeps | rule keeps_val | (simp; fail) | (simp add: tid_def set_timer_def; fail))+
next
  case (Cons a b)
  note IH = Cons.IH
  show ?case using Cons.prems unfolding strip_null.simps Let_split
    by - (assumption | rule IH | rule keeps | rule keeps_val | (simp; fail) | (simp add: tid_def set_timer_def; fail))+
qed

lemma keeps_present_loop [keeps]: "keeps S net \<Longrightarrow> keeps S (snd (present_loop u ready ts net))"
proof (induction ts arbitrary: net)
  case Nil
  then show ?case unfolding present_loop.simps Let_split by - (assumption | rule keeps | rule keeps_val | (simp; fail) | (simp add: tid_def set_timer_def; fail))+
next
  case (Cons a b)
  note IH = Cons.IH
  show ?case using Cons.prems unfolding present_loop.simps Let_split
    by - (assumption | rule IH | rule keeps | rule keeps_val | (simp; fail) | (simp add: tid_def set_timer_def; fail))+
qed

lemma keeps_present_data [keeps]: "keeps S net \<Longrightarrow> keeps S (present_data tp net)"
  unfolding present_data_def Let_split
  by (assumption | rule keeps | rule keeps_val | (simp; fail) | (simp add: tid_def set_timer_def; fail))+

section \<open>The action routines\<close>

lemma keeps_start_finack [keeps]: "keeps S net \<Longrightarrow> keeps S (start_finack tp net)"
  unfolding start_finack_def Let_split
  by (assumption | rule keeps | rule keeps_val | (simp; fail) | (simp add: tid_def set_timer_def; fail))+

lemma keeps_lis_cls [keeps]: "keeps S net \<Longrightarrow> keeps S (snd (snd (lis_cls tp d net)))"
  unfolding lis_cls_def Let_split
  by (assumption | rule keeps | rule keeps_val | (simp; fail) | (simp add: tid_def set_timer_def; fail))+

lemma keeps_sys_cls [keeps]: "keeps S net \<Longrightarrow> keeps S (snd (snd (sys_cls tp d net)))"
  unfolding sys_cls_def Let_split
  by (assumption | rule keeps | rule keeps_val | (simp; fail) | (simp add: tid_def set_timer_def; fail))+

lemma keeps_cls_opn [keeps]: "keeps S net \<Longrightarrow> keeps S (snd (snd (cls_opn tp d net)))"
  unfolding cls_opn_def Let_split
  by (assumption | rule keeps | rule keeps_val | (simp; fail) | (simp add: tid_def set_timer_def; fail))+

lemma keeps_cl2_clw [keeps]: "keeps S net \<Longrightarrow> keeps S (snd (snd (cl2_clw tp d net)))"
  unfolding cl2_clw_def Let_split
  by (assumption | rule keeps | rule keeps_val | (simp; fail) | (simp add: tid_def set_timer_def; fail))+

lemma keeps_cls_rwt [keeps]: "keeps S net \<Longrightarrow> keeps S (snd (snd (cls_rwt tp d net)))"
  unfolding cls_rwt_def Let_split
  by (assumption | rule keeps | rule keeps_val | (simp; fail) | (simp add: tid_def set_timer_def; fail))+

lemma keeps_fw1_syr [keeps]: "keeps S net \<Longrightarrow> keeps S (snd (snd (fw1_syr tp d net)))"
  unfolding fw1_syr_def Let_split
  by (assumption | rule keeps | rule keeps_val | (simp; fail) | (simp add: tid_def set_timer_def; fail))+

lemma keeps_sss_syn [keeps]: "keeps S net \<Longrightarrow> keeps S (snd (snd (sss_syn tp d net)))"
  unfolding sss_syn_def Let_split
  by (assumption | rule keeps | rule keeps_val | (simp; fail) | (simp add: tid_def set_timer_def; fail))+

lemma keeps_sss_rcv [keeps]: "keeps S net \<Longrightarrow> keeps S (snd (snd (sss_rcv tp d net)))"
  unfolding sss_rcv_def Let_split
  by (assumption | rule keeps | rule keeps_val | (simp; fail) | (simp add: tid_def set_timer_def; fail))+

lemma keeps_cls_nsy [keeps]: "keeps S net \<Longrightarrow> keeps S (snd (snd (cls_nsy tp d net)))"
  unfolding cls_nsy_def Let_split
  by (assumption | rule keeps | rule keeps_val | (simp; fail) | (simp add: tid_def set_timer_def; fail))+

lemma keeps_cls_syn [keeps]: "keeps S net \<Longrightarrow> keeps S (snd (snd (cls_syn tp d net)))"
  unfolding cls_syn_def Let_split
  by (assumption | rule keeps | rule keeps_val | (simp; fail) | (simp add: tid_def set_timer_def; fail))+

lemma keeps_cls_act [keeps]: "keeps S net \<Longrightarrow> keeps S (snd (snd (cls_act tp d net)))"
  unfolding cls_act_def Let_split
  by (assumption | rule keeps | rule keeps_val | (simp; fail) | (simp add: tid_def set_timer_def; fail))+

lemma keeps_cls_err [keeps]: "keeps S net \<Longrightarrow> keeps S (snd (snd (cls_err tp d net)))"
  unfolding cls_err_def Let_split
  by (assumption | rule keeps | rule keeps_val | (simp; fail) | (simp add: tid_def set_timer_def; fail))+

lemma keeps_lis_netr [keeps]: "keeps S net \<Longrightarrow> keeps S (snd (snd (lis_netr tp d net)))"
  unfolding lis_netr_def Let_split
  by (assumption | rule keeps | rule keeps_val | (simp; fail) | (simp add: tid_def set_timer_def; fail))+

lemma keeps_sys_netr [keeps]: "keeps S net \<Longrightarrow> keeps S (snd (snd (sys_netr tp d net)))"
  unfolding sys_netr_def Let_split
  by (assumption | rule keeps | rule keeps_val | (simp; fail) | (simp add: tid_def set_timer_def; fail))+

lemma keeps_cl1_netr [keeps]: "keeps S net \<Longrightarrow> keeps S (snd (snd (cl1_netr tp d net)))"
  unfolding cl1_netr_def Let_split
  by (assumption | rule keeps | rule keeps_val | (simp; fail) | (simp add: tid_def set_timer_def; fail))+

lemma keeps_cl2_netr [keeps]: "keeps S net \<Longrightarrow> keeps S (snd (snd (cl2_netr tp d net)))"
  unfolding cl2_netr_def Let_split
  by (assumption | rule keeps | rule keeps_val | (simp; fail) | (simp add: tid_def set_timer_def; fail))+

lemma keeps_fw1_netr [keeps]: "keeps S net \<Longrightarrow> keeps S (snd (snd (fw1_netr tp d net)))"
  unfolding fw1_netr_def Let_split
  by (assumption | rule keeps | rule keeps_val | (simp; fail) | (simp add: tid_def set_timer_def; fail))+

lemma keeps_syr_netr [keeps]: "keeps S net \<Longrightarrow> keeps S (snd (snd (syr_netr tp d net)))"
  unfolding syr_netr_def Let_split
  by (assumption | rule keeps | rule keeps_val | (simp; fail) | (simp add: tid_def set_timer_def; fail))+

lemma keeps_est_netr [keeps]: "keeps S net \<Longrightarrow> keeps S (snd (snd (est_netr tp d net)))"
  unfolding est_netr_def Let_split
  by (assumption | rule keeps | rule keeps_val | (simp; fail) | (simp add: tid_def set_timer_def; fail))+

lemma keeps_fw2_netr [keeps]: "keeps S net \<Longrightarrow> keeps S (snd (snd (fw2_netr tp d net)))"
  unfolding fw2_netr_def Let_split
  by (assumption | rule keeps | rule keeps_val | (simp; fail) | (simp add: tid_def set_timer_def; fail))+

lemma keeps_cwt_netr [keeps]: "keeps S net \<Longrightarrow> keeps S (snd (snd (cwt_netr tp d net)))"
  unfolding cwt_netr_def Let_split
  by (assumption | rule keeps | rule keeps_val | (simp; fail) | (simp add: tid_def set_timer_def; fail))+

lemma keeps_rwt_netr [keeps]: "keeps S net \<Longrightarrow> keeps S (snd (snd (rwt_netr tp d net)))"
  unfolding rwt_netr_def Let_split
  by (assumption | rule keeps | rule keeps_val | (simp; fail) | (simp add: tid_def set_timer_def; fail))+

lemma keeps_consolidate [keeps]: "keeps S net \<Longrightarrow> keeps S (snd (snd (snd (consolidate m off ns net))))"
proof (induction ns arbitrary: m off net)
  case Nil
  then show ?case unfolding consolidate.simps Let_split by - (assumption | rule keeps | rule keeps_val | (simp; fail) | (simp add: tid_def set_timer_def; fail))+
next
  case (Cons a b)
  note IH = Cons.IH
  show ?case using Cons.prems unfolding consolidate.simps Let_split
    by - (assumption | rule IH | rule keeps | rule keeps_val | (simp; fail) | (simp add: tid_def set_timer_def; fail))+
qed

lemma keeps_snd_append [keeps]: "keeps S net \<Longrightarrow> keeps S (snd (snd (snd_append sbuf dat net)))"
  unfolding snd_append_def Let_split
  by (assumption | rule keeps | rule keeps_val | (simp; fail) | (simp add: tid_def set_timer_def; fail))+

lemma keeps_sss_snd [keeps]: "keeps S net \<Longrightarrow> keeps S (snd (snd (sss_snd tp d net)))"
  unfolding sss_snd_def Let_split
  by (assumption | rule keeps | rule keeps_val | (simp; fail) | (simp add: tid_def set_timer_def; fail))+

lemma keeps_timers [keeps]: "keeps S net \<Longrightarrow> keeps S (snd (snd (timers ty tp d net)))"
  unfolding timers_def Let_split
  by (assumption | rule keeps | rule keeps_val | (simp; fail) | (simp add: tid_def set_timer_def; fail))+

lemma keeps_fsactab [keeps]: "keeps S net \<Longrightarrow> keeps S (snd (snd (fsactab act sty tp d net)))"
  unfolding fsactab_def Let_split
  by (assumption | rule keeps | rule keeps_val | (simp; fail) | (simp add: tid_def set_timer_def; fail))+

lemma keeps_netprepr [keeps]: "keeps S net \<Longrightarrow> keeps S (snd (netprepr tp n net))"
  unfolding netprepr_def Let_split
  by (assumption | rule keeps | rule keeps_val | (simp; fail) | (simp add: tid_def set_timer_def; fail))+

end
