(* ===== verification/Tcp_Machine.thy ===== *)
theory Tcp_Machine
  imports Tcp_Frame
begin

text \<open>
  The finite state machine as a step relation: \<open>conn_step\<close> is the state diagram of a TCP
  connection, and every change of state that the input process makes, whatever it receives, follows
  an arrow of the diagram.
\<close>

section \<open>The diagram\<close>

inductive conn_step :: "nat \<Rightarrow> nat \<Rightarrow> bool" where
  open_passive: "s \<in> {0, CLOSED} \<Longrightarrow> conn_step s LISTEN"
| open_active: "s \<in> {0, CLOSED} \<Longrightarrow> conn_step s SYN_SENT"
| listen_syn: "conn_step LISTEN L_SYN_RCVD"
| listen_rst: "conn_step L_SYN_RCVD LISTEN"
| simultaneous: "conn_step SYN_SENT SYN_RCVD"
| established: "s \<in> {SYN_SENT, SYN_RCVD, L_SYN_RCVD} \<Longrightarrow> conn_step s ESTAB"
| peer_fin: "s \<in> {LISTEN, SYN_SENT, SYN_RCVD, L_SYN_RCVD, ESTAB} \<Longrightarrow> conn_step s CLOSE_WAIT"
| user_close: "s \<in> {SYN_RCVD, L_SYN_RCVD, ESTAB} \<Longrightarrow> conn_step s FIN_W1"
| fin_acked: "conn_step FIN_W1 FIN_W2"
| both_closing: "conn_step FIN_W1 CLOSING1"
| time_wait: "s \<in> {FIN_W1, FIN_W2, CLOSING1} \<Longrightarrow> conn_step s TIME_WAIT"
| close_wait: "conn_step CLOSE_WAIT CLOSING2"
| unread: "s \<in> {CLOSING1, CLOSING2, TIME_WAIT} \<Longrightarrow> conn_step s RCV_WAIT"
| closed: "conn_step s CLOSED"

definition state_ok :: "nat \<Rightarrow> bool" where
  "state_ok s \<longleftrightarrow> s \<le> CLOSED"

inductive_simps conn_step_simps: "conn_step s s'"

lemma conn_step_ok: "conn_step s s' \<Longrightarrow> state_ok s'"
  by (induction rule: conn_step.induct) (simp_all add: state_ok_def net_simps)

section \<open>The results of the action routines\<close>

named_theorems res_rules

lemma res_let [res_rules]: "(\<And>x. x = (e :: 'a) \<Longrightarrow> fst (b x) \<in> A) \<Longrightarrow> fst (Let e b) \<in> A"
  by simp

lemma res_pair [res_rules]:
  "(\<And>x y. fst (b x y) \<in> A) \<Longrightarrow> fst (case (e :: 'a \<times> 'b) of (x, y) \<Rightarrow> b x y) \<in> A"
  by (simp add: split_beta)

lemma res_if [res_rules]:
  "(c \<Longrightarrow> fst a \<in> A) \<Longrightarrow> (\<not> c \<Longrightarrow> fst b \<in> A) \<Longrightarrow> fst (if c then a else b) \<in> A"
  by simp

lemma res_option [res_rules]:
  "fst a \<in> A \<Longrightarrow> (\<And>x. fst (b x) \<in> A) \<Longrightarrow> fst (case e of None \<Rightarrow> a | Some x \<Rightarrow> b x) \<in> A"
  by (simp split: option.split)

lemma res_requests:
  "fst (lis_cls tp d net) \<in> {LISTEN}" "fst (sys_cls tp d net) \<in> {SYN_SENT}"
  "fst (cls_opn tp d net) \<in> {CLOSED}" "fst (cl2_clw tp d net) \<in> {CLOSING2}"
  "fst (cls_rwt tp d net) \<in> {CLOSED, RCV_WAIT}" "fst (fw1_syr tp d net) \<in> {FIN_W1}"
  "fst (sss_syn tp d net) \<in> {SAME}" "fst (sss_rcv tp d net) \<in> {SAME}" "fst (sss_snd tp d net) \<in> {SAME}"
  "fst (cls_nsy tp d net) \<in> {CLOSED}" "fst (cls_syn tp d net) \<in> {CLOSED}"
  "fst (cls_act tp d net) \<in> {CLOSED}" "fst (cls_err tp d net) \<in> {SAME}"
  unfolding lis_cls_def sys_cls_def cls_opn_def cl2_clw_def cls_rwt_def fw1_syr_def sss_syn_def
    sss_rcv_def sss_snd_def cls_nsy_def cls_syn_def cls_act_def cls_err_def Let_split
  by (rule res_rules | (simp; fail))+

lemma res_netr:
  "fst (lis_netr tp d net) \<in> {CLOSED, L_SYN_RCVD, CLOSE_WAIT}"
  "fst (sys_netr tp d net) \<in> {CLOSE_WAIT, ESTAB, SYN_RCVD}"
  "fst (cl1_netr tp d net) \<in> {TIME_WAIT, CLOSED, RCV_WAIT, SAME}"
  "fst (cl2_netr tp d net) \<in> {CLOSED, RCV_WAIT, SAME}"
  "fst (fw1_netr tp d net) \<in> {TIME_WAIT, FIN_W2, CLOSING1, SAME}"
  "fst (syr_netr tp d net) \<in> {CLOSE_WAIT, ESTAB}" "fst (est_netr tp d net) \<in> {CLOSE_WAIT, SAME}"
  "fst (fw2_netr tp d net) \<in> {TIME_WAIT, SAME}" "fst (cwt_netr tp d net) \<in> {SAME}"
  "fst (rwt_netr tp d net) \<in> {SAME}"
  unfolding lis_netr_def sys_netr_def cl1_netr_def cl2_netr_def fw1_netr_def syr_netr_def est_netr_def
    fw2_netr_def cwt_netr_def rwt_netr_def Let_split
  by (rule res_rules | (simp; fail))+

lemma res_timers:
  "fst (timers ty tp d net) \<in> {CLOSED, SAME} \<union> (if t_state (tcbs net tp) = TIME_WAIT then {RCV_WAIT} else {})"
  unfolding timers_def Let_split
  by (rule res_rules | (simp; fail))+

section \<open>One event\<close>

text \<open>The row of the table holds, for a state and an event, an action whose results are arrows.\<close>

lemma table_row:
  assumes "state_ok s" "0 < input" "input < INOP"
  shows "s \<in> set [0..<14] \<and> input \<in> set [1..<10]"
  using assms by (auto simp: state_ok_def net_simps)

definition results :: "nat \<Rightarrow> nat \<Rightarrow> nat set" where
  "results act s =
    (if act = 1 then {LISTEN}
     else if act = 2 then {CLOSED, L_SYN_RCVD, CLOSE_WAIT}
     else if act = 3 then {CLOSE_WAIT, ESTAB}
     else if act = 4 then {SYN_SENT}
     else if act = 5 then {CLOSE_WAIT, ESTAB, SYN_RCVD}
     else if act = 6 then {CLOSED}
     else if act = 7 then {CLOSE_WAIT, SAME}
     else if act = 8 then {CLOSING2}
     else if act = 9 then {CLOSED, SAME} \<union> (if s = TIME_WAIT then {RCV_WAIT} else {})
     else if act = 10 then {TIME_WAIT, CLOSED, RCV_WAIT, SAME}
     else if act = 11 then {CLOSED, RCV_WAIT, SAME}
     else if act = 12 then {CLOSED, RCV_WAIT}
     else if act = 13 then {SAME}
     else if act = 14 then {FIN_W1}
     else if act = 15 then {TIME_WAIT, FIN_W2, CLOSING1, SAME}
     else if act = 16 then {TIME_WAIT, SAME}
     else if act = 17 then {SAME}
     else if act = 18 then {SAME}
     else if act = 19 then {SAME}
     else if act = 20 then {SAME}
     else if act = 21 then {CLOSED}
     else if act = 22 then {CLOSED}
     else if act = 23 then {CLOSED}
     else if act = 25 then {SAME}
     else {SAME})"

lemma res_par:
  "fst a \<in> A \<Longrightarrow> fst b \<in> B \<Longrightarrow> fst (if c then a else b) \<in> (if c then A else B)"
  by simp

lemma fsactab_results: "fst (fsactab act sty tp d net) \<in> results act (t_state (tcbs net tp))"
  unfolding fsactab_def results_def by (rule res_par res_requests res_netr res_timers | (simp; fail))+

lemma table_arrows:
  "\<forall>s\<in>set [0..<14]. \<forall>input\<in>set [1..<10]. \<forall>r\<in>results (fstab ! s ! input) s. r = SAME \<or> r = s \<or> conn_step s r"
  unfolding conn_step_simps
  by (simp add: upt_conv_Cons fstab_def results_def net_simps)

lemma st_fst: "fst (st net t) = t_state (tcbs net t)"
  by (simp add: st_def)

lemma keepsD: "keeps (st net) net' \<Longrightarrow> t_state (tcbs net' t) = t_state (tcbs net t)"
  by (auto simp: keeps_def st_def dest: fun_cong)

lemma keeps_refl: "keeps (st net) net"
  by (simp add: keeps_def)

text \<open>\<open>moves P net net'\<close>: only the connections in \<open>P\<close> change state, by one arrow.\<close>

definition moves :: "(nat \<Rightarrow> bool) \<Rightarrow> net \<Rightarrow> net \<Rightarrow> bool" where
  "moves P net net' \<longleftrightarrow>
    (\<forall>t. t_state (tcbs net' t) = t_state (tcbs net t)
       \<or> P t \<and> conn_step (t_state (tcbs net t)) (t_state (tcbs net' t)))"

lemma moves_keeps: "keeps (st net) net' \<Longrightarrow> moves P net net'"
  by (simp add: moves_def keepsD)

lemma t_state_upd:
  "t_state (tcbs (upd_tcb tp (t_state_update (\<lambda>_. s)) net) t) = (if t = tp then s else t_state (tcbs net t))"
  by (simp add: upd_tcb_def)

lemma action_keeps:
  fixes wp input net
  defines "net1 \<equiv> upd_tcb (w_tcb wp) (net_keep_update (\<lambda>_. False)) net"
  defines "res \<equiv> fsactab (fstab ! t_state (tcbs net (w_tcb wp)) ! input) (w_stype wp) (w_tcb wp) (w_dat wp) net1"
  shows "\<exists>net2. keeps (st net) net2 \<and>
     (fstab ! t_state (tcbs net (w_tcb wp)) ! input = 0 \<and> keeps (st net) (action wp input net)
      \<or> fst res = SAME \<and> keeps (st net) (action wp input net)
      \<or> fst res \<noteq> SAME \<and> keeps (st (upd_tcb (w_tcb wp) (t_state_update (\<lambda>_. fst res)) net2)) (action wp input net))"
proof -
  let ?tp = "w_tcb wp" let ?act = "fstab ! t_state (tcbs net ?tp) ! input"
  have k1: "keeps (st net) net1"
    unfolding net1_def by (rule keeps_upd_tcb_same [OF keeps_refl]) (simp add: tid_def)
  obtain s' d net' where res: "res = (s', d, net')" by (cases res)
  have k2: "keeps (st net) net'"
    using keeps_fsactab [OF k1, of ?act "w_stype wp" ?tp "w_dat wp"] res unfolding res_def by simp
  define net2 where "net2 = (if has (uc_flags (ucbs net' (t_ucb (tcbs net' ?tp)))) UDEBUG
       then tcp_debug ?tp (w_stype wp) input (int s') net' else net')"
  have k3: "keeps (st net) net2"
    unfolding net2_def using k2 by (simp add: keeps)
  show ?thesis
  proof (intro exI [of _ net2] conjI k3, cases "?act = 0")
    case True
    have "keeps (st net) (action wp input net)"
      unfolding action_def Let_def using True keeps_refl [of net] by (simp add: keeps)
    then show "?act = 0 \<and> keeps (st net) (action wp input net)
      \<or> fst res = SAME \<and> keeps (st net) (action wp input net)
      \<or> fst res \<noteq> SAME \<and> keeps (st (upd_tcb ?tp (t_state_update (\<lambda>_. fst res)) net2)) (action wp input net)"
      using True by blast
  next
    case False
    define net3 where "net3 = (if s' \<noteq> SAME then upd_tcb ?tp (t_state_update (\<lambda>_. s')) net2 else net2)"
    have a: "action wp input net =
       (if w_dat wp \<noteq> NoDat \<and> \<not> net_keep (tcbs net3 ?tp) \<and> input = INRECV
        then freem (wdat_chain d) net3 else net3)"
      using False res unfolding action_def Let_def res_def net1_def [symmetric] net3_def net2_def
      by simp
    have k4: "keeps (st net3) (action wp input net)"
      unfolding a using keeps_refl [of net3] by (simp add: keeps)
    show "?act = 0 \<and> keeps (st net) (action wp input net)
      \<or> fst res = SAME \<and> keeps (st net) (action wp input net)
      \<or> fst res \<noteq> SAME \<and> keeps (st (upd_tcb ?tp (t_state_update (\<lambda>_. fst res)) net2)) (action wp input net)"
    proof (cases "s' = SAME")
      case True
      then have "st net3 = st net" using k3 by (simp add: net3_def keeps_def)
      then show ?thesis using k4 True res by simp
    next
      case False
      then show ?thesis using k4 res by (simp add: net3_def)
    qed
  qed
qed

lemma action_moves:
  assumes s: "state_ok (t_state (tcbs net (w_tcb wp)))" and i: "0 < input" "input < INOP"
  shows "moves (\<lambda>t. t = w_tcb wp) net (action wp input net)"
proof -
  let ?tp = "w_tcb wp" let ?s = "t_state (tcbs net ?tp)" let ?act = "fstab ! ?s ! input"
  let ?net1 = "upd_tcb ?tp (net_keep_update (\<lambda>_. False)) net"
  let ?r = "fst (fsactab ?act (w_stype wp) ?tp (w_dat wp) ?net1)"
  have "t_state (tcbs ?net1 ?tp) = ?s" by (simp add: upd_tcb_def)
  then have r: "?r = SAME \<or> ?r = ?s \<or> conn_step ?s ?r"
    using fsactab_results [of ?act "w_stype wp" ?tp "w_dat wp" ?net1] table_arrows table_row [OF s i]
    by fastforce
  obtain net2 where net2: "keeps (st net) net2"
    and cs: "?act = 0 \<and> keeps (st net) (action wp input net)
      \<or> ?r = SAME \<and> keeps (st net) (action wp input net)
      \<or> ?r \<noteq> SAME \<and> keeps (st (upd_tcb ?tp (t_state_update (\<lambda>_. ?r)) net2)) (action wp input net)"
    using action_keeps [of net wp input] by blast
  show ?thesis
  proof (cases "keeps (st net) (action wp input net)")
    case False
    then have ne: "?r \<noteq> SAME"
      and k: "keeps (st (upd_tcb ?tp (t_state_update (\<lambda>_. ?r)) net2)) (action wp input net)"
      using cs by auto
    show ?thesis unfolding moves_def
      using r ne keepsD [OF k] keepsD [OF net2] by (auto simp: t_state_upd)
  qed (rule moves_keeps)
qed

section \<open>Runs\<close>

declare work_loop.simps [simp del]

abbreviation follows :: "(nat \<Rightarrow> nat) \<Rightarrow> net \<Rightarrow> bool" where
  "follows N \<equiv> sat (\<lambda>net. \<forall>t. state_ok (N t) \<and> conn_step\<^sup>*\<^sup>* (N t) (t_state (tcbs net t)))"

lemma followsD:
  assumes "follows N net"
  shows "state_ok (N t)" "conn_step\<^sup>*\<^sup>* (N t) (t_state (tcbs net t))" "state_ok (t_state (tcbs net t))"
proof -
  show 1: "state_ok (N t)" and 2: "conn_step\<^sup>*\<^sup>* (N t) (t_state (tcbs net t))"
    using assms by (auto simp: sat_def)
  show "state_ok (t_state (tcbs net t))"
    using 2 1 by (cases rule: rtranclp.cases) (auto dest: conn_step_ok)
qed

lemma follows_moves:
  assumes "follows N net" "moves P net net'"
  shows "follows N net'"
  unfolding sat_def
proof (intro allI conjI)
  fix t
  show "state_ok (N t)" by (rule followsD [OF assms(1)])
  have "conn_step\<^sup>*\<^sup>* (N t) (t_state (tcbs net t))" by (rule followsD [OF assms(1)])
  then show "conn_step\<^sup>*\<^sup>* (N t) (t_state (tcbs net' t))"
    using assms(2) unfolding moves_def by (metis rtranclp.rtrancl_into_rtrancl)
qed

lemma follows_frame: "follows N net \<Longrightarrow> keeps (st net) net' \<Longrightarrow> follows N net'"
  by (rule follows_moves, assumption, rule moves_keeps)

lemma follows_action:
  "follows N net \<Longrightarrow> 0 < input \<Longrightarrow> input < INOP \<Longrightarrow> follows N (action wp input net)"
  by (rule follows_moves, assumption, rule action_moves, rule followsD(3), assumption+)

lemma follows_work_loop: "follows N net \<Longrightarrow> follows N (work_loop fuel net)"
proof (induction fuel arbitrary: net)
  case 0
  have "keeps (st net) (panic ''hang'' net)" by (rule keeps, rule keeps_refl)
  with 0 show ?case by (subst work_loop.simps) (auto split: list.splits intro: follows_frame)
next
  case (Suc fuel)
  show ?case
  proof (cases "n_work net")
    case (Cons p w)
    let ?net = "if 0 < w_type p \<and> w_type p < INOP then action p (w_type p) net else net"
    have "follows N ?net" using Suc.prems by (simp add: follows_action)
    moreover have "keeps (st ?net) (?net\<lparr>n_work := tl (n_work ?net)\<rparr>)"
      by (rule keeps, rule keeps_refl)
    ultimately have "follows N (?net\<lparr>n_work := tl (n_work ?net)\<rparr>)" by (rule follows_frame)
    then show ?thesis using Suc.IH Cons by (subst work_loop.simps) (simp add: Let_def)
  qed (use Suc.prems in \<open>simp add: work_loop.simps [of "Suc fuel"]\<close>)
qed

lemma follows_run_work: "follows N net \<Longrightarrow> follows N (run_work net)"
  unfolding run_work_def
  by (rule follows_frame, rule follows_work_loop, assumption, rule keeps, rule keeps_refl)

lemma res_netprepr:
  "fst (netprepr tp n net) \<in> {-1, 0, int CLOSED}
     \<union> (if t_state (tcbs net tp) = L_SYN_RCVD then {int LISTEN} else {})"
  unfolding netprepr_def Let_split by (rule res_rules | (simp; fail))+

lemma keeps_tcp_opt:
  "tcp_opt tp t m hdr hlen net = Some net' \<Longrightarrow> keeps (st net) net'"
  by (auto simp: tcp_opt_def Let_def intro!: keeps_upd_tcb_same keeps_refl) (simp_all add: tid_def)

lemma follows_deliver:
  assumes "follows N net"
  shows "follows N (tcp_deliver t n p hlen mp net)"
proof (cases "if hlen > TCPSIZE then tcp_opt t n (hd mp) p hlen net else Some net")
  case None
  have "keeps (st net) (panic ''hang'' net)" by (rule keeps, rule keeps_refl)
  then show ?thesis using None assms unfolding tcp_deliver_def by (auto intro: follows_frame)
next
  case (Some net1)
  have "keeps (st net) net1" using Some keeps_tcp_opt keeps_refl by (auto split: if_splits)
  with assms have f1: "follows N net1" by (rule follows_frame)
  obtain i net2 where i: "netprepr t n net1 = (i, net2)" by (cases "netprepr t n net1")
  have k2: "keeps (st net1) net2" using keeps_netprepr [OF keeps_refl [of net1], where tp = t and n = n] i by simp
  with f1 have f2: "follows N net2" by (rule follows_frame)
  show ?thesis
  proof (cases "i = 0")
    case True
    let ?n = "n\<lparr>t_m := upd_hd (pull_hdr (hlen + IPSIZE)) mp\<rparr>"
    have "follows N (action w INRECV net2)" for w
      by (rule follows_action [OF f2]) (simp_all add: net_simps)
    moreover have "follows N (upd_tcb t (\<lambda>c. c\<lparr>t_rcv_unack := t_rcv_unack c @ [n]\<rparr>) net2)"
      by (rule follows_frame [OF f2], rule keeps_upd_tcb_same [OF keeps_refl]) (simp add: tid_def)
    ultimately show ?thesis using Some i True by (simp add: tcp_deliver_def Let_def)
  next
    case False
    let ?net3 = "freem mp net2"
    have k3: "keeps (st net2) ?net3" by (rule keeps, rule keeps_refl)
    have f3: "follows N ?net3" by (rule follows_frame [OF f2 k3])
    have s: "t_state (tcbs ?net3 t) = t_state (tcbs net1 t)"
      using keepsD [OF k3] keepsD [OF k2] by simp
    have m: "moves (\<lambda>x. x = t) ?net3 (upd_tcb t (t_state_update (\<lambda>_. nat i)) ?net3)" if "i \<noteq> -1"
    proof -
      have "i = int CLOSED \<or> i = int LISTEN \<and> t_state (tcbs net1 t) = L_SYN_RCVD"
        using res_netprepr [of t n net1] i that False by (auto split: if_splits)
      then have "conn_step (t_state (tcbs ?net3 t)) (nat i)"
        unfolding s by (auto intro: conn_step.intros)
      then show ?thesis by (auto simp: moves_def t_state_upd)
    qed
    show ?thesis using Some i False f3 follows_moves [OF f3 m] by (simp add: tcp_deliver_def Let_def)
  qed
qed

section \<open>Input of a segment\<close>

named_theorems follows_ops

declare follows_run_work [follows_ops] follows_deliver [follows_ops]

lemma keeps_tcp_reject [keeps]: "keeps S net \<Longrightarrow> keeps S (tcp_reject ifp p dlen mp net)"
  unfolding tcp_reject_def Let_split Let_fun
  by - (assumption | rule keeps | rule keeps_val | (simp; fail) | (simp add: tid_def set_timer_def; fail))+

lemma follows_tcp_segment [follows_ops]: "follows N net \<Longrightarrow> follows N (snd (tcp_segment mp ifp net))"
  unfolding tcp_segment_def Let_split Let_fun
  by - (assumption | rule follows_ops | rule keeps | rule keeps_val | (rule follows_frame, assumption, ((assumption | rule keeps | rule keeps_val | rule keeps_refl | (simp; fail) | (simp add: tid_def; fail))+; fail)))+

lemma follows_tcp_input [follows_ops]: "follows N net \<Longrightarrow> follows N (tcp_input dgram ifp net)"
  unfolding tcp_input_def Let_split Let_fun
  by - (assumption | rule follows_ops | rule keeps | rule keeps_val | (rule follows_frame, assumption, ((assumption | rule keeps | rule keeps_val | rule keeps_refl | (simp; fail) | (simp add: tid_def; fail))+; fail)))+

text \<open>C9: one event of the finite state machine (action: table lookup, action routine, new state)
  leaves the state of every other connection alone and moves its own connection along at most one
  arrow of the TCP state diagram, whatever the segment, request or timer and whatever the action
  routines do meanwhile.\<close>

theorem action_step:
  assumes "state_ok (t_state (tcbs net (w_tcb wp)))" "0 < input" "input < INOP"
  shows "(\<forall>t. t \<noteq> w_tcb wp \<longrightarrow> t_state (tcbs (action wp input net) t) = t_state (tcbs net t))
    \<and> (let s = t_state (tcbs net (w_tcb wp)); s' = t_state (tcbs (action wp input net) (w_tcb wp))
       in s' = s \<or> conn_step s s')"
  using action_moves [OF assms] by (auto simp: moves_def Let_def)

definition open_work :: work where
  "open_work = \<lparr>w_type = IUOPENA, w_stype = 0, w_tcb = 3, w_dat = NoDat\<rparr>"

theorem action_step_witness:
  "t_state (tcbs net0 3) = CLOSED \<and> t_state (tcbs (action open_work IUOPENA net0) 3) = LISTEN
   \<and> conn_step CLOSED LISTEN \<and> t_state (tcbs (action open_work IUOPENA net0) 4) = CLOSED"
proof -
  have s: "t_state (tcbs net0 t) = CLOSED" for t by (simp add: net0_def tcb0_def)
  have "state_ok (t_state (tcbs net0 (w_tcb open_work)))" by (simp add: s state_ok_def)
  note A = action_step [OF this, of IUOPENA]
  have r: "t_state (tcbs (action open_work IUOPENA net0) 3) = LISTEN"
    by (simp add: action_def Let_def open_work_def fstab_def fsactab_def lis_cls_def t_open_def upd_tcb_def
        upd_ucb_def set_timer_def net0_def tcb0_def ucb0_def if0_def net_simps has_def)
  show ?thesis
    using A r s by (simp add: net_simps open_work_def Let_def conn_step.open_passive)
qed

end
