(* ===== verification/Net_Moves.thy ===== *)
theory Net_Moves
  imports Netmain Tcp_Machine
begin

text \<open>
  The state diagram of Tcp_Machine for the whole input process: nothing that netmain does, on any
  message of any interface and any protocol, changes the state of a connection otherwise than along
  an arrow of the diagram.
\<close>

section \<open>What leaves the connections alone\<close>

lemma keeps_h_reset_loop [keeps]: "keeps S net \<Longrightarrow> keeps S (h_reset_loop hs nt net)"
proof (induction hs arbitrary: net)
  case Nil
  then show ?case unfolding h_reset_loop.simps Let_split by - (assumption | rule keeps | rule keeps_val | (simp; fail) | (simp add: tid_def set_timer_def; fail))+
next
  case (Cons a b)
  note IH = Cons.IH
  show ?case using Cons.prems unfolding h_reset_loop.simps Let_split
    by - (assumption | rule IH | rule keeps | rule keeps_val | (simp; fail) | (simp add: tid_def set_timer_def; fail))+
qed

lemma keeps_h_reset [keeps]: "keeps S net \<Longrightarrow> keeps S (h_reset nt net)"
  unfolding h_reset_def Let_split Let_fun
  by - (assumption | rule keeps | rule keeps_val | (simp; fail) | (simp add: tid_def set_timer_def; fail))+

lemma keeps_imp_noops_loop [keeps]: "keeps S net \<Longrightarrow> keeps S (snd (imp_noops_loop xs ip net))"
proof (induction xs arbitrary: net)
  case Nil
  then show ?case unfolding imp_noops_loop.simps Let_split by - (assumption | rule keeps | rule keeps_val | (simp; fail) | (simp add: tid_def set_timer_def; fail))+
next
  case (Cons a b)
  note IH = Cons.IH
  show ?case using Cons.prems unfolding imp_noops_loop.simps Let_split
    by - (assumption | rule IH | rule keeps | rule keeps_val | (simp; fail) | (simp add: tid_def set_timer_def; fail))+
qed

lemma keeps_imp_noops [keeps]: "keeps S net \<Longrightarrow> keeps S (snd (imp_noops ip net))"
  unfolding imp_noops_def Let_split Let_fun
  by - (assumption | rule keeps | rule keeps_val | (simp; fail) | (simp add: tid_def set_timer_def; fail))+

lemma keeps_ip_reroute [keeps]: "keeps S net \<Longrightarrow> keeps S (snd (ip_reroute up hp net))"
  unfolding ip_reroute_def Let_split Let_fun
  by - (assumption | rule keeps | rule keeps_val | (simp; fail) | (simp add: tid_def set_timer_def; fail))+

lemma keeps_raw_queue [keeps]: "keeps S net \<Longrightarrow> keeps S (snd (raw_queue mp up net))"
  unfolding raw_queue_def Let_split Let_fun
  by - (assumption | rule keeps | rule keeps_val | (simp; fail) | (simp add: tid_def set_timer_def; fail))+

lemma keeps_raw_in_loop [keeps]: "keeps S net \<Longrightarrow> keeps S (snd (snd (snd (raw_in_loop src dst link msk err ps mp copied queued net))))"
proof (induction ps arbitrary: mp copied queued net)
  case Nil
  then show ?case unfolding raw_in_loop.simps Let_split by - (assumption | rule keeps | rule keeps_val | (simp; fail) | (simp add: tid_def set_timer_def; fail))+
next
  case (Cons a b)
  note IH = Cons.IH
  show ?case using Cons.prems unfolding raw_in_loop.simps Let_split
    by - (assumption | rule IH | rule keeps | rule keeps_val | (simp; fail) | (simp add: tid_def set_timer_def; fail))+
qed

lemma keeps_raw_input [keeps]: "keeps S net \<Longrightarrow> keeps S (raw_input mp src dst link msk err net)"
  unfolding raw_input_def Let_split Let_fun
  by - (assumption | rule keeps | rule keeps_val | (simp; fail) | (simp add: tid_def set_timer_def; fail))+

lemma keeps_raw_disp [keeps]: "keeps S net \<Longrightarrow> keeps S (raw_disp m ps net)"
proof (induction ps arbitrary: m net)
  case Nil
  then show ?case unfolding raw_disp.simps Let_split by - (assumption | rule keeps | rule keeps_val | (simp; fail) | (simp add: tid_def set_timer_def; fail))+
next
  case (Cons a b)
  note IH = Cons.IH
  show ?case using Cons.prems unfolding raw_disp.simps Let_split
    by - (assumption | rule IH | rule keeps | rule keeps_val | (simp; fail) | (simp add: tid_def set_timer_def; fail))+
qed

lemma keeps_icfind [keeps]: "keeps S net \<Longrightarrow> keeps S (snd (icfind m h net))"
  unfolding icfind_def Let_split Let_fun
  by - (assumption | rule keeps | rule keeps_val | (simp; fail) | (simp add: tid_def set_timer_def; fail))+

lemma keeps_icsend [keeps]: "keeps S net \<Longrightarrow> keeps S (icsend mp ifp p ilen net)"
  unfolding icsend_def Let_split Let_fun
  by - (assumption | rule keeps | rule keeps_val | (simp; fail) | (simp add: tid_def set_timer_def; fail))+

lemma keeps_unrch_user [keeps]: "keeps S net \<Longrightarrow> keeps S (unrch_user up code net)"
  unfolding unrch_user_def Let_split Let_fun
  by - (assumption | rule keeps | rule keeps_val | (simp; fail) | (simp add: tid_def set_timer_def; fail))+

lemma keeps_redirect_user [keeps]: "keeps S net \<Longrightarrow> keeps S (redirect_user up gw net)"
  unfolding redirect_user_def Let_split Let_fun
  by - (assumption | rule keeps | rule keeps_val | (simp; fail) | (simp add: tid_def set_timer_def; fail))+

lemma keeps_ic_reply [keeps]: "keeps S net \<Longrightarrow> keeps S (ic_reply mp ifp p ilen net)"
  unfolding ic_reply_def Let_split Let_fun
  by - (assumption | rule keeps | rule keeps_val | (simp; fail) | (simp add: tid_def set_timer_def; fail))+

lemma keeps_icmp [keeps]: "keeps S net \<Longrightarrow> keeps S (icmp mp ifp net)"
  unfolding icmp_def Let_split Let_fun
  by - (assumption | rule keeps | rule keeps_val | (simp; fail) | (simp add: tid_def set_timer_def; fail))+

lemma keeps_ggp [keeps]: "keeps S net \<Longrightarrow> keeps S (ggp mp ifp net)"
  unfolding ggp_def Let_split Let_fun
  by - (assumption | rule keeps | rule keeps_val | (simp; fail) | (simp add: tid_def set_timer_def; fail))+

lemma keeps_udp_input [keeps]: "keeps S net \<Longrightarrow> keeps S (udp_input mp net)"
  unfolding udp_input_def Let_split Let_fun
  by - (assumption | rule keeps | rule keeps_val | (simp; fail) | (simp add: tid_def set_timer_def; fail))+

lemma keeps_ip_mergef [keeps]: "keeps S net \<Longrightarrow> keeps S (snd (ip_mergef qs net))"
proof (induction qs arbitrary: net)
  case Nil
  then show ?case unfolding ip_mergef.simps Let_split by - (assumption | rule keeps | rule keeps_val | (simp; fail) | (simp add: tid_def set_timer_def; fail))+
next
  case (Cons a b)
  note IH = Cons.IH
  show ?case using Cons.prems unfolding ip_mergef.simps Let_split
    by - (assumption | rule IH | rule keeps | rule keeps_val | (simp; fail) | (simp add: tid_def set_timer_def; fail))+
qed

lemma keeps_upd_ipq [keeps]: "keeps S net \<Longrightarrow> keeps S (upd_ipq i f net)"
  unfolding upd_ipq_def Let_split Let_fun
  by - (assumption | rule keeps | rule keeps_val | (simp; fail) | (simp add: tid_def set_timer_def; fail))+

lemma keeps_ip_timeo_loop [keeps]: "keeps S net \<Longrightarrow> keeps S (ip_timeo_loop qs net)"
proof (induction qs arbitrary: net)
  case Nil
  then show ?case unfolding ip_timeo_loop.simps Let_split by - (assumption | rule keeps | rule keeps_val | (simp; fail) | (simp add: tid_def set_timer_def; fail))+
next
  case (Cons a b)
  note IH = Cons.IH
  show ?case using Cons.prems unfolding ip_timeo_loop.simps Let_split
    by - (assumption | rule IH | rule keeps | rule keeps_val | (simp; fail) | (simp add: tid_def set_timer_def; fail))+
qed

lemma keeps_ip_timeo [keeps]: "keeps S net \<Longrightarrow> keeps S (ip_timeo net)"
  unfolding ip_timeo_def Let_split Let_fun
  by - (assumption | rule keeps | rule keeps_val | (simp; fail) | (simp add: tid_def set_timer_def; fail))+

lemma keeps_tick_timer [keeps]: "keeps S net \<Longrightarrow> keeps S (tick_timer tp i net)"
  unfolding tick_timer_def Let_split Let_fun
  by - (assumption | rule keeps | rule keeps_val | (simp; fail) | (simp add: tid_def set_timer_def; fail))+

lemma keeps_tick_timers [keeps]: "keeps S net \<Longrightarrow> keeps S (tick_timers tp xs net)"
proof (induction xs arbitrary: net)
  case Nil
  then show ?case unfolding tick_timers.simps Let_split by - (assumption | rule keeps | rule keeps_val | (simp; fail) | (simp add: tid_def set_timer_def; fail))+
next
  case (Cons a b)
  note IH = Cons.IH
  show ?case using Cons.prems unfolding tick_timers.simps Let_split
    by - (assumption | rule IH | rule keeps | rule keeps_val | (simp; fail) | (simp add: tid_def set_timer_def; fail))+
qed

lemma keeps_timeo_tcbs [keeps]: "keeps S net \<Longrightarrow> keeps S (timeo_tcbs tps net)"
proof (induction tps arbitrary: net)
  case Nil
  then show ?case unfolding timeo_tcbs.simps Let_split by - (assumption | rule keeps | rule keeps_val | (simp; fail) | (simp add: tid_def set_timer_def; fail))+
next
  case (Cons a b)
  note IH = Cons.IH
  show ?case using Cons.prems unfolding timeo_tcbs.simps Let_split
    by - (assumption | rule IH | rule keeps | rule keeps_val | (simp; fail) | (simp add: tid_def set_timer_def; fail))+
qed

lemma keeps_tcp_timeo [keeps]: "keeps S net \<Longrightarrow> keeps S (tcp_timeo net)"
  unfolding tcp_timeo_def Let_split Let_fun
  by - (assumption | rule keeps | rule keeps_val | (simp; fail) | (simp add: tid_def set_timer_def; fail))+

lemma keeps_net_timer [keeps]: "keeps S net \<Longrightarrow> keeps S (net_timer net)"
  unfolding net_timer_def Let_split Let_fun
  by - (assumption | rule keeps | rule keeps_val | (simp; fail) | (simp add: tid_def set_timer_def; fail))+

lemma keeps_netreset [keeps]: "keeps S net \<Longrightarrow> keeps S (netreset ip net)"
  unfolding netreset_def Let_split Let_fun
  by - (assumption | rule keeps | rule keeps_val | (simp; fail) | (simp add: tid_def set_timer_def; fail))+

lemma keeps_rfnm_in [keeps]: "keeps S net \<Longrightarrow> keeps S (rfnm_in ip hp net)"
  unfolding rfnm_in_def Let_split Let_fun
  by - (assumption | rule keeps | rule keeps_val | (simp; fail) | (simp add: tid_def set_timer_def; fail))+

lemma keeps_dead_conns [keeps]: "keeps S net \<Longrightarrow> keeps S (dead_conns sty hp ups net)"
proof (induction ups arbitrary: net)
  case Nil
  then show ?case unfolding dead_conns.simps Let_split by - (assumption | rule keeps | rule keeps_val | (simp; fail) | (simp add: tid_def set_timer_def; fail))+
next
  case (Cons a b)
  note IH = Cons.IH
  show ?case using Cons.prems unfolding dead_conns.simps Let_split
    by - (assumption | rule IH | rule keeps | rule keeps_val | (simp; fail) | (simp add: tid_def set_timer_def; fail))+
qed

lemma keeps_imp_raw_in [keeps]: "keeps S net \<Longrightarrow> keeps S (imp_raw_in ip mp err net)"
  unfolding imp_raw_in_def Let_split Let_fun
  by - (assumption | rule keeps | rule keeps_val | (simp; fail) | (simp add: tid_def set_timer_def; fail))+

lemma keeps_imp_err_in [keeps]: "keeps S net \<Longrightarrow> keeps S (imp_err_in ip mp net)"
  unfolding imp_err_in_def Let_split Let_fun
  by - (assumption | rule keeps | rule keeps_val | (simp; fail) | (simp add: tid_def set_timer_def; fail))+

lemma keeps_balance_bufs [keeps]: "keeps S net \<Longrightarrow> keeps S (balance_bufs net)"
  unfolding balance_bufs_def Let_split Let_fun
  by - (assumption | rule keeps | rule keeps_val | (simp; fail) | (simp add: tid_def set_timer_def; fail))+

section \<open>The way of a message to tcp_input\<close>

lemma follows_ip_dispatch [follows_ops]: "follows N net \<Longrightarrow> follows N (ip_dispatch proto src dst mp ifp net)"
  unfolding ip_dispatch_def Let_split Let_fun
  by - (assumption | rule follows_ops | rule keeps | rule keeps_val | (rule follows_frame, assumption, ((assumption | rule keeps | rule keeps_val | rule keeps_refl | (simp; fail) | (simp add: tid_def; fail))+; fail)))+

lemma follows_ip_complete [follows_ops]: "follows N net \<Longrightarrow> follows N (ip_complete i f fp ifp net)"
  unfolding ip_complete_def Let_split Let_fun
  by - (assumption | rule follows_ops | rule keeps | rule keeps_val | (rule follows_frame, assumption, ((assumption | rule keeps | rule keeps_val | rule keeps_refl | (simp; fail) | (simp add: tid_def; fail))+; fail)))+

lemma follows_ip_fragment [follows_ops]: "follows N net \<Longrightarrow> follows N (ip_fragment old p hlen f ifp net)"
  unfolding ip_fragment_def Let_split Let_fun
  by - (assumption | rule follows_ops | rule keeps | rule keeps_val | (rule follows_frame, assumption, ((assumption | rule keeps | rule keeps_val | rule keeps_refl | (simp; fail) | (simp add: tid_def; fail))+; fail)))+

lemma follows_ip_input [follows_ops]: "follows N net \<Longrightarrow> follows N (ip_input mp ifp net)"
  unfolding ip_input_def Let_split Let_fun
  by - (assumption | rule follows_ops | rule keeps | rule keeps_val | (rule follows_frame, assumption, ((assumption | rule keeps | rule keeps_val | rule keeps_refl | (simp; fail) | (simp add: tid_def; fail))+; fail)))+

lemma follows_imp_data_in [follows_ops]: "follows N net \<Longrightarrow> follows N (imp_data_in ip mp net)"
  unfolding imp_data_in_def Let_split Let_fun
  by - (assumption | rule follows_ops | rule keeps | rule keeps_val | (rule follows_frame, assumption, ((assumption | rule keeps | rule keeps_val | rule keeps_refl | (simp; fail) | (simp add: tid_def; fail))+; fail)))+

lemma follows_imp_msg [follows_ops]: "follows N net \<Longrightarrow> follows N (imp_msg ip mp net)"
  unfolding imp_msg_def Let_split Let_fun
  by - (assumption | rule follows_ops | rule keeps | rule keeps_val | (rule follows_frame, assumption, ((assumption | rule keeps | rule keeps_val | rule keeps_refl | (simp; fail) | (simp add: tid_def; fail))+; fail)))+

lemma follows_vii_msg [follows_ops]: "follows N net \<Longrightarrow> follows N (vii_msg ip mp net)"
  unfolding vii_msg_def Let_split Let_fun
  by - (assumption | rule follows_ops | rule keeps | rule keeps_val | (rule follows_frame, assumption, ((assumption | rule keeps | rule keeps_val | rule keeps_refl | (simp; fail) | (simp add: tid_def; fail))+; fail)))+

lemma follows_rcv_loop:
  assumes "\<And>m net. follows N net \<Longrightarrow> follows N (f ip m net)" "follows N net"
  shows "follows N (rcv_loop f k ip net)"
  using assms(2)
proof (induction k arbitrary: net)
  case (Suc k)
  show ?case
  proof (cases "if_inq (ifs net ip)")
    case (Cons m q)
    have "follows N (upd_if ip (\<lambda>i. i\<lparr>if_inq := q\<rparr>) net)"
      by (rule follows_frame [OF Suc.prems]) (rule keeps, rule keeps_refl)
    then show ?thesis using Suc.IH assms(1) Cons by simp
  qed (use Suc.prems in simp)
qed simp

lemma follows_if_rcv [follows_ops]: "follows N net \<Longrightarrow> follows N (if_rcv ip net)"
  by (cases "if_kind (ifs net ip)")
    (auto simp: if_rcv_def imp_rcv_def vii_rcv_def intro!: follows_rcv_loop follows_imp_msg follows_vii_msg)






end
