(* ===== verification/Frag_Queue.thy ===== *)
theory Frag_Queue
  imports Mbuf "HOL-Library.Multiset"
begin

text \<open>
  The specification that TCP sequencing (rcv_text) and IP reassembly (ip_input) share: a queue of
  pieces of a byte stream, each piece an interval \<open>lo..hi\<close> of positions with its data, into
  which a new piece is merged.  The code of the two is the same algorithm over different fields;
  the algorithm is stated here once, over the operations that trim a piece in front and at its end,
  and the locale proves what it does to the stream from the laws of those operations.

  Like the code, the merge lets the last byte of a piece overlap the first byte of the next one:
  the loop over the successors stops at a piece that starts at the new piece's last byte.
\<close>

section \<open>The algorithm\<close>

fun q_succ :: "('a \<Rightarrow> nat) \<Rightarrow> ('a \<Rightarrow> nat) \<Rightarrow> (nat \<Rightarrow> 'a \<Rightarrow> 'a) \<Rightarrow> 'a \<Rightarrow> 'a list
    \<Rightarrow> 'a option \<times> 'a list \<times> 'a list" where
  "q_succ lo hi trimb f [] = (Some f, [], [])"
| "q_succ lo hi trimb f (q # qs) =
    (if lo q < hi f then
       (if hi q \<le> hi f then
          (let (g, r, d) = q_succ lo hi trimb f qs in (g, r, q # d))
        else (if lo f < lo q then Some (trimb (Suc (hi f) - lo q) f) else None, q # qs, []))
     else (Some f, q # qs, []))"

definition q_merge :: "('a \<Rightarrow> nat) \<Rightarrow> ('a \<Rightarrow> nat) \<Rightarrow> (nat \<Rightarrow> 'a \<Rightarrow> 'a) \<Rightarrow> (nat \<Rightarrow> 'a \<Rightarrow> 'a) \<Rightarrow> 'a \<Rightarrow> 'a list
    \<Rightarrow> 'a list \<times> 'a option \<times> 'a list" where
  "q_merge lo hi trimf trimb f queue =
    (let pre = takeWhile (\<lambda>q. hi q < lo f) queue in
     case dropWhile (\<lambda>q. hi q < lo f) queue of
       [] \<Rightarrow> (pre @ [f], Some f, [])
     | q # post \<Rightarrow>
         if hi f < lo q then (pre @ f # q # post, Some f, [])
         else if hi f < hi q then
           (if lo f < lo q
            then (let g = trimb (Suc (hi f) - lo q) f in (pre @ g # q # post, Some g, []))
            else (queue, None, []))
         else
           (let (g, pre, dead) =
              (if lo f \<le> lo q then (Some f, pre, [q])
               else (if hi q < hi f then Some (trimf (Suc (hi q) - lo f) f) else None, pre @ [q], []))
            in case g of
                 None \<Rightarrow> (pre @ post, None, dead)
               | Some g \<Rightarrow>
                   (let (h, r, dead') = q_succ lo hi trimb g post in
                    (pre @ (case h of None \<Rightarrow> [] | Some h \<Rightarrow> [h]) @ r, h, dead @ dead'))))"

text \<open>Pieces that end before the new one begins are not looked at.\<close>

lemma q_merge_prefix:
  assumes "\<forall>q\<in>set pre. hi q < lo f" "q_merge lo hi trimf trimb f qs = (qs', h, d)"
  shows "q_merge lo hi trimf trimb f (pre @ qs) = (pre @ qs', h, d)"
proof -
  have t: "takeWhile (\<lambda>q. hi q < lo f) (pre @ qs) = pre @ takeWhile (\<lambda>q. hi q < lo f) qs"
    "dropWhile (\<lambda>q. hi q < lo f) (pre @ qs) = dropWhile (\<lambda>q. hi q < lo f) qs"
    using assms(1) by (simp_all add: takeWhile_append2 dropWhile_append2)
  show ?thesis
  proof (cases "dropWhile (\<lambda>q. hi q < lo f) qs")
    case Nil
    show ?thesis using assms(2) unfolding q_merge_def Let_def t Nil list.case by auto
  next
    case (Cons q post)
    let ?g = "if lo f \<le> lo q then f else trimf (Suc (hi q) - lo f) f"
    obtain g r d2 where s: "q_succ lo hi trimb ?g post = (g, r, d2)" by (rule prod_cases3)
    note m = assms(2) [unfolded q_merge_def Let_def Cons list.case]
    show ?thesis
      unfolding q_merge_def Let_def t Cons list.case
    proof (cases "hi f < lo q"; cases "hi f < hi q")
    qed (use m s in \<open>auto split: if_splits\<close>)
  qed
qed

section \<open>What it does to the stream\<close>

definition q_pos :: "('a \<Rightarrow> nat) \<Rightarrow> ('a \<Rightarrow> nat) \<Rightarrow> 'a list \<Rightarrow> nat set" where
  "q_pos lo hi qs = (\<Union>q\<in>set qs. {lo q .. hi q})"

definition pts1 :: "('a \<Rightarrow> nat) \<Rightarrow> ('a \<Rightarrow> byte list) \<Rightarrow> 'a \<Rightarrow> (nat \<times> byte) set" where
  "pts1 lo data q = {(lo q + k, data q ! k) | k. k < length (data q)}"

definition q_pts :: "('a \<Rightarrow> nat) \<Rightarrow> ('a \<Rightarrow> byte list) \<Rightarrow> 'a list \<Rightarrow> (nat \<times> byte) set" where
  "q_pts lo data qs = (\<Union>q\<in>set qs. pts1 lo data q)"

definition q_ord :: "('a \<Rightarrow> nat) \<Rightarrow> ('a \<Rightarrow> nat) \<Rightarrow> 'a list \<Rightarrow> bool" where
  "q_ord lo hi qs = sorted_wrt (\<lambda>a b. hi a \<le> lo b) qs"

definition q_strict :: "('a \<Rightarrow> nat) \<Rightarrow> ('a \<Rightarrow> nat) \<Rightarrow> 'a list \<Rightarrow> bool" where
  "q_strict lo hi qs = sorted_wrt (\<lambda>a b. hi a < lo b) qs"

lemma q_strict_ord: "q_strict lo hi qs \<Longrightarrow> q_ord lo hi qs"
  unfolding q_strict_def q_ord_def by (induction qs) (auto simp: less_imp_le)

lemma q_pos_simps [simp]:
  "q_pos lo hi [] = {}" "q_pos lo hi (q # qs) = {lo q .. hi q} \<union> q_pos lo hi qs"
  "q_pos lo hi (qs @ rs) = q_pos lo hi qs \<union> q_pos lo hi rs"
  by (auto simp: q_pos_def)

lemma q_pts_simps [simp]:
  "q_pts lo data [] = {}" "q_pts lo data (q # qs) = pts1 lo data q \<union> q_pts lo data qs"
  "q_pts lo data (qs @ rs) = q_pts lo data qs \<union> q_pts lo data rs"
  by (auto simp: q_pts_def)

lemma q_pts_mono: "set qs \<subseteq> set rs \<Longrightarrow> q_pts lo data qs \<subseteq> q_pts lo data rs"
  by (auto simp: q_pts_def)

text \<open>The claim about one merge: \<open>res\<close> is the result of merging \<open>f\<close> into \<open>qs\<close>.\<close>

definition merge_ok :: "('a \<Rightarrow> bool) \<Rightarrow> ('a \<Rightarrow> nat) \<Rightarrow> ('a \<Rightarrow> nat) \<Rightarrow> ('a \<Rightarrow> byte list) \<Rightarrow> 'a \<Rightarrow> 'a list
    \<Rightarrow> 'a list \<times> 'a option \<times> 'a list \<Rightarrow> bool" where
  "merge_ok ok lo hi data f qs res \<longleftrightarrow>
    (case res of (qs', kept, dead) \<Rightarrow>
      (\<forall>q\<in>set qs'. ok q) \<and> q_ord lo hi qs'
      \<and> q_pos lo hi qs' = q_pos lo hi qs \<union> {lo f .. hi f}
      \<and> q_pts lo data qs' \<subseteq> q_pts lo data qs \<union> pts1 lo data f
      \<and> mset qs' + mset dead = mset qs + (case kept of None \<Rightarrow> {#} | Some g \<Rightarrow> {#g#}))"

locale frag_queue =
  fixes ok :: "'a \<Rightarrow> bool"
    and lo :: "'a \<Rightarrow> nat"
    and hi :: "'a \<Rightarrow> nat"
    and data :: "'a \<Rightarrow> byte list"
    and trimf :: "nat \<Rightarrow> 'a \<Rightarrow> 'a"
    and trimb :: "nat \<Rightarrow> 'a \<Rightarrow> 'a"
  assumes ok_len: "ok f \<Longrightarrow> lo f \<le> hi f \<and> length (data f) = Suc (hi f) - lo f"
    and front_laws: "ok f \<Longrightarrow> 0 < lo f \<Longrightarrow> i < Suc (hi f) - lo f \<Longrightarrow>
      ok (trimf i f) \<and> lo (trimf i f) = lo f + i \<and> hi (trimf i f) = hi f
      \<and> data (trimf i f) = drop i (data f)"
    and back_laws: "ok f \<Longrightarrow> i < Suc (hi f) - lo f \<Longrightarrow>
      ok (trimb i f) \<and> lo (trimb i f) = lo f \<and> hi (trimb i f) = hi f - i
      \<and> data (trimb i f) = take (Suc (hi f) - lo f - i) (data f)"
begin

lemma ok_le: "ok f \<Longrightarrow> lo f \<le> hi f"
  using ok_len by blast

lemma front_pts:
  assumes "ok f" "0 < lo f" "i < Suc (hi f) - lo f"
  shows "pts1 lo data (trimf i f) \<subseteq> pts1 lo data f"
proof
  fix x assume "x \<in> pts1 lo data (trimf i f)"
  then obtain k where k: "k < length (drop i (data f))"
    "x = (lo f + i + k, drop i (data f) ! k)"
    using front_laws [OF assms] by (auto simp: pts1_def)
  then have "x = (lo f + (i + k), data f ! (i + k))" "i + k < length (data f)" by auto
  then show "x \<in> pts1 lo data f" unfolding pts1_def by auto
qed

lemma back_pts:
  assumes "ok f" "i < Suc (hi f) - lo f"
  shows "pts1 lo data (trimb i f) \<subseteq> pts1 lo data f"
  using back_laws [OF assms] by (auto simp: pts1_def)

lemma q_succ_spec:
  assumes "ok f" "\<forall>q\<in>set qs. ok q" "q_ord lo hi qs" "q_succ lo hi trimb f qs = (h, r, d)"
  shows "(\<exists>p. qs = p @ r) \<and> mset qs = mset r + mset d
    \<and> (\<forall>x \<ge> lo f. x \<in> {lo f .. hi f} \<union> q_pos lo hi qs
          \<longleftrightarrow> x \<in> (case h of None \<Rightarrow> {} | Some g \<Rightarrow> {lo g .. hi g}) \<union> q_pos lo hi r)
    \<and> (case h of None \<Rightarrow> True
       | Some g \<Rightarrow> ok g \<and> lo g = lo f \<and> (\<forall>q\<in>set r. hi g \<le> lo q)
           \<and> pts1 lo data g \<subseteq> pts1 lo data f)"
  using assms
proof (induction qs arbitrary: h r d)
  case Nil
  then show ?case by auto
next
  case (Cons q qs)
  have okq: "ok q" "lo q \<le> hi q" using Cons.prems(2) ok_le by auto
  have okqs: "\<forall>x\<in>set qs. ok x" and ord: "q_ord lo hi qs" "\<forall>x\<in>set qs. hi q \<le> lo x"
    using Cons.prems(2,3) by (auto simp: q_ord_def)
  have lf: "lo f \<le> hi f" using Cons.prems(1) by (rule ok_le)
  consider "\<not> lo q < hi f" | "lo q < hi f" "hi q \<le> hi f"
    | "lo q < hi f" "hi f < hi q" "lo f < lo q" | "lo q < hi f" "hi f < hi q" "lo q \<le> lo f"
    by linarith
  then show ?case
  proof cases
    case 1
    then show ?thesis using Cons.prems ord okq by (fastforce)
  next
    case 2
    obtain d' where r: "q_succ lo hi trimb f qs = (h, r, d')" "d = q # d'"
      using 2 Cons.prems(4) by (auto split: prod.splits)
    note IH = Cons.IH [OF Cons.prems(1) okqs ord(1) r(1)]
    obtain p where "qs = p @ r" using IH by blast
    then have "\<exists>p. q # qs = p @ r" by (intro exI [of _ "q # p"]) simp
    then show ?thesis using IH 2 r(2) okq by auto
  next
    case 3
    let ?i = "Suc (hi f) - lo q"
    have i: "?i < Suc (hi f) - lo f" using 3 by simp
    note b = back_laws [OF Cons.prems(1) i]
    have "h = Some (trimb ?i f)" "r = q # qs" "d = []" using 3 Cons.prems(4) by auto
    moreover have "hi (trimb ?i f) = lo q - 1" using b 3 by simp
    ultimately show ?thesis
      using b 3 okq ord(2) back_pts [OF Cons.prems(1) i] by auto
  next
    case 4
    then have "h = None" "r = q # qs" "d = []" using Cons.prems(4) by auto
    then show ?thesis using 4 by auto
  qed
qed

lemma q_succ_ok:
  "ok f \<Longrightarrow> q_succ lo hi trimb f qs = (Some g, r, d) \<Longrightarrow> ok g"
proof (induction qs arbitrary: r d)
  case (Cons q qs)
  have "lo f < lo q \<Longrightarrow> lo q < hi f \<Longrightarrow> ok (trimb (Suc (hi f) - lo q) f)"
    using back_laws [OF Cons.prems(1), of "Suc (hi f) - lo q"] by simp
  then show ?case using Cons by (auto split: if_splits prod.splits)
qed simp

lemma q_ord_append:
  "q_ord lo hi (as @ bs) \<longleftrightarrow> q_ord lo hi as \<and> q_ord lo hi bs \<and> (\<forall>a\<in>set as. \<forall>b\<in>set bs. hi a \<le> lo b)"
  by (simp add: q_ord_def sorted_wrt_append)

lemma q_ord_Cons:
  "q_ord lo hi [] \<longleftrightarrow> True"
  "q_ord lo hi (a # bs) \<longleftrightarrow> q_ord lo hi bs \<and> (\<forall>b\<in>set bs. hi a \<le> lo b)"
  by (auto simp: q_ord_def)

text \<open>The last part of the merge: \<open>g\<close> is what is left of the new piece behind \<open>pre\<close>.\<close>

lemma merge_tail:
  assumes g: "ok g" and okp: "\<forall>q\<in>set pre. ok q" and okr: "\<forall>q\<in>set post. ok q"
    and ord: "q_ord lo hi pre" "q_ord lo hi post" "\<forall>a\<in>set pre. \<forall>b\<in>set post. hi a \<le> lo b"
    and pg: "\<forall>a\<in>set pre. hi a < lo g"
    and low: "\<forall>x < lo g. x \<in> q_pos lo hi post \<longrightarrow> x \<in> q_pos lo hi pre"
    and s: "q_succ lo hi trimb g post = (h, r, d)"
  shows "let qs' = pre @ (case h of None \<Rightarrow> [] | Some h \<Rightarrow> [h]) @ r in
    (\<forall>q\<in>set qs'. ok q) \<and> q_ord lo hi qs'
    \<and> q_pos lo hi qs' = q_pos lo hi pre \<union> {lo g .. hi g} \<union> q_pos lo hi post
    \<and> q_pts lo data qs' \<subseteq> q_pts lo data pre \<union> q_pts lo data post \<union> pts1 lo data g
    \<and> mset qs' + mset d = mset pre + mset post + (case h of None \<Rightarrow> {#} | Some h \<Rightarrow> {#h#})"
proof -
  note S = q_succ_spec [OF g okr ord(2) s]
  obtain p where post: "post = p @ r" using S by blast
  have sub: "set r \<subseteq> set post" using post by auto
  have ordr: "q_ord lo hi r" using ord(2) post by (simp add: q_ord_append)
  have pr: "hi a \<le> lo b" if "a \<in> set pre" "b \<in> set r" for a b
    using ord(3) sub that by blast
  let ?hs = "case h of None \<Rightarrow> [] | Some h \<Rightarrow> [h]"
  let ?qs = "pre @ ?hs @ r"
  have hs: "x \<in> set ?hs \<longleftrightarrow> h = Some x" for x by (cases h) auto
  have hpos: "q_pos lo hi ?hs = (case h of None \<Rightarrow> {} | Some g \<Rightarrow> {lo g .. hi g})"
    by (cases h) auto
  have hlo: "h = Some x \<Longrightarrow> ok x \<and> lo x = lo g \<and> (\<forall>q\<in>set r. hi x \<le> lo q)
      \<and> pts1 lo data x \<subseteq> pts1 lo data g" for x
    using S by auto
  have 1: "\<forall>q\<in>set ?qs. ok q" using okp okr sub hlo hs by auto
  have hord: "q_ord lo hi ?hs" by (cases h) (auto simp: q_ord_def)
  have 2: "q_ord lo hi ?qs"
    unfolding q_ord_append
  proof (intro conjI ballI ord(1) hord ordr)
    fix a b assume a: "a \<in> set ?hs" and b: "b \<in> set r"
    show "hi a \<le> lo b" using a b hlo hs by blast
  next
    fix a b assume a: "a \<in> set pre" and b: "b \<in> set (?hs @ r)"
    show "hi a \<le> lo b"
    proof (cases "b \<in> set r")
      case False
      then have "lo b = lo g" using b hlo hs by auto
      then show ?thesis using pg a by (simp add: less_imp_le)
    qed (rule pr [OF a])
  qed
  have 3: "q_pos lo hi ?qs = q_pos lo hi pre \<union> {lo g .. hi g} \<union> q_pos lo hi post"
  proof (rule set_eqI)
    fix x
    show "x \<in> q_pos lo hi ?qs \<longleftrightarrow> x \<in> q_pos lo hi pre \<union> {lo g .. hi g} \<union> q_pos lo hi post"
    proof (cases "lo g \<le> x")
      case True
      then have "x \<in> {lo g .. hi g} \<union> q_pos lo hi post \<longleftrightarrow> x \<in> q_pos lo hi ?hs \<union> q_pos lo hi r"
        using S unfolding hpos by blast
      then show ?thesis by auto
    next
      case False
      have "x \<in> q_pos lo hi r \<Longrightarrow> x \<in> q_pos lo hi post" using sub by (auto simp: q_pos_def)
      moreover have "x \<notin> q_pos lo hi ?hs" using False hlo unfolding hpos by (cases h) auto
      moreover have "x \<notin> {lo g .. hi g}" using False by simp
      ultimately show ?thesis using low False by auto
    qed
  qed
  have 4: "q_pts lo data ?qs \<subseteq> q_pts lo data pre \<union> q_pts lo data post \<union> pts1 lo data g"
  proof -
    have "q_pts lo data ?hs \<subseteq> pts1 lo data g"
      using hlo by (cases h) (auto simp: q_pts_def)
    moreover have "q_pts lo data r \<subseteq> q_pts lo data post" using sub by (rule q_pts_mono)
    ultimately show ?thesis by auto
  qed
  have 5: "mset ?qs + mset d = mset pre + mset post + (case h of None \<Rightarrow> {#} | Some h \<Rightarrow> {#h#})"
    using S by (cases h) auto
  show ?thesis unfolding Let_def using 1 2 3 4 5 by blast
qed

lemma takeWhile_hi: "a \<in> set (takeWhile (\<lambda>q. hi q < lo f) qs) \<Longrightarrow> hi a < lo f"
  by (auto dest: set_takeWhileD)

lemma merge_ok_merge:
  assumes f: "ok f" and okq: "\<forall>q\<in>set qs. ok q" and ord: "q_ord lo hi qs"
  shows "merge_ok ok lo hi data f qs (q_merge lo hi trimf trimb f qs)"
proof -
  define pre where "pre = takeWhile (\<lambda>q. hi q < lo f) qs"
  define suf where "suf = dropWhile (\<lambda>q. hi q < lo f) qs"
  have split: "qs = pre @ suf" by (simp add: pre_def suf_def)
  have pg: "\<forall>a\<in>set pre. hi a < lo f" unfolding pre_def using takeWhile_hi by blast
  have lf: "lo f \<le> hi f" using f by (rule ok_le)
  show ?thesis
  proof (cases suf)
    case Nil
    then have "q_merge lo hi trimf trimb f qs = (pre @ [f], Some f, [])"
      by (simp add: q_merge_def Let_def pre_def [symmetric] suf_def [symmetric])
    then show ?thesis using Nil split f okq ord pg
      by (auto simp: merge_ok_def q_ord_append q_ord_Cons less_imp_le)
  next
    case (Cons q post)
    have hq: "lo f \<le> hi q"
      using Cons by (auto simp: suf_def dropWhile_eq_Cons_conv)
    have okqp: "ok q" "lo q \<le> hi q" "\<forall>x\<in>set pre. ok x" "\<forall>x\<in>set post. ok x"
      using okq split Cons ok_le by auto
    have o: "q_ord lo hi pre" "q_ord lo hi post" "\<forall>b\<in>set post. hi q \<le> lo b"
      "\<forall>a\<in>set pre. hi a \<le> lo q" "\<forall>a\<in>set pre. \<forall>b\<in>set post. hi a \<le> lo b"
      using ord split Cons by (auto simp: q_ord_append q_ord_Cons)
    have m: "q_merge lo hi trimf trimb f qs =
      (if hi f < lo q then (pre @ f # q # post, Some f, [])
       else if hi f < hi q then
           (if lo f < lo q
            then (let g = trimb (Suc (hi f) - lo q) f in (pre @ g # q # post, Some g, []))
            else (qs, None, []))
       else
           (let (g, pre, dead) =
              (if lo f \<le> lo q then (Some f, pre, [q])
               else (if hi q < hi f then Some (trimf (Suc (hi q) - lo f) f) else None, pre @ [q], []))
            in case g of
                 None \<Rightarrow> (pre @ post, None, dead)
               | Some g \<Rightarrow>
                   (let (h, r, dead') = q_succ lo hi trimb g post in
                    (pre @ (case h of None \<Rightarrow> [] | Some h \<Rightarrow> [h]) @ r, h, dead @ dead'))))"
      using Cons by (simp add: q_merge_def Let_def pre_def [symmetric] suf_def [symmetric])
    have qs: "qs = pre @ q # post" using split Cons by simp
    consider (before) "hi f < lo q" | (trim) "lo q \<le> hi f" "hi f < hi q" "lo f < lo q"
      | (covered) "lo q \<le> lo f" "hi f < hi q" | (swallow) "hi q \<le> hi f" "lo f \<le> lo q"
      | (behind) "hi q < hi f" "lo q < lo f" | (same) "hi f = hi q" "lo q < lo f"
      using lf hq by linarith
    then show ?thesis
    proof cases
      case before
      then have "q_merge lo hi trimf trimb f qs = (pre @ f # q # post, Some f, [])"
        by (simp add: m)
      moreover have "\<forall>b\<in>set post. hi f \<le> lo b" using o(3) okqp(2) before by fastforce
      ultimately show ?thesis using before f okqp o pg
        by (auto simp: qs merge_ok_def q_ord_append q_ord_Cons less_imp_le)
    next
      case trim
      let ?i = "Suc (hi f) - lo q" let ?g = "trimb ?i f"
      have i: "?i < Suc (hi f) - lo f" using trim by simp
      note b = back_laws [OF f i]
      have hg: "hi ?g = lo q - 1" using b trim by simp
      have "q_merge lo hi trimf trimb f qs = (pre @ ?g # q # post, Some ?g, [])"
        using trim by (simp add: m Let_def)
      moreover have "\<forall>c\<in>set post. hi ?g \<le> lo c" "hi ?g \<le> lo q" using o(3) okqp(2) hg by fastforce+
      moreover have "{lo q..hi q} \<union> {lo ?g..hi ?g} = {lo q..hi q} \<union> {lo f..hi f}"
        using b hg trim by auto
      then have "q_pos lo hi (pre @ ?g # q # post) = q_pos lo hi qs \<union> {lo f..hi f}"
        unfolding qs q_pos_simps by blast
      moreover have "q_pts lo data (pre @ ?g # q # post) \<subseteq> q_pts lo data qs \<union> pts1 lo data f"
        using back_pts [OF f i] unfolding qs
        by auto
      ultimately show ?thesis using b okqp o pg
        by (simp add: qs merge_ok_def q_ord_append q_ord_Cons less_imp_le ball_Un del: q_pos_simps)
    next
      case covered
      then have "q_merge lo hi trimf trimb f qs = (qs, None, [])" using lf by (simp add: m)
      moreover have "{lo f..hi f} \<subseteq> q_pos lo hi qs" using covered by (auto simp: qs)
      ultimately show ?thesis using okq ord by (auto simp: merge_ok_def)
    next
      case same
      then have "q_merge lo hi trimf trimb f qs = (qs, None, [])" using lf hq by (simp add: m) (simp add: qs)
      moreover have "{lo f..hi f} \<subseteq> q_pos lo hi qs" using same by (auto simp: qs)
      ultimately show ?thesis using okq ord by (auto simp: merge_ok_def)
    next
      case swallow
      obtain h r d where s: "q_succ lo hi trimb f post = (h, r, d)" by (cases "q_succ lo hi trimb f post")
      have "q_merge lo hi trimf trimb f qs
          = (pre @ (case h of None \<Rightarrow> [] | Some h \<Rightarrow> [h]) @ r, h, q # d)"
        using swallow s lf okqp(2) by (simp add: m)
      moreover have "\<forall>x<lo f. x \<in> q_pos lo hi post \<longrightarrow> x \<in> q_pos lo hi pre"
        using o(3) okqp(2) swallow by (fastforce simp: q_pos_def)
      note T = merge_tail [OF f okqp(3,4) o(1,2,5) pg this s, unfolded Let_def]
      moreover have "q_pos lo hi pre \<union> {lo f .. hi f} \<union> q_pos lo hi post = q_pos lo hi qs \<union> {lo f .. hi f}"
        using swallow by (auto simp: qs)
      moreover have "q_pts lo data pre \<union> q_pts lo data post \<subseteq> q_pts lo data qs"
        by (auto simp: qs)
      ultimately show ?thesis by (auto simp: merge_ok_def qs)
    next
      case behind
      let ?i = "Suc (hi q) - lo f" let ?g = "trimf ?i f"
      have i: "?i < Suc (hi f) - lo f" "0 < lo f" using behind hq by simp_all
      note b = front_laws [OF f i(2,1)]
      have lg: "lo ?g = Suc (hi q)" using b hq by simp
      obtain h r d where s: "q_succ lo hi trimb ?g post = (h, r, d)"
        by (cases "q_succ lo hi trimb ?g post")
      have mm: "q_merge lo hi trimf trimb f qs
          = ((pre @ [q]) @ (case h of None \<Rightarrow> [] | Some h \<Rightarrow> [h]) @ r, h, d)"
        using behind s lf okqp(2) by (simp add: m)
      have P: "\<forall>x\<in>set (pre @ [q]). ok x" "q_ord lo hi (pre @ [q])"
        "\<forall>a\<in>set (pre @ [q]). \<forall>b\<in>set post. hi a \<le> lo b" "\<forall>a\<in>set (pre @ [q]). hi a < lo ?g"
        using okqp o pg lg hq by (auto simp: q_ord_append q_ord_Cons)
      have "\<forall>x<lo ?g. x \<in> q_pos lo hi post \<longrightarrow> x \<in> q_pos lo hi (pre @ [q])"
      proof (intro allI impI)
        fix x assume "x < lo ?g" and "x \<in> q_pos lo hi post"
        then have "x \<le> hi q" "hi q \<le> x" using lg o(3) by (fastforce simp: q_pos_def)+
        then show "x \<in> q_pos lo hi (pre @ [q])" using okqp(2) by simp
      qed
      note T = merge_tail [OF conjunct1 [OF b] P(1) okqp(4) P(2) o(2) P(3,4) this s, unfolded Let_def]
      have U: "q_pos lo hi (pre @ [q]) \<union> {lo ?g .. hi ?g} \<union> q_pos lo hi post
          = q_pos lo hi qs \<union> {lo f .. hi f}"
      proof -
        have "{lo q .. hi q} \<union> {lo ?g .. hi ?g} = {lo q .. hi q} \<union> {lo f .. hi f}"
          using b lg behind hq by auto
        then show ?thesis unfolding qs q_pos_simps by blast
      qed
      have V: "q_pts lo data (pre @ [q]) \<union> q_pts lo data post = q_pts lo data qs"
        by (auto simp: qs)
      show ?thesis unfolding merge_ok_def mm prod.case
        using T front_pts [OF f i(2,1)] unfolding U V by (auto simp: qs)
    qed
  qed
qed

text \<open>
  If no piece of the queue starts at the last byte of the new piece, the merge keeps a queue without
  overlaps free of them.
\<close>

lemma q_strict_append:
  "q_strict lo hi (as @ bs) \<longleftrightarrow>
   q_strict lo hi as \<and> q_strict lo hi bs \<and> (\<forall>a\<in>set as. \<forall>b\<in>set bs. hi a < lo b)"
  by (simp add: q_strict_def sorted_wrt_append)

lemma q_strict_Cons:
  "q_strict lo hi [] \<longleftrightarrow> True"
  "q_strict lo hi (a # bs) \<longleftrightarrow> q_strict lo hi bs \<and> (\<forall>b\<in>set bs. hi a < lo b)"
  by (auto simp: q_strict_def)

lemma q_succ_strict:
  assumes "ok f" "\<forall>q\<in>set qs. ok q" "q_strict lo hi qs" "\<forall>q\<in>set qs. lo q \<noteq> hi f"
    "q_succ lo hi trimb f qs = (h, r, d)"
  shows "q_strict lo hi r \<and> set r \<subseteq> set qs
    \<and> (\<forall>g. h = Some g \<longrightarrow> lo g = lo f \<and> (\<forall>q\<in>set r. hi g < lo q))"
  using assms
proof (induction qs arbitrary: h r d)
  case (Cons q qs)
  have okq: "ok q" "lo q \<le> hi q" using Cons.prems(2) ok_le by auto
  have st: "q_strict lo hi qs" "\<forall>x\<in>set qs. hi q < lo x" using Cons.prems(3) by (auto simp: q_strict_def)
  consider "hi f < lo q" | "lo q < hi f" "hi q \<le> hi f"
    | "lo q < hi f" "hi f < hi q" "lo f < lo q" | "lo q < hi f" "hi f < hi q" "lo q \<le> lo f"
    using Cons.prems(4) by fastforce
  then show ?case
  proof cases
    case 1
    then have "\<forall>x\<in>set qs. hi f < lo x" using st okq by fastforce
    then show ?thesis using 1 Cons.prems by auto
  next
    case 2
    then obtain d' where "q_succ lo hi trimb f qs = (h, r, d')"
      using Cons.prems(5) by (auto split: prod.splits)
    then show ?thesis using Cons.IH [of h r d'] Cons.prems st by auto
  next
    case 3
    have "hi (trimb (Suc (hi f) - lo q) f) = lo q - 1 \<and> lo (trimb (Suc (hi f) - lo q) f) = lo f"
      using back_laws [OF Cons.prems(1), of "Suc (hi f) - lo q"] 3 by simp
    then show ?thesis using 3 Cons.prems st okq by fastforce
  next
    case 4
    then show ?thesis using Cons.prems by auto
  qed
qed (auto simp: q_strict_def)

lemma merge_strict:
  assumes f: "ok f" and okq: "\<forall>q\<in>set qs. ok q" and st: "q_strict lo hi qs"
    and clean: "\<forall>q\<in>set qs. lo q \<noteq> hi f" and m: "q_merge lo hi trimf trimb f qs = (qs', h, d)"
  shows "q_strict lo hi qs'"
proof -
  define pre where "pre = takeWhile (\<lambda>q. hi q < lo f) qs"
  define suf where "suf = dropWhile (\<lambda>q. hi q < lo f) qs"
  have split: "qs = pre @ suf" by (simp add: pre_def suf_def)
  have pg: "\<forall>a\<in>set pre. hi a < lo f" unfolding pre_def using takeWhile_hi by blast
  have lf: "lo f \<le> hi f" using f by (rule ok_le)
  note unf = m [unfolded q_merge_def Let_def pre_def [symmetric] suf_def [symmetric]]
  show ?thesis
  proof (cases suf)
    case Nil
    then show ?thesis using unf split st pg by (auto simp: q_strict_append q_strict_Cons)
  next
    case (Cons q post)
    have qs: "qs = pre @ q # post" using split Cons by simp
    have hq: "lo f \<le> hi q" "lo q \<le> hi q" "ok q" "\<forall>x\<in>set post. ok x"
      using Cons okq qs ok_le by (auto simp: suf_def dropWhile_eq_Cons_conv)
    have s: "q_strict lo hi pre" "q_strict lo hi post" "\<forall>b\<in>set post. hi q < lo b"
      "\<forall>a\<in>set pre. hi a < lo q" "\<forall>a\<in>set pre. \<forall>b\<in>set post. hi a < lo b"
      using st qs by (auto simp: q_strict_append q_strict_Cons)
    have cp: "\<forall>b\<in>set post. lo b \<noteq> hi f" "lo q \<noteq> hi f" using clean qs by auto
    have tail: "q_strict lo hi (pre2 @ (case h of None \<Rightarrow> [] | Some h \<Rightarrow> [h]) @ r)"
      if g: "ok g" "hi g = hi f" and p: "q_strict lo hi pre2" "\<forall>a\<in>set pre2. hi a < lo g"
        "\<forall>a\<in>set pre2. \<forall>b\<in>set post. hi a < lo b" and e: "q_succ lo hi trimb g post = (h, r, d2)"
      for g pre2 h r d2
    proof -
      have "\<forall>x\<in>set post. lo x \<noteq> hi g" using cp g by simp
      note S = q_succ_strict [OF g(1) hq(4) s(2) this e]
      show ?thesis using S p by (cases h) (auto simp: q_strict_append q_strict_Cons)
    qed
    consider (before) "hi f < lo q" | (trim) "lo q \<le> hi f" "hi f < hi q" "lo f < lo q"
      | (covered) "lo q \<le> lo f" "hi f < hi q" | (swallow) "hi q \<le> hi f" "lo f \<le> lo q"
      | (behind) "hi q < hi f" "lo q < lo f" | (same) "hi f = hi q" "lo q < lo f"
      using lf hq by linarith
    then show ?thesis
    proof cases
      case before
      then have "\<forall>b\<in>set post. hi f < lo b" using s hq by fastforce
      then show ?thesis using before unf Cons s pg by (auto simp: q_strict_append q_strict_Cons)
    next
      case trim
      let ?g = "trimb (Suc (hi f) - lo q) f"
      have b: "hi ?g = lo q - 1" "lo ?g = lo f" using back_laws [OF f, of "Suc (hi f) - lo q"] trim by simp_all
      have "\<forall>b\<in>set post. hi ?g < lo b" using b s(3) hq(2) by fastforce
      then show ?thesis using trim unf Cons s pg b by (auto simp: q_strict_append q_strict_Cons)
    next
      case covered
      then show ?thesis using unf Cons st lf by auto
    next
      case same
      then show ?thesis using unf Cons st lf hq qs by auto
    next
      case swallow
      obtain h2 r d2 where e: "q_succ lo hi trimb f post = (h2, r, d2)" by (cases "q_succ lo hi trimb f post")
      then have "qs' = pre @ (case h2 of None \<Rightarrow> [] | Some h \<Rightarrow> [h]) @ r"
        using swallow unf Cons hq by auto
      then show ?thesis using tail [OF f refl s(1) pg s(5) e] by simp
    next
      case behind
      let ?g = "trimf (Suc (hi q) - lo f) f"
      have g: "ok ?g" "hi ?g = hi f" "lo ?g = Suc (hi q)"
        using front_laws [OF f, of "Suc (hi q) - lo f"] behind hq by simp_all
      obtain h2 r d2 where e: "q_succ lo hi trimb ?g post = (h2, r, d2)" by (cases "q_succ lo hi trimb ?g post")
      then have "qs' = (pre @ [q]) @ (case h2 of None \<Rightarrow> [] | Some h \<Rightarrow> [h]) @ r"
        using behind unf Cons hq by auto
      moreover have "q_strict lo hi (pre @ [q])" "\<forall>a\<in>set (pre @ [q]). hi a < lo ?g"
        "\<forall>a\<in>set (pre @ [q]). \<forall>b\<in>set post. hi a < lo b"
        using s g pg hq by (fastforce simp: q_strict_append q_strict_Cons)+
      ultimately show ?thesis using tail [OF g(1,2) _ _ _ e, of "pre @ [q]"] by (simp only:)
    qed
  qed
qed

text \<open>
  Two pieces that overlap in the byte where the first one ends stand in each other's way: whatever
  is merged in from behind the first one, both stay where they are.
\<close>

lemma merge_stuck:
  assumes "ok f" "lo a \<le> hi a" "hi a < lo f" "lo b \<le> hi a" "lo b \<le> hi b"
    and "q_merge lo hi trimf trimb f (a # b # rest) = (qs', h, d)"
  shows "\<exists>rest'. qs' = a # b # rest'"
proof (cases "hi b < lo f")
  case True
  then show ?thesis using assms by (auto simp: q_merge_def Let_def split: list.splits if_splits prod.splits option.splits)
next
  case False
  have "lo f \<le> hi f" using assms(1) by (rule ok_le)
  then show ?thesis using False assms
    by (auto simp: q_merge_def Let_def split: if_splits prod.splits option.splits)
qed

end

end
