(* ===== verification/Tcp_Queue.thy ===== *)
theory Tcp_Queue
  imports Tcp_Procs Frag_Queue
begin

text \<open>
  The sequencing queue of a connection as a queue of pieces of the byte stream.  Positions are
  offsets of sequence numbers from a base \<open>b\<close>, any number within half of the sequence space
  below everything on the queue (see Net_Prelude): on them seq_merge is the merge of Frag_Queue, and
  what that does to the stream carries over, wherever the 32 bit sequence numbers wrap.
\<close>

section \<open>Segments as pieces\<close>

definition seg_ok :: "seq \<Rightarrow> th \<Rightarrow> bool" where
  "seg_ok b t \<longleftrightarrow> 0 < t_len t \<and> t_len t < 65536 \<and> seq_off b (t_seq t) + t_len t < 2 ^ 31
     \<and> chain_len (t_m t) = t_len t \<and> (\<forall>m\<in>set (t_m t). mbuf_ok m)"

definition seg_lo :: "seq \<Rightarrow> th \<Rightarrow> nat" where
  "seg_lo b t = seq_off b (t_seq t)"

definition seg_hi :: "seq \<Rightarrow> th \<Rightarrow> nat" where
  "seg_hi b t = seq_off b (t_end t)"

definition seg_data :: "th \<Rightarrow> byte list" where
  "seg_data t = chain_bytes (t_m t)"

definition seg_front :: "nat \<Rightarrow> th \<Rightarrow> th" where "seg_front i t = th_front (int i) t"
definition seg_back :: "nat \<Rightarrow> th \<Rightarrow> th" where "seg_back i t = th_back (int i) t"

lemma seg_hi_eq:
  assumes "seg_ok b t"
  shows "seg_hi b t = seg_lo b t + t_len t - 1"
proof -
  have "0 < t_len t" "seg_lo b t + t_len t < 2 ^ 32"
    using assms by (auto simp: seg_ok_def seg_lo_def)
  then have "seq_off b (t_seq t + word_of_nat (t_len t - 1)) = seg_lo b t + (t_len t - 1)"
    unfolding seg_lo_def by (intro seq_off_add) simp
  moreover have "t_end t = t_seq t + word_of_nat (t_len t - 1)"
    using \<open>0 < t_len t\<close> by (simp add: t_end_def of_nat_diff)
  ultimately show ?thesis using \<open>0 < t_len t\<close> by (simp add: seg_hi_def)
qed

lemma seg_ok_bounds:
  assumes "seg_ok b t"
  shows "seq_off b (t_seq t) < 2 ^ 31" "seq_off b (t_end t) < 2 ^ 31"
    "seg_lo b t \<le> seg_hi b t" "t_len t = Suc (seg_hi b t) - seg_lo b t"
  using assms seg_hi_eq [OF assms] by (auto simp: seg_ok_def seg_lo_def seg_hi_def)

lemma th_front_simps [simp]:
  "t_seq (th_front i t) = t_seq t + word_of_int i"
  "t_len (th_front i t) = ushort (int (t_len t) - i)" "t_m (th_front i t) = m_adj (t_m t) i"
  by (simp_all add: th_front_def)

lemma th_back_simps [simp]:
  "t_seq (th_back i t) = t_seq t"
  "t_len (th_back i t) = ushort (int (t_len t) - i)" "t_m (th_back i t) = m_adj (t_m t) (- i)"
  by (simp_all add: th_back_def)

lemma chain_len_m_adj:
  assumes "\<forall>m\<in>set mp. mbuf_ok m"
  shows "chain_len (m_adj mp (int i)) = chain_len mp - i" "chain_len (m_adj mp (- int i)) = chain_len mp - i"
  using m_adj_chain_bytes [OF assms] unfolding length_chain_bytes [symmetric] by simp_all

lemma seg_front_laws:
  assumes ok: "seg_ok b t" and i: "i < Suc (seg_hi b t) - seg_lo b t"
  shows "seg_ok b (seg_front i t) \<and> seg_lo b (seg_front i t) = seg_lo b t + i
    \<and> seg_hi b (seg_front i t) = seg_hi b t \<and> seg_data (seg_front i t) = drop i (seg_data t)"
proof -
  have i': "i < t_len t" using i seg_ok_bounds(4) [OF ok] by simp
  have len: "t_len (seg_front i t) = t_len t - i"
    using i' ok by (simp add: seg_front_def seg_ok_def nat_diff_distrib)
  have lo: "seg_lo b (seg_front i t) = seg_lo b t + i"
    using i' ok by (simp add: seg_front_def seg_lo_def seg_ok_def seq_off_add)
  have m: "\<forall>m\<in>set (t_m t). mbuf_ok m" using ok by (simp add: seg_ok_def)
  have mf: "t_m (seg_front i t) = m_adj (t_m t) (int i)" by (simp add: seg_front_def)
  have cl: "chain_len (t_m t) = t_len t" using ok by (simp add: seg_ok_def)
  have ok': "seg_ok b (seg_front i t)"
    unfolding seg_ok_def len mf chain_len_m_adj(1) [OF m] cl lo [unfolded seg_lo_def]
    using ok i' m_adj_keeps [OF m, of "int i"] by (auto simp: seg_ok_def)
  have "seg_data (seg_front i t) = drop i (seg_data t)"
    using m_adj_chain_bytes [OF m, of "int i"] by (simp add: seg_data_def seg_front_def)
  then show ?thesis using ok' lo seg_hi_eq [OF ok] seg_hi_eq [OF ok'] len i' by simp
qed

lemma seg_back_laws:
  assumes ok: "seg_ok b t" and i: "i < Suc (seg_hi b t) - seg_lo b t"
  shows "seg_ok b (seg_back i t) \<and> seg_lo b (seg_back i t) = seg_lo b t
    \<and> seg_hi b (seg_back i t) = seg_hi b t - i
    \<and> seg_data (seg_back i t) = take (Suc (seg_hi b t) - seg_lo b t - i) (seg_data t)"
proof -
  have i': "i < t_len t" using i seg_ok_bounds(4) [OF ok] by simp
  have len: "t_len (seg_back i t) = t_len t - i"
    using i' ok by (simp add: seg_back_def seg_ok_def nat_diff_distrib)
  have lo: "seg_lo b (seg_back i t) = seg_lo b t" by (simp add: seg_back_def seg_lo_def)
  have m: "\<forall>m\<in>set (t_m t). mbuf_ok m" and cl: "chain_len (t_m t) = t_len t"
    using ok by (simp_all add: seg_ok_def)
  have mb: "t_m (seg_back i t) = m_adj (t_m t) (- int i)" "t_seq (seg_back i t) = t_seq t"
    by (simp_all add: seg_back_def)
  have ok': "seg_ok b (seg_back i t)"
    unfolding seg_ok_def len mb chain_len_m_adj(2) [OF m] cl
    using ok i' m_adj_keeps [OF m, of "- int i"] by (auto simp: seg_ok_def)
  have "seg_data (seg_back i t) = take (t_len t - i) (seg_data t)"
    using m_adj_chain_bytes [OF m, of "- int i"] cl by (cases "i = 0") (simp_all add: seg_data_def seg_back_def)
  moreover have "Suc (seg_hi b t) - seg_lo b t = t_len t" using seg_ok_bounds(4) [OF ok] by simp
  moreover have "seg_hi b (seg_back i t) = seg_hi b t - i"
    unfolding seg_hi_eq [OF ok'] seg_hi_eq [OF ok] lo len using i' by simp
  ultimately show ?thesis using ok' lo by simp
qed

interpretation tcpq: frag_queue "seg_ok b" "seg_lo b" "seg_hi b" seg_data seg_front seg_back
  for b
proof unfold_locales
  fix f assume "seg_ok b f"
  then show "seg_lo b f \<le> seg_hi b f \<and> length (seg_data f) = Suc (seg_hi b f) - seg_lo b f"
    using seg_ok_bounds(3,4) [of b f] by (simp add: seg_data_def) (simp add: seg_ok_def)
qed (simp_all add: seg_front_laws seg_back_laws)

section \<open>The code is the merge\<close>

lemma seg_diff:
  assumes "seg_ok b t" "seg_ok b q"
  shows "sint (t_end t - t_seq q + 1) = int (Suc (seg_hi b t)) - int (seg_lo b q)"
proof -
  have o: "seq_off b (t_end t) < 2 ^ 31" "seq_off b (t_seq q) < 2 ^ 31"
    using assms seg_ok_bounds by auto
  have x: "seq_off b (t_end t + 1) = Suc (seg_hi b t)"
    using seq_off_add [of b "t_end t" 1] o(1) by (simp add: seg_hi_def)
  have "seq_off b (t_end t + 1) < 2 ^ 31"
    unfolding x using seg_hi_eq [OF assms(1)] assms(1) by (simp add: seg_ok_def seg_lo_def)
  then have "sint (t_end t + 1 - t_seq q) = int (Suc (seg_hi b t)) - int (seg_lo b q)"
    using sint_diff_off [OF _ o(2)] x by (simp add: seg_lo_def)
  moreover have "t_end t - t_seq q + 1 = t_end t + 1 - t_seq q" by simp
  ultimately show ?thesis by (simp only:)
qed

lemma seq_cmp:
  assumes "seg_ok b t" "seg_ok b q"
  shows "SEQ_GT (t_seq t) (t_end q) \<longleftrightarrow> seg_hi b q < seg_lo b t"
    "SEQ_LT (t_end t) (t_seq q) \<longleftrightarrow> seg_hi b t < seg_lo b q"
    "SEQ_LT (t_end t) (t_end q) \<longleftrightarrow> seg_hi b t < seg_hi b q"
    "SEQ_LEQ (t_end q) (t_end t) \<longleftrightarrow> seg_hi b q \<le> seg_hi b t"
    "SEQ_LT (t_seq q) (t_end t) \<longleftrightarrow> seg_lo b q < seg_hi b t"
    "SEQ_LEQ (t_seq t) (t_seq q) \<longleftrightarrow> seg_lo b t \<le> seg_lo b q"
  using seg_ok_bounds(1,2) [OF assms(1)] seg_ok_bounds(1,2) [OF assms(2)]
  by (simp_all add: seq_offs seg_lo_def seg_hi_def)

text \<open>A segment of which nothing is left has length 0 in the code and is None in the merge.\<close>

definition of_kept :: "th \<Rightarrow> th option \<Rightarrow> th \<Rightarrow> bool" where
  "of_kept t h t' \<longleftrightarrow> (case h of None \<Rightarrow> t_len t' = 0 | Some g \<Rightarrow> t' = g)"

lemma seq_succ_merge:
  assumes "seg_ok b t" "\<forall>q\<in>set qs. seg_ok b q"
    and "q_succ (seg_lo b) (seg_hi b) seg_back t qs = (h, r, d)"
  shows "\<exists>t'. seq_succ (t_end t) t qs = (t', r, d) \<and> of_kept t h t'"
  using assms
proof (induction qs arbitrary: h r d)
  case (Cons q qs)
  have ok: "seg_ok b t" "seg_ok b q" using Cons.prems by auto
  have pos: "t_len t \<noteq> 0" using ok by (simp add: seg_ok_def)
  have len: "int (t_len t) = int (Suc (seg_hi b t)) - int (seg_lo b t)"
    using seg_ok_bounds(3,4) [OF ok(1)] by simp
  note cmp = seq_cmp [OF ok] and i = seg_diff [OF ok]
  consider "\<not> seg_lo b q < seg_hi b t" | "seg_lo b q < seg_hi b t" "seg_hi b q \<le> seg_hi b t"
    | "seg_lo b q < seg_hi b t" "seg_hi b t < seg_hi b q" by linarith
  then show ?case
  proof cases
    case 2
    then obtain d' where "q_succ (seg_lo b) (seg_hi b) seg_back t qs = (h, r, d')" "d = q # d'"
      using Cons.prems(3) by (auto split: prod.splits)
    then show ?thesis using Cons.IH [OF ok(1)] Cons.prems(2) 2 cmp pos by fastforce
  next
    case 3
    have "int (Suc (seg_hi b t)) - int (seg_lo b q) = int (Suc (seg_hi b t) - seg_lo b q)"
      using 3 by simp
    then show ?thesis using 3 Cons.prems(3) cmp i len pos
      by (auto simp: of_kept_def seg_back_def Let_def split: if_splits)
  qed (use Cons.prems(3) cmp in \<open>auto simp: of_kept_def\<close>)
qed (auto simp: of_kept_def)

lemma seq_succ_empty: "t_len t = 0 \<Longrightarrow> seq_succ lst t qs = (t, qs, [])"
  by (cases qs) auto

lemma takeWhile_dropWhile_cong:
  assumes "\<forall>x\<in>set xs. P x \<longleftrightarrow> Q x"
  shows "takeWhile P xs = takeWhile Q xs" "dropWhile P xs = dropWhile Q xs"
  using assms by (auto cong: takeWhile_cong dropWhile_cong)

lemma seq_merge_is_merge:
  assumes ok: "seg_ok b t" "\<forall>q\<in>set queue. seg_ok b q"
    and nxt: "seq_off b nxt \<le> seg_hi b t"
    and m: "q_merge (seg_lo b) (seg_hi b) seg_front seg_back t queue = (q', h, d)"
  shows "\<exists>t'. seq_merge nxt (t_end t) t queue = (q', t', d, h \<noteq> None) \<and> (h = None \<or> h = Some t')"
proof -
  have pos: "t_len t \<noteq> 0" using ok by (simp add: seg_ok_def)
  have cmp0: "\<forall>q\<in>set queue. SEQ_GT (t_seq t) (t_end q) \<longleftrightarrow> seg_hi b q < seg_lo b t"
    using seq_cmp(1) ok by blast
  note tw = takeWhile_dropWhile_cong [OF cmp0]
  let ?pre = "takeWhile (\<lambda>q. seg_hi b q < seg_lo b t) queue"
  have geq: "SEQ_GEQ (t_end t) nxt"
    using nxt seg_ok_bounds(2) [OF ok(1)] by (simp add: SEQ_GEQ_off [of b] seg_hi_def)
  show ?thesis
  proof (cases "dropWhile (\<lambda>q. seg_hi b q < seg_lo b t) queue")
    case Nil
    then show ?thesis using m geq
      unfolding seq_merge_def q_merge_def tw Nil Let_def by auto
  next
    case (Cons q post)
    have "set (q # post) \<subseteq> set queue" using Cons by (metis set_dropWhileD subsetI)
    then have okq: "seg_ok b q" "\<forall>x\<in>set post. seg_ok b x" using ok(2) by auto
    have qt: "seg_lo b t \<le> seg_hi b q" using Cons by (auto simp: dropWhile_eq_Cons_conv)
    note cmp = seq_cmp [OF ok(1) okq(1)] and i = seg_diff [OF ok(1) okq(1)]
      and j = seg_diff [OF okq(1) ok(1)]
    have len: "int (t_len t) = int (Suc (seg_hi b t)) - int (seg_lo b t)"
      using seg_ok_bounds(3,4) [OF ok(1)] by simp
    consider (a) "seg_hi b t < seg_lo b q"
      | (b) "seg_lo b q \<le> seg_hi b t" "seg_hi b t < seg_hi b q"
      | (c) "seg_lo b q \<le> seg_hi b t" "seg_hi b q \<le> seg_hi b t" "seg_lo b t \<le> seg_lo b q"
      | (d) "seg_lo b q \<le> seg_hi b t" "seg_hi b q < seg_hi b t" "seg_lo b q < seg_lo b t"
      | (e) "seg_lo b q \<le> seg_hi b t" "seg_hi b q = seg_hi b t" "seg_lo b q < seg_lo b t"
      by linarith
    then show ?thesis
    proof cases
      case a
      then show ?thesis using m cmp Cons by (auto simp: seq_merge_def q_merge_def tw Let_def)
    next
      case b
      have "int (Suc (seg_hi b t)) - int (seg_lo b q) = int (Suc (seg_hi b t) - seg_lo b q)"
        using b by simp
      then show ?thesis using m cmp Cons b i len
        by (auto simp: seq_merge_def q_merge_def tw Let_def seg_back_def split: if_splits)
    next
      case c
      obtain h' r d' where s: "q_succ (seg_lo b) (seg_hi b) seg_back t post = (h', r, d')"
        by (cases "q_succ (seg_lo b) (seg_hi b) seg_back t post")
      obtain t' where t': "seq_succ (t_end t) t post = (t', r, d')" "of_kept t h' t'"
        using seq_succ_merge [OF ok(1) okq(2) s] by blast
      have "h' = Some g \<Longrightarrow> t_len g \<noteq> 0" for g
        using tcpq.q_succ_ok [OF ok(1), of post g r d'] s by (simp add: seg_ok_def)
      then show ?thesis using m cmp Cons c s t'
        by (cases h') (auto simp: seq_merge_def q_merge_def tw Let_def of_kept_def)
    next
      case d
      define i where "i = Suc (seg_hi b q) - seg_lo b t"
      have i31: "sint (t_end q - t_seq t + 1) = int i" "int i < int (t_len t)"
        using d qt j len by (simp_all add: i_def)
      have g: "seg_ok b (seg_front i t)" "seg_hi b (seg_front i t) = seg_hi b t"
        using seg_front_laws [OF ok(1), of i] d qt by (simp_all add: i_def)
      have e: "t_end (seg_front i t) = t_end t" using g(2) by (simp add: seg_hi_def)
      obtain h' r d' where s: "q_succ (seg_lo b) (seg_hi b) seg_back (seg_front i t) post = (h', r, d')"
        by (cases "q_succ (seg_lo b) (seg_hi b) seg_back (seg_front i t) post")
      obtain t' where t': "seq_succ (t_end t) (th_front (int i) t) post = (t', r, d')"
          "of_kept (seg_front i t) h' t'"
        using seq_succ_merge [OF g(1) okq(2) s] unfolding e by (auto simp: seg_front_def)
      have "h' = Some g \<Longrightarrow> t_len g \<noteq> 0" for g
        using tcpq.q_succ_ok [OF g(1), of post _ r d'] s by (auto simp: seg_ok_def)
      then show ?thesis using m cmp Cons d s t' i31 unfolding i_def [symmetric]
        by (cases h') (auto simp: seq_merge_def q_merge_def tw Let_def of_kept_def i_def [symmetric])
    next
      case e
      have "\<not> sint (t_end q - t_seq t + 1) < int (t_len t)" using e qt j len by simp
      then show ?thesis using m cmp Cons e
        by (auto simp: seq_merge_def q_merge_def tw Let_def seq_succ_empty)
    qed
  qed
qed

text \<open>C5: the sequencing of a segment into the receive queue (rcv_text), for sequence numbers
  anywhere in the 32 bit space: the queue stays in order, afterwards it covers exactly the positions
  it covered before and those of the segment, every byte on it is a byte that the queue or the
  segment had at that position, and every segment taken off the queue is handed over to be freed,
  exactly once.\<close>

theorem seq_merge_stream:
  assumes "seg_ok b t" "\<forall>q\<in>set queue. seg_ok b q" "q_ord (seg_lo b) (seg_hi b) queue"
    "seq_off b nxt \<le> seg_hi b t" "seq_merge nxt (t_end t) t queue = (queue', t', dead, keep)"
  shows "merge_ok (seg_ok b) (seg_lo b) (seg_hi b) seg_data t queue
           (queue', if keep then Some t' else None, dead)"
proof -
  obtain q' h d where m: "q_merge (seg_lo b) (seg_hi b) seg_front seg_back t queue = (q', h, d)"
    by (cases "q_merge (seg_lo b) (seg_hi b) seg_front seg_back t queue")
  have "q' = queue'" "d = dead" "h = (if keep then Some t' else None)"
    using seq_merge_is_merge [OF assms(1,2,4) m] assms(5) by auto
  then show ?thesis using tcpq.merge_ok_merge [OF assms(1,2,3)] m by simp
qed

definition sample_seg :: "seq \<Rightarrow> nat \<Rightarrow> th" where
  "sample_seg s n =
    \<lparr>t_s = 0, t_d = 0, t_src = 0, t_dst = 0, t_len = n, t_seq = s, t_ackno = 0, t_off = 5,
     t_flags = T_ACK, t_win = 0, t_urp = 0,
     t_m = [\<lparr>m_id = unat s, m_off = 10, m_len = n, m_act = 0, m_dat = (\<lambda>i. word_of_nat i)\<rparr>]\<rparr>"

lemma sample_seg_ok:
  "0 < n \<Longrightarrow> n \<le> 118 \<Longrightarrow> seq_off b s + n < 2 ^ 31 \<Longrightarrow> seg_ok b (sample_seg s n)"
  by (simp add: seg_ok_def sample_seg_def mbuf_ok_def net_simps)

theorem seq_merge_stream_witness:
  "q_pos (seg_lo (- 8)) (seg_hi (- 8))
     (fst (seq_merge (- 8) (t_end (sample_seg (- 4) 10)) (sample_seg (- 4) 10)
        [sample_seg (- 8) 6, sample_seg 2 7])) = {0 .. 16}"
proof -
  let ?t = "sample_seg (- 4) 10" and ?q = "[sample_seg (- 8) 6, sample_seg 2 7]"
  have ok: "seg_ok (- 8) (sample_seg (- 4) 10)" "seg_ok (- 8) (sample_seg (- 8) 6)"
    "seg_ok (- 8) (sample_seg 2 7)"
    by (rule sample_seg_ok; simp add: seq_off_def)+
  have lo: "seg_lo (- 8) (sample_seg (- 4) 10) = 4" "seg_lo (- 8) (sample_seg (- 8) 6) = 0"
    "seg_lo (- 8) (sample_seg 2 7) = 10"
    by (simp_all add: seg_lo_def sample_seg_def seq_off_def)
  have hi: "seg_hi (- 8) (sample_seg (- 4) 10) = 13" "seg_hi (- 8) (sample_seg (- 8) 6) = 5"
    "seg_hi (- 8) (sample_seg 2 7) = 16"
    by (simp_all add: seg_hi_eq [OF ok(1)] seg_hi_eq [OF ok(2)] seg_hi_eq [OF ok(3)] lo)
      (simp_all add: sample_seg_def)
  have ord: "q_ord (seg_lo (- 8)) (seg_hi (- 8)) ?q" by (simp add: q_ord_def lo hi)
  have P: "\<forall>q\<in>set ?q. seg_ok (- 8) q" using ok by simp
  have N: "seq_off (- 8) (- 8) \<le> seg_hi (- 8) (sample_seg (- 4) 10)" by (simp add: hi)
  obtain q' t' d k where m: "seq_merge (- 8) (t_end ?t) ?t ?q = (q', t', d, k)"
    by (cases "seq_merge (- 8) (t_end ?t) ?t ?q")
  have "q_pos (seg_lo (- 8)) (seg_hi (- 8)) q'
      = q_pos (seg_lo (- 8)) (seg_hi (- 8)) ?q \<union> {seg_lo (- 8) ?t .. seg_hi (- 8) ?t}"
    using seq_merge_stream [OF ok(1) P ord N m] unfolding merge_ok_def prod.case by blast
  also have "\<dots> = {0 .. 16}" by (auto simp: lo hi)
  finally show ?thesis using m by (simp only: fst_conv)
qed

end
