(* ===== verification/Recv_Stream.thy ===== *)
theory Recv_Stream
  imports Tcp_Queue
begin

text \<open>
  The receive side as a byte stream.  \<open>rcv_inv b f p tc\<close> says of a connection that what is on
  its sequencing queue belongs to the stream \<open>f\<close> (position to byte, positions being offsets of
  sequence numbers from \<open>b\<close>), that the user has been given everything below \<open>p\<close>, and that
  rcv_nxt is the first position not received.  rcv_text and present_data keep it as long as no
  segment on the queue starts at the last byte of a new one; the last section shows what happens
  when one does.
\<close>

section \<open>Runs of adjacent segments\<close>

fun contig :: "seq \<Rightarrow> th list \<Rightarrow> nat \<Rightarrow> nat \<Rightarrow> bool" where
  "contig b [] s e \<longleftrightarrow> s = e"
| "contig b (q # qs) s e \<longleftrightarrow> seg_lo b q = s \<and> contig b qs (Suc (seg_hi b q)) e"

lemma contig_append: "contig b (xs @ ys) s e \<longleftrightarrow> (\<exists>m. contig b xs s m \<and> contig b ys m e)"
  by (induction xs arbitrary: s) auto

definition seg_fits :: "seq \<Rightarrow> (nat \<Rightarrow> byte) \<Rightarrow> th \<Rightarrow> bool" where
  "seg_fits b f q \<longleftrightarrow> seg_data q = map f [seg_lo b q ..< Suc (seg_hi b q)]"

lemma contig_le:
  "contig b xs s e \<Longrightarrow> \<forall>q\<in>set xs. seg_ok b q \<Longrightarrow> s \<le> e \<and> (\<forall>q\<in>set xs. s \<le> seg_lo b q \<and> seg_hi b q < e)"
proof (induction xs arbitrary: s)
  case (Cons q xs)
  have "seg_lo b q \<le> seg_hi b q" using Cons.prems seg_ok_bounds(3) [of b q] by simp
  then show ?case using Cons.IH [of "Suc (seg_hi b q)"] Cons.prems by fastforce
qed simp

lemma contig_data:
  "contig b xs s e \<Longrightarrow> \<forall>q\<in>set xs. seg_ok b q \<and> seg_fits b f q \<Longrightarrow>
   concat (map seg_data xs) = map f [s ..< e]"
proof (induction xs arbitrary: s)
  case (Cons q xs)
  have q: "seg_lo b q = s" "contig b xs (Suc (seg_hi b q)) e" "seg_lo b q \<le> seg_hi b q"
    using Cons.prems seg_ok_bounds(3) by auto
  then have "s \<le> Suc (seg_hi b q)" "Suc (seg_hi b q) \<le> e"
    using contig_le [OF q(2)] Cons.prems by auto
  then have "[s ..< Suc (seg_hi b q)] @ [Suc (seg_hi b q) ..< e] = [s ..< e]"
    using upt_add_eq_append [of s "Suc (seg_hi b q)" "e - Suc (seg_hi b q)"] by simp
  then show ?case
    using Cons.IH [OF q(2)] Cons.prems q(1) by (auto simp: seg_fits_def simp flip: map_append)
qed simp



section \<open>firstempty\<close>

lemma end_succ_off:
  assumes "seg_ok b q"
  shows "seq_off b (t_end q + 1) = Suc (seg_hi b q)" "Suc (seg_hi b q) < 2 ^ 31"
proof -
  show "Suc (seg_hi b q) < 2 ^ 31"
    using assms seg_hi_eq [OF assms] by (auto simp: seg_ok_def seg_lo_def)
  then show "seq_off b (t_end q + 1) = Suc (seg_hi b q)"
    using seq_off_add [of b "t_end q" 1] by (simp add: seg_hi_def)
qed

lemma fe_walk_contig:
  "contig b (p # run) s e \<Longrightarrow> \<forall>q\<in>set (p # run @ rest). seg_ok b q \<Longrightarrow> \<forall>q\<in>set rest. e < seg_lo b q \<Longrightarrow>
   seq_off b (fe_walk p (run @ rest)) = e"
proof (induction run arbitrary: p s)
  case Nil
  have e: "seq_off b (t_end p + 1) = e" using Nil end_succ_off [of b p] by simp
  show ?case
  proof (cases rest)
    case (Cons q qs)
    then have "t_end p + 1 \<noteq> t_seq q" using Nil e by (auto simp: seg_lo_def)
    then show ?thesis using Cons e by (simp add: SEQ_EQ_def)
  qed (use e in simp)
next
  case (Cons q run)
  have "seq_off b (t_end p + 1) = seq_off b (t_seq q)"
    using Cons.prems end_succ_off [of b p] by (simp add: seg_lo_def)
  then have "t_end p + 1 = t_seq q" by simp
  then show ?case using Cons.IH [of q "seg_lo b q"] Cons.prems by (simp add: SEQ_EQ_def)
qed

lemma firstempty_contig:
  assumes "t_rcv tc = run @ rest" "contig b run p e" "p \<le> seq_off b (rcv_nxt tc)"
    and "run = [] \<Longrightarrow> e = seq_off b (rcv_nxt tc)" "\<forall>q\<in>set rest. e < seg_lo b q"
    and "\<forall>q\<in>set (t_rcv tc). seg_ok b q" "seq_off b (rcv_nxt tc) < 2 ^ 31"
  shows "seq_off b (firstempty tc) = e"
proof -
  have cmp: "SEQ_LT (rcv_nxt tc) (t_seq q) \<longleftrightarrow> seq_off b (rcv_nxt tc) < seg_lo b q" if "seg_ok b q" for q
    using SEQ_LT_off [OF assms(7) seg_ok_bounds(1) [OF that]] by (simp add: seg_lo_def)
  show ?thesis
  proof (cases run)
    case Nil
    then show ?thesis using assms cmp by (auto simp: firstempty_def split: list.splits)
  next
    case (Cons q qs)
    then have "\<not> SEQ_LT (rcv_nxt tc) (t_seq q)" using assms(1-3,6) cmp [of q] by simp
    then show ?thesis
      using fe_walk_contig [of b q qs p e rest] assms Cons by (simp add: firstempty_def)
  qed
qed


section \<open>The invariant\<close>

definition rcv_inv :: "seq \<Rightarrow> (nat \<Rightarrow> byte) \<Rightarrow> nat \<Rightarrow> tcb \<Rightarrow> bool" where
  "rcv_inv b f p tc \<longleftrightarrow>
    seq_off b (rcv_nxt tc) < 2 ^ 31 \<and> q_strict (seg_lo b) (seg_hi b) (t_rcv tc)
    \<and> (\<forall>q\<in>set (t_rcv tc). seg_ok b q \<and> seg_fits b f q)
    \<and> (\<exists>run rest. t_rcv tc = run @ rest \<and> contig b run p (seq_off b (rcv_nxt tc))
         \<and> (\<forall>q\<in>set rest. seq_off b (rcv_nxt tc) < seg_lo b q))"

section \<open>present_data\<close>

lemma strip_null_stream:
  "strip_null ms net = (ms', net') \<Longrightarrow>
   chain_bytes ms' = chain_bytes ms \<and> ucbs net' = ucbs net \<and> tcbs net' = tcbs net"
proof (induction ms arbitrary: ms' net)
  case (Cons m ms)
  show ?case
  proof (cases "m_len m = 0")
    case True
    have "ucbs (snd (m_free [m] net)) = ucbs net \<and> tcbs (snd (m_free [m] net)) = tcbs net"
      by (auto simp: m_free_def panic_def split: sum.splits)
    then show ?thesis using Cons.IH [of "snd (m_free [m] net)" ms'] Cons.prems True by (simp add: mbytes_empty)
  next
    case False
    obtain ms2 net2 where "strip_null ms net = (ms2, net2)" by (rule prod.exhaust)
    then show ?thesis using Cons.IH Cons.prems False by auto
  qed
qed simp

lemma present_loop_bytes:
  assumes "present_loop u ready Q net = (Q', net')" "\<forall>q\<in>set Q. seg_ok b q" "seq_off b ready < 2 ^ 31"
  shows "\<exists>xs. Q = xs @ Q' \<and> (\<forall>q\<in>set xs. seg_hi b q < seq_off b ready)
    \<and> chain_bytes (uc_rbuf (ucbs net' u)) = chain_bytes (uc_rbuf (ucbs net u)) @ concat (map seg_data xs)
    \<and> tcbs net' = tcbs net
    \<and> (uc_rsize (ucbs net u) < uc_rcv (ucbs net u) \<and> (\<exists>q qs. Q = q # qs \<and> seg_hi b q < seq_off b ready) \<longrightarrow> xs \<noteq> [])"
  using assms
proof (induction Q arbitrary: net)
  case (Cons q Q)
  have lt: "SEQ_LT (t_end q) ready \<longleftrightarrow> seg_hi b q < seq_off b ready"
    using SEQ_LT_off [OF _ Cons.prems(3), of "t_end q"] seg_ok_bounds(2) [of b q] Cons.prems(2)
    by (simp add: seg_hi_def)
  show ?case
  proof (cases "uc_rsize (ucbs net u) < uc_rcv (ucbs net u) \<and> SEQ_LT (t_end q) ready")
    case True
    obtain ms net1 where s: "strip_null (t_m q) net = (ms, net1)" by (rule prod.exhaust)
    note sb = strip_null_stream [OF s]
    let ?net = "upd_ucb u (\<lambda>up. up\<lparr>uc_rbuf := uc_rbuf up @ ms,
                    uc_rsize := uchar (int (uc_rsize up) + int (length ms))\<rparr>) net1"
    have e: "present_loop u ready Q ?net = (Q', net')" using Cons.prems(1) True s by simp
    from Cons.IH [OF e] Cons.prems obtain xs where xs: "Q = xs @ Q'" "\<forall>q\<in>set xs. seg_hi b q < seq_off b ready"
      "chain_bytes (uc_rbuf (ucbs net' u)) = chain_bytes (uc_rbuf (ucbs ?net u)) @ concat (map seg_data xs)"
      "tcbs net' = tcbs ?net" by auto
    then show ?thesis
      using sb True lt by (intro exI [of _ "q # xs"]) (auto simp: upd_ucb_def seg_data_def [of q])
  next
    case False
    then show ?thesis using Cons.prems lt by (intro exI [of _ "[]"]) auto
  qed
qed auto

lemma contig_prefix:
  assumes "run @ rest = xs @ ys" "contig b run p e" "\<forall>q\<in>set rest. e < seg_lo b q \<and> seg_ok b q"
    "\<forall>q\<in>set xs. seg_hi b q < e"
  shows "\<exists>run'. run = xs @ run' \<and> ys = run' @ rest"
proof -
  obtain us where "run = xs @ us \<and> ys = us @ rest \<or> xs = run @ us \<and> rest = us @ ys"
    using assms(1) by (auto simp: append_eq_append_conv2)
  moreover have "us = []" if "xs = run @ us" "rest = us @ ys"
  proof (rule ccontr)
    assume "us \<noteq> []"
    then obtain q where "q \<in> set us" by (meson list.set_sel(1))
    then have "seg_hi b q < e" "e < seg_lo b q" "seg_lo b q \<le> seg_hi b q"
      using that assms(3,4) seg_ok_bounds(3) [of b q] by auto
    then show False by simp
  qed
  ultimately show ?thesis by auto
qed

lemma notify_frame [simp]:
  "tcbs (wakeup c net) = tcbs net" "ucbs (wakeup c net) = ucbs net" "tcbs (to_user q s net) = tcbs net"
  "uc_rbuf (ucbs (to_user q s net) u) = uc_rbuf (ucbs net u)"
  "uc_rsize (ucbs (to_user q s net) u) = uc_rsize (ucbs net u)"
  "uc_rcv (ucbs (to_user q s net) u) = uc_rcv (ucbs net u)" "tcbs (upd_ucb q g net) = tcbs net"
  "ucbs (upd_tcb t h net) = ucbs net"
  by (simp_all add: wakeup_def emit_def to_user_def upd_ucb_def upd_tcb_def Let_def)

lemma present_data_eq:
  assumes "syn_acked (tcbs net tp)" "t_rcv (tcbs net tp) \<noteq> []"
    and "present_loop (t_ucb (tcbs net tp)) (firstempty (tcbs net tp)) (t_rcv (tcbs net tp)) net = (Q', net1)"
  shows "tcbs (present_data tp net) tp = (tcbs net1 tp)\<lparr>t_rcv := Q'\<rparr>
    \<and> uc_rbuf (ucbs (present_data tp net) u) = uc_rbuf (ucbs net1 u)
    \<and> uc_rsize (ucbs (present_data tp net) u) = uc_rsize (ucbs net1 u)
    \<and> uc_rcv (ucbs (present_data tp net) u) = uc_rcv (ucbs net1 u)"
proof -
  let ?u = "t_ucb (tcbs net tp)"
  let ?n = "upd_ucb ?u (\<lambda>up. up\<lparr>uc_flags := uc_flags up AND NOT ULOCK\<rparr>) (upd_tcb tp (t_rcv_update (\<lambda>_. Q')) net1)"
  define n2 where "n2 = (let net = wakeup (W_ucflags ?u) ?n in
    if uc_rsize (ucbs net ?u) \<noteq> 0 then wakeup (W_ucb ?u) net else net)"
  have n2: "tcbs n2 = tcbs ?n" "ucbs n2 = ucbs ?n" by (simp_all add: n2_def Let_def)
  have "present_data tp net = n2 \<or> present_data tp net = to_user ?u UCLOSED n2"
    using assms by (simp add: present_data_def Let_def n2_def)
  then show ?thesis using n2 by (auto simp: upd_tcb_def upd_ucb_def)
qed

text \<open>C17: present_data gives the user the stream and nothing else.  On a synchronised connection
  in the invariant, what it appends to the user's receive buffer is exactly the next stretch of the
  stream, from the position \<open>p\<close> the user had reached to a new one, and the rest of the connection
  is in the invariant for the new position.  It makes progress when the user has room and there is
  something in order.\<close>

theorem present_data_stream:
  assumes inv: "rcv_inv b f p (tcbs net tp)" and syn: "syn_acked (tcbs net tp)"
    and u: "u = t_ucb (tcbs net tp)"
  shows "\<exists>p'. p \<le> p' \<and> rcv_inv b f p' (tcbs (present_data tp net) tp)
    \<and> rcv_nxt (tcbs (present_data tp net) tp) = rcv_nxt (tcbs net tp)
    \<and> chain_bytes (uc_rbuf (ucbs (present_data tp net) u)) = chain_bytes (uc_rbuf (ucbs net u)) @ map f [p ..< p']
    \<and> (uc_rsize (ucbs net u) < uc_rcv (ucbs net u) \<and> p < seq_off b (rcv_nxt (tcbs net tp)) \<longrightarrow> p < p')"
proof -
  let ?tc = "tcbs net tp" and ?e = "seq_off b (rcv_nxt (tcbs net tp))"
  obtain run rest where q: "t_rcv ?tc = run @ rest" "contig b run p ?e" "\<forall>q\<in>set rest. ?e < seg_lo b q"
    and e: "?e < 2 ^ 31" and st: "q_strict (seg_lo b) (seg_hi b) (t_rcv ?tc)"
    and ok: "\<forall>q\<in>set (t_rcv ?tc). seg_ok b q \<and> seg_fits b f q"
    using inv by (auto simp: rcv_inv_def)
  have okr: "\<forall>q\<in>set run. seg_ok b q \<and> seg_fits b f q" using ok q(1) by simp
  have pe: "p \<le> ?e" using contig_le [OF q(2)] okr by blast
  show ?thesis
  proof (cases "t_rcv ?tc = []")
    case True
    then show ?thesis using inv by (intro exI [of _ p]) (auto simp: present_data_def rcv_inv_def)
  next
    case False
    have fe: "seq_off b (firstempty ?tc) = ?e"
      by (rule firstempty_contig [OF q(1,2) pe _ q(3) _ e]) (use ok q(2) in auto)
    obtain Q' net1 where l: "present_loop u (firstempty ?tc) (t_rcv ?tc) net = (Q', net1)"
      by (rule prod.exhaust)
    have ok2: "\<forall>q\<in>set (t_rcv ?tc). seg_ok b q" and r31: "seq_off b (firstempty ?tc) < 2 ^ 31"
      using ok e fe by simp_all
    from present_loop_bytes [OF l ok2 r31, unfolded fe] obtain xs where xs: "t_rcv ?tc = xs @ Q'" "\<forall>q\<in>set xs. seg_hi b q < ?e"
      "chain_bytes (uc_rbuf (ucbs net1 u)) = chain_bytes (uc_rbuf (ucbs net u)) @ concat (map seg_data xs)"
      "tcbs net1 = tcbs net"
      and prog: "uc_rsize (ucbs net u) < uc_rcv (ucbs net u) \<and> (\<exists>q qs. t_rcv ?tc = q # qs \<and> seg_hi b q < ?e) \<Longrightarrow> xs \<noteq> []"
      by blast
    have eq: "run @ rest = xs @ Q'" using q(1) xs(1) by (simp only:)
    have okrest: "\<forall>q\<in>set rest. ?e < seg_lo b q \<and> seg_ok b q" using q(3) ok2 [unfolded q(1)] by simp
    obtain run' where run': "run = xs @ run'" "Q' = run' @ rest"
      using contig_prefix [OF eq q(2) okrest xs(2)] by blast
    obtain p' where p': "contig b xs p p'" "contig b run' p' ?e"
      using q(2) [unfolded run'(1) contig_append] by blast
    have okx: "\<forall>q\<in>set xs. seg_ok b q \<and> seg_fits b f q" using okr run'(1) by simp
    have data: "concat (map seg_data xs) = map f [p ..< p']" by (rule contig_data [OF p'(1) okx])
    have le: "p \<le> p'" using contig_le [OF p'(1)] okx by blast
    have tcb: "tcbs (present_data tp net) tp = ?tc\<lparr>t_rcv := Q'\<rparr>"
      and rbuf: "uc_rbuf (ucbs (present_data tp net) u) = uc_rbuf (ucbs net1 u)"
      using present_data_eq [OF syn False l [unfolded u]] xs(4) u by simp_all
    have "q_strict (seg_lo b) (seg_hi b) Q'" using st xs(1) by (simp add: q_strict_def sorted_wrt_append)
    then have inv': "rcv_inv b f p' (?tc\<lparr>t_rcv := Q'\<rparr>)"
      using ok xs(1) e run'(2) p'(2) q(3) by (auto simp: rcv_inv_def)
    have "p < p'" if a: "uc_rsize (ucbs net u) < uc_rcv (ucbs net u)" "p < ?e"
    proof -
      obtain q0 qs where r0: "run = q0 # qs" using q(2) a(2) by (cases run) auto
      then have "seg_hi b q0 < ?e" using contig_le [OF q(2)] okr by auto
      then have "xs \<noteq> []" using prog a(1) q(1) r0 by auto
      then obtain x ys where x: "xs = x # ys" by (cases xs) auto
      then have "contig b ys (Suc (seg_hi b x)) p'" "seg_lo b x = p" using p'(1) by auto
      then have "Suc (seg_hi b x) \<le> p'" "p \<le> seg_hi b x"
        using contig_le [of b ys] okx x seg_ok_bounds(3) [of b x] by auto
      then show ?thesis by simp
    qed
    then show ?thesis using le inv' rbuf xs(3) data tcb by (intro exI [of _ p']) simp
  qed
qed

section \<open>rcv_text\<close>





lemma freem_segs_frame [simp]: "tcbs (freem_segs ts net) = tcbs net"
  by (induction ts arbitrary: net) (auto simp: m_freem_def panic_def split: sum.splits)

lemma fe_congr:
  "t_rcv tc = t_rcv tc' \<Longrightarrow> rcv_nxt tc = rcv_nxt tc' \<Longrightarrow> firstempty tc = firstempty tc'"
  by (simp add: firstempty_def split: list.split)

text \<open>rcv_text behind the trimming at the front, when there are buffers and nothing is set aside.\<close>

lemma rcv_text_plenty:
  assumes "n_lowat (pool net) \<le> n_bufs (pool net)" "t_rcv_unack (tcbs net tp) = []"
    and "\<not> (sint (rcv_nxt (tcbs net tp) - t_seq t) > 0 \<and> \<not> sint (rcv_nxt (tcbs net tp) - t_seq t) < int (t_len t))"
    and t1: "t1 = (if sint (rcv_nxt (tcbs net tp) - t_seq t) > 0
                   then th_front (sint (rcv_nxt (tcbs net tp) - t_seq t)) t else t)"
    and m: "seq_merge (rcv_nxt (tcbs net tp)) (t_end t1) t1 (t_rcv (tcbs net tp)) = (Q', t', d, keep)"
  shows "t_rcv (tcbs (snd (rcv_text tp t net)) tp) = Q'
    \<and> rcv_nxt (tcbs (snd (rcv_text tp t net)) tp) = firstempty ((tcbs net tp)\<lparr>t_rcv := Q'\<rparr>)"
proof -
  have room: "text_room tp t1 net = (t1, t_end t1, True, net)"
    using assms(1) by (simp add: text_room_def Let_def)
  let ?n1 = "upd_tcb tp (\<lambda>c. c\<lparr>t_rcv := Q', net_keep := (net_keep c \<or> keep)\<rparr>) net"
  let ?n3 = "upd_tcb tp (\<lambda>c. c\<lparr>rcv_nxt := firstempty c, ack_due := True\<rparr>) (freem_segs d ?n1)"
  have un: "t_rcv_unack (tcbs ?n3 tp) = []" using assms(2) by (simp add: upd_tcb_def)
  have "snd (rcv_text tp t net) = ?n3"
    using m un unfolding rcv_text_def Let_def if_not_P [OF assms(3)] t1 [symmetric] room prod.case by simp
  moreover have "firstempty (tcbs ?n1 tp) = firstempty ((tcbs net tp)\<lparr>t_rcv := Q'\<rparr>)"
    by (rule fe_congr) (simp_all add: upd_tcb_def)
  ultimately show ?thesis by (simp add: upd_tcb_def)
qed


text \<open>Segments of the stream in which the byte at a position is the position, seen from - 8.\<close>

definition stream_seg :: "nat \<Rightarrow> nat \<Rightarrow> th" where
  "stream_seg k n = (sample_seg (- 8 + word_of_nat k) n)\<lparr>t_m :=
     [\<lparr>m_id = k, m_off = 10, m_len = n, m_act = 0, m_dat = (\<lambda>i. word_of_nat (i - 10 + k))\<rparr>]\<rparr>"

lemma stream_seg:
  assumes "0 < n" "n \<le> 118" "k < 1000"
  shows "seg_ok (- 8) (stream_seg k n)" "seg_fits (- 8) word_of_nat (stream_seg k n)"
    "seg_lo (- 8) (stream_seg k n) = k" "seg_hi (- 8) (stream_seg k n) = k + n - 1"
proof -
  have lo: "seg_lo (- 8) (stream_seg k n) = k"
    using assms by (simp add: stream_seg_def sample_seg_def seg_lo_def seq_off_def unat_of_nat take_bit_nat_eq_self)
  show ok: "seg_ok (- 8) (stream_seg k n)"
    using assms lo by (simp add: seg_ok_def seg_lo_def stream_seg_def sample_seg_def mbuf_ok_def net_simps)
  show hi: "seg_hi (- 8) (stream_seg k n) = k + n - 1"
    unfolding seg_hi_eq [OF ok] lo by (simp add: stream_seg_def sample_seg_def)
  show "seg_fits (- 8) word_of_nat (stream_seg k n)"
    using assms unfolding seg_fits_def lo hi
    by (intro nth_equalityI) (auto simp: seg_data_def stream_seg_def mbytes_def)
  show "seg_lo (- 8) (stream_seg k n) = k" by (rule lo)
qed

text \<open>A connection with positions 0 to 3 and 12 to 16 on its queue.\<close>

definition recv_net :: net where
  "recv_net = net0\<lparr>tcbs := (tcbs net0)(4 := tcb0\<lparr>t_ucb := 5, syn_acked := True, syn_rcvd := True,
      t_state := ESTAB, rcv_nxt := - 4, t_rcv := [stream_seg 0 4, stream_seg 12 5]\<rparr>)\<rparr>"

lemma recv_net_tcb:
  "t_rcv (tcbs recv_net 4) = [stream_seg 0 4, stream_seg 12 5]" "seq_off (- 8) (rcv_nxt (tcbs recv_net 4)) = 4"
  "t_ucb (tcbs recv_net 4) = 5" "syn_acked (tcbs recv_net 4)" "t_rcv_unack (tcbs recv_net 4) = []"
  "uc_rbuf (ucbs recv_net 5) = []" "uc_rsize (ucbs recv_net 5) < uc_rcv (ucbs recv_net 5)"
  "n_lowat (pool recv_net) \<le> n_bufs (pool recv_net)"
  by (simp_all add: recv_net_def seq_off_def net0_def ucb0_def tcb0_def pool0_def)

lemma recv_net_inv: "rcv_inv (- 8) word_of_nat 0 (tcbs recv_net 4)"
  unfolding rcv_inv_def recv_net_tcb
  by (intro conjI exI [of _ "[stream_seg 0 4]"] exI [of _ "[stream_seg 12 5]"])
    (simp_all add: q_strict_def stream_seg)

theorem present_data_stream_witness:
  "\<exists>p'>0. chain_bytes (uc_rbuf (ucbs (present_data 4 recv_net) 5)) = map word_of_nat [0 ..< p']"
  using present_data_stream [OF recv_net_inv recv_net_tcb(4) recv_net_tcb(3) [symmetric]]
  by (auto simp: recv_net_tcb)


section \<open>Segments that overlap in one byte\<close>

text \<open>The state a merge can leave: the first two segments share the byte where the first one
  ends, and rcv_nxt is behind the first one.\<close>

definition stuck :: "seq \<Rightarrow> tcb \<Rightarrow> bool" where
  "stuck b tc \<longleftrightarrow> (\<exists>a q rest. t_rcv tc = a # q # rest \<and> (\<forall>s\<in>set (t_rcv tc). seg_ok b s)
     \<and> q_ord (seg_lo b) (seg_hi b) (t_rcv tc) \<and> seg_lo b q = seg_hi b a
     \<and> seq_off b (rcv_nxt tc) = Suc (seg_hi b a))"

lemma stuck_firstempty:
  assumes "t_rcv tc = a # q # rest" "seg_ok b a" "seg_ok b q" "seg_lo b q = seg_hi b a"
    "seq_off b (rcv_nxt tc) = Suc (seg_hi b a)"
  shows "firstempty tc = rcv_nxt tc"
proof -
  have e: "t_end a + 1 = rcv_nxt tc"
    using end_succ_off(1) [OF assms(2)] assms(5) by (metis seq_off_eq_iff)
  have lt: "\<not> SEQ_LT (rcv_nxt tc) (t_seq a)"
    using SEQ_LT_off [of b "rcv_nxt tc" "t_seq a"] seg_ok_bounds(1,3) [OF assms(2)] assms(5)
      end_succ_off(2) [OF assms(2)] by (simp add: seg_lo_def)
  have "t_end a + 1 \<noteq> t_seq q" using assms(4,5) e by (auto simp: seg_lo_def)
  then show ?thesis using lt e assms(1) by (simp add: firstempty_def SEQ_EQ_def)
qed


text \<open>How the state comes about: 6 to 7 and 10 to 12 are waiting for 5, and 5 to 10 arrive.\<close>

definition overlap_net :: net where
  "overlap_net = net0\<lparr>tcbs := (tcbs net0)(4 := tcb0\<lparr>t_ucb := 5, syn_acked := True, syn_rcvd := True,
      t_state := ESTAB, rcv_nxt := - 3, t_rcv := [stream_seg 6 2, stream_seg 10 3]\<rparr>)\<rparr>"

lemma overlap_arises: "stuck (- 8) (tcbs (snd (rcv_text 4 (stream_seg 5 6) overlap_net)) 4)"
proof -
  have q: "t_rcv (tcbs overlap_net 4) = [stream_seg 6 2, stream_seg 10 3]" "rcv_nxt (tcbs overlap_net 4) = - 3"
    "t_rcv_unack (tcbs overlap_net 4) = []" "n_lowat (pool overlap_net) \<le> n_bufs (pool overlap_net)"
    by (simp_all add: overlap_net_def net0_def tcb0_def pool0_def)
  have s: "t_seq (stream_seg 5 6) = - 3" "t_end (stream_seg 5 6) = 2" "t_len (stream_seg 5 6) = 6"
    "t_seq (stream_seg 6 2) = - 2" "t_end (stream_seg 6 2) = - 1"
    "t_seq (stream_seg 10 3) = 2" "t_end (stream_seg 10 3) = 4"
    by (simp_all add: stream_seg_def sample_seg_def t_end_def)
  have m: "seq_merge (rcv_nxt (tcbs overlap_net 4)) (t_end (stream_seg 5 6)) (stream_seg 5 6) (t_rcv (tcbs overlap_net 4))
      = ([stream_seg 5 6, stream_seg 10 3], stream_seg 5 6, [stream_seg 6 2], True)"
    unfolding q seq_merge_def by (simp add: s seq_defs)
  have "\<not> (sint (rcv_nxt (tcbs overlap_net 4) - t_seq (stream_seg 5 6)) > 0
      \<and> \<not> sint (rcv_nxt (tcbs overlap_net 4) - t_seq (stream_seg 5 6)) < int (t_len (stream_seg 5 6)))"
    "stream_seg 5 6 = (if sint (rcv_nxt (tcbs overlap_net 4) - t_seq (stream_seg 5 6)) > 0
      then th_front (sint (rcv_nxt (tcbs overlap_net 4) - t_seq (stream_seg 5 6))) (stream_seg 5 6)
      else stream_seg 5 6)" by (simp_all add: q s)
  from rcv_text_plenty [OF q(4,3) this m]
  have "t_rcv (tcbs (snd (rcv_text 4 (stream_seg 5 6) overlap_net)) 4) = [stream_seg 5 6, stream_seg 10 3]"
    "rcv_nxt (tcbs (snd (rcv_text 4 (stream_seg 5 6) overlap_net)) 4) = 3"
    by (simp_all add: firstempty_def s seq_defs q)
  then show ?thesis by (auto simp: stuck_def stream_seg q_ord_def seq_off_def)
qed

definition stuck_net :: net where
  "stuck_net = net0\<lparr>tcbs := (tcbs net0)(4 := tcb0\<lparr>t_ucb := 5, syn_acked := True, syn_rcvd := True,
      t_state := ESTAB, rcv_nxt := 3, t_rcv := [stream_seg 5 6, stream_seg 10 3]\<rparr>)\<rparr>"


text \<open>One call of present_data that takes one segment.\<close>

lemma strip_null_length: "strip_null ms net = (ms', net') \<Longrightarrow> length ms' \<le> length ms"
proof (induction ms arbitrary: ms' net net')
  case (Cons m ms)
  obtain x n where x: "strip_null ms (snd (m_free [m] net)) = (x, n)" by (rule prod.exhaust)
  obtain y k where y: "strip_null ms net = (y, k)" by (rule prod.exhaust)
  show ?case using Cons.prems Cons.IH [OF x] Cons.IH [OF y] x y by (auto split: if_splits)
qed simp

lemma present_one:
  assumes tc: "t_rcv (tcbs net tp) = s # rest" "syn_acked (tcbs net tp)" "t_ucb (tcbs net tp) = u"
    and room: "uc_rsize (ucbs net u) < uc_rcv (ucbs net u)"
    and s: "SEQ_LT (t_end s) (firstempty (tcbs net tp))"
    and rest: "\<And>q qs. rest = q # qs \<Longrightarrow> \<not> SEQ_LT (t_end q) (firstempty (tcbs net tp))"
  shows "tcbs (present_data tp net) tp = (tcbs net tp)\<lparr>t_rcv := rest\<rparr>
    \<and> chain_bytes (uc_rbuf (ucbs (present_data tp net) u)) = chain_bytes (uc_rbuf (ucbs net u)) @ seg_data s
    \<and> uc_rcv (ucbs (present_data tp net) u) = uc_rcv (ucbs net u)
    \<and> (uc_rsize (ucbs net u) + length (t_m s) < 256 \<longrightarrow>
       uc_rsize (ucbs (present_data tp net) u) \<le> uc_rsize (ucbs net u) + length (t_m s))"
proof -
  obtain ms net1 where st: "strip_null (t_m s) net = (ms, net1)" by (rule prod.exhaust)
  note sb = strip_null_stream [OF st] and sl = strip_null_length [OF st]
  let ?n = "upd_ucb u (\<lambda>up. up\<lparr>uc_rbuf := uc_rbuf up @ ms, uc_rsize := uchar (int (uc_rsize up) + int (length ms))\<rparr>) net1"
  have "present_loop u (firstempty (tcbs net tp)) rest ?n = (rest, ?n)"
    using rest by (cases rest) auto
  then have "present_loop (t_ucb (tcbs net tp)) (firstempty (tcbs net tp)) (t_rcv (tcbs net tp)) net = (rest, ?n)"
    using tc room s st by simp
  from present_data_eq [OF tc(2) _ this] tc(1) have r: "tcbs (present_data tp net) tp = (tcbs ?n tp)\<lparr>t_rcv := rest\<rparr>"
    "uc_rbuf (ucbs (present_data tp net) u) = uc_rbuf (ucbs ?n u)"
    "uc_rsize (ucbs (present_data tp net) u) = uc_rsize (ucbs ?n u)"
    "uc_rcv (ucbs (present_data tp net) u) = uc_rcv (ucbs ?n u)" by auto
  show ?thesis using r sb sl by (simp add: upd_ucb_def seg_data_def nat_add_distrib)
qed

text \<open>C19: An overlap of one byte gives the user a byte twice.  When exactly two segments that share
  the byte where the first one ends are on the queue of an established connection, and the user has
  room for more than the first, then two calls of present_data (two events of the connection make
  them) hand over all bytes of the first segment and then all bytes of the second, one byte more
  than there are positions of the stream from the start of the one to the end of the other.\<close>

theorem overlap_duplicates:
  assumes tc: "t_rcv (tcbs net tp) = [a, q]" "syn_acked (tcbs net tp)" "t_ucb (tcbs net tp) = u"
    and ok: "seg_ok b a" "seg_ok b q" and lap: "seg_lo b q = seg_hi b a" "seg_hi b a < seg_hi b q"
    and nxt: "seq_off b (rcv_nxt (tcbs net tp)) = Suc (seg_hi b a)"
    and room: "uc_rsize (ucbs net u) + length (t_m a) < uc_rcv (ucbs net u)" "uc_rcv (ucbs net u) < 256"
    and twice: "net2 = present_data tp (present_data tp net)"
  shows "chain_bytes (uc_rbuf (ucbs net2 u)) = chain_bytes (uc_rbuf (ucbs net u)) @ seg_data a @ seg_data q
    \<and> length (seg_data a @ seg_data q) = Suc (card ({seg_lo b a .. seg_hi b a} \<union> {seg_lo b q .. seg_hi b q}))"
proof -
  let ?tc = "tcbs net tp" and ?n1 = "present_data tp net"
  have e: "seq_off b (rcv_nxt ?tc) < 2 ^ 31" using end_succ_off(2) [OF ok(1)] nxt by simp
  have fe: "firstempty ?tc = rcv_nxt ?tc" by (rule stuck_firstempty [OF tc(1) ok lap(1) nxt])
  have lt: "SEQ_LT (t_end s) (rcv_nxt ?tc) \<longleftrightarrow> seg_hi b s \<le> seg_hi b a" if "seg_ok b s" for s
    using SEQ_LT_off [OF seg_ok_bounds(2) [OF that] e] nxt by (auto simp: seg_hi_def)
  have one: "tcbs ?n1 tp = ?tc\<lparr>t_rcv := [q]\<rparr>"
    "chain_bytes (uc_rbuf (ucbs ?n1 u)) = chain_bytes (uc_rbuf (ucbs net u)) @ seg_data a"
    "uc_rsize (ucbs ?n1 u) < uc_rcv (ucbs ?n1 u)"
    using present_one [OF tc] room lt [OF ok(1)] lt [OF ok(2)] lap(2) fe by auto
  have cmp: "\<not> SEQ_LT (rcv_nxt ?tc) (t_seq q)"
    using SEQ_LT_off [OF e seg_ok_bounds(1) [OF ok(2)]] nxt lap(1) by (simp add: seg_lo_def)
  have fe1: "firstempty (tcbs ?n1 tp) = t_end q + 1" using one(1) cmp by (simp add: firstempty_def)
  have "SEQ_LT (t_end q) (t_end q + 1)"
    using SEQ_LT_off [OF seg_ok_bounds(2) [OF ok(2)], of "t_end q + 1"] end_succ_off [OF ok(2)]
    by (simp add: seg_hi_def)
  then have two: "chain_bytes (uc_rbuf (ucbs net2 u)) = chain_bytes (uc_rbuf (ucbs ?n1 u)) @ seg_data q"
    using present_one [of ?n1 tp q "[]" u] one tc fe1 twice by simp
  have "{seg_lo b a .. seg_hi b a} \<union> {seg_lo b q .. seg_hi b q} = {seg_lo b a .. seg_hi b q}"
    using lap seg_ok_bounds(3) [OF ok(1)] by auto
  then show ?thesis
    using two one(2) tcpq.ok_len [OF ok(1)] tcpq.ok_len [OF ok(2)] lap seg_ok_bounds(3) [OF ok(1)] by simp
qed

theorem overlap_duplicates_witness:
  "chain_bytes (uc_rbuf (ucbs (present_data 4 (present_data 4 stuck_net)) 5)) = [5, 6, 7, 8, 9, 10, 10, 11, 12]"
proof -
  have q: "t_rcv (tcbs stuck_net 4) = [stream_seg 5 6, stream_seg 10 3]" "syn_acked (tcbs stuck_net 4)"
    "t_ucb (tcbs stuck_net 4) = 5" by (simp_all add: stuck_net_def)
  have d: "seg_data (stream_seg 5 6) = [5, 6, 7, 8, 9, 10]" "seg_data (stream_seg 10 3) = [10, 11, 12]"
    by (simp_all add: stream_seg_def seg_data_def mbytes_def upt_rec)
  have nxt: "seq_off (- 8) (rcv_nxt (tcbs stuck_net 4)) = Suc (seg_hi (- 8) (stream_seg 5 6))"
    by (simp add: stuck_net_def seq_off_def stream_seg)
  have buf: "uc_rbuf (ucbs stuck_net 5) = []" by (simp add: stuck_net_def net0_def ucb0_def)
  have "chain_bytes (uc_rbuf (ucbs (present_data 4 (present_data 4 stuck_net)) 5))
      = chain_bytes (uc_rbuf (ucbs stuck_net 5)) @ seg_data (stream_seg 5 6) @ seg_data (stream_seg 10 3)"
    by (rule conjunct1 [OF overlap_duplicates [OF q _ _ _ _ nxt _ _ refl]])
      (simp_all add: stream_seg, simp_all add: stuck_net_def net0_def ucb0_def stream_seg_def)
  then show ?thesis by (simp add: buf d)
qed

end
