(* ===== verification/Ip_Queue.thy ===== *)
theory Ip_Queue
  imports Ip_Input Frag_Queue
begin

text \<open>
  IP reassembly as an instance of the fragment queue: positions are the offsets in the datagram,
  and the data of a fragment is the last \<open>ip_len\<close> bytes of its chain (the fragment at offset 0
  keeps its header in front).  The merge keeps the stream, ip_done recognizes the complete
  datagram, and ip_mergef puts its bytes together.
\<close>

section \<open>Fragments as pieces\<close>

definition frag_ok :: "ipfrag \<Rightarrow> bool" where
  "frag_ok f \<longleftrightarrow> 0 < f_len f \<and> f_off f + f_len f < 65536 \<and> f_end f = f_off f + f_len f - 1
     \<and> f_len f \<le> chain_len (f_m f) \<and> (f_off f \<noteq> 0 \<longrightarrow> chain_len (f_m f) = f_len f)
     \<and> (\<forall>m\<in>set (f_m f). mbuf_ok m)"

definition frag_data :: "ipfrag \<Rightarrow> byte list" where
  "frag_data f = drop (chain_len (f_m f) - f_len f) (chain_bytes (f_m f))"

definition frag_front :: "nat \<Rightarrow> ipfrag \<Rightarrow> ipfrag" where "frag_front i f = fr_front (int i) f"
definition frag_back :: "nat \<Rightarrow> ipfrag \<Rightarrow> ipfrag" where "frag_back i f = fr_back (int i) f"

lemma chain_len_adj:
  assumes "\<forall>m\<in>set mp. mbuf_ok m"
  shows "chain_len (m_adj mp (int i)) = chain_len mp - i" "chain_len (m_adj mp (- int i)) = chain_len mp - i"
  using m_adj_chain_bytes [OF assms] unfolding length_chain_bytes [symmetric] by simp_all

lemma frag_front_laws:
  assumes ok: "frag_ok f" and z: "0 < f_off f" and i: "i < Suc (f_end f) - f_off f"
  shows "frag_ok (frag_front i f) \<and> f_off (frag_front i f) = f_off f + i
    \<and> f_end (frag_front i f) = f_end f \<and> frag_data (frag_front i f) = drop i (frag_data f)"
proof -
  have i': "i < f_len f" using i ok by (simp add: frag_ok_def)
  have m: "\<forall>m\<in>set (f_m f). mbuf_ok m" and cl: "chain_len (f_m f) = f_len f"
    using ok z by (simp_all add: frag_ok_def)
  have e: "f_off (frag_front i f) = f_off f + i" "f_len (frag_front i f) = f_len f - i"
    "f_end (frag_front i f) = f_end f" "f_m (frag_front i f) = m_adj (f_m f) (int i)"
    using i' ok by (simp_all add: frag_front_def fr_front_def frag_ok_def nat_diff_distrib nat_add_distrib)
  have "frag_ok (frag_front i f)"
    unfolding frag_ok_def e chain_len_adj(1) [OF m] cl
    using ok i' m_adj_keeps [OF m, of "int i"] by (auto simp: frag_ok_def)
  moreover have "frag_data (frag_front i f) = drop i (frag_data f)"
    unfolding frag_data_def e chain_len_adj(1) [OF m] cl using m_adj_chain_bytes [OF m, of "int i"] by simp
  ultimately show ?thesis using e by simp
qed

lemma frag_back_laws:
  assumes ok: "frag_ok f" and i: "i < Suc (f_end f) - f_off f"
  shows "frag_ok (frag_back i f) \<and> f_off (frag_back i f) = f_off f
    \<and> f_end (frag_back i f) = f_end f - i
    \<and> frag_data (frag_back i f) = take (Suc (f_end f) - f_off f - i) (frag_data f)"
proof -
  have i': "i < f_len f" and len: "Suc (f_end f) - f_off f = f_len f" using i ok by (simp_all add: frag_ok_def)
  have m: "\<forall>m\<in>set (f_m f). mbuf_ok m" and le: "f_len f \<le> chain_len (f_m f)"
    using ok by (simp_all add: frag_ok_def)
  have e: "f_off (frag_back i f) = f_off f" "f_len (frag_back i f) = f_len f - i"
    "f_end (frag_back i f) = f_end f - i" "f_m (frag_back i f) = m_adj (f_m f) (- int i)"
    using i' ok by (auto simp: frag_back_def fr_back_def frag_ok_def nat_diff_distrib)
  have "frag_ok (frag_back i f)"
    unfolding frag_ok_def e chain_len_adj(2) [OF m]
    using ok i' m_adj_keeps [OF m, of "- int i"] by (auto simp: frag_ok_def)
  moreover have "chain_bytes (m_adj (f_m f) (- int i)) = take (chain_len (f_m f) - i) (chain_bytes (f_m f))"
    using m_adj_chain_bytes [OF m, of "- int i"] by (cases "i = 0") simp_all
  then have "frag_data (frag_back i f) = take (f_len f - i) (frag_data f)"
    unfolding frag_data_def e chain_len_adj(2) [OF m] using le i' by (simp add: drop_take)
  ultimately show ?thesis using e len by simp
qed

interpretation ipfq: frag_queue frag_ok f_off f_end frag_data frag_front frag_back
proof unfold_locales
  fix f assume "frag_ok f"
  then show "f_off f \<le> f_end f \<and> length (frag_data f) = Suc (f_end f) - f_off f"
    by (auto simp: frag_ok_def frag_data_def)
qed (simp_all add: frag_front_laws frag_back_laws)

section \<open>The code is the merge\<close>

text \<open>What becomes of the new fragment when it is not put on the queue: its buffers, all of them.\<close>

definition same_bufs :: "ipfrag \<Rightarrow> ipfrag \<Rightarrow> bool" where
  "same_bufs f g \<longleftrightarrow> map m_id (f_m g) = map m_id (f_m f)"

lemma ip_succ_empty: "f_len f = 0 \<Longrightarrow> ip_succ f qs = (f, qs, [])"
  by (cases qs) auto

lemma same_bufs_simps [simp]:
  "same_bufs f f" "same_bufs f (g\<lparr>f_len := n\<rparr>) = same_bufs f g"
  by (simp_all add: same_bufs_def)

lemma frag_back_int:
  assumes "f_off q \<le> f_end f"
  shows "frag_back (Suc (f_end f) - f_off q) f = fr_back (int (f_end f) - int (f_off q) + 1) f"
proof -
  have "int (Suc (f_end f) - f_off q) = int (f_end f) - int (f_off q) + 1" using assms by simp
  then show ?thesis by (simp only: frag_back_def)
qed

lemma ip_succ_merge:
  assumes "frag_ok f" "\<forall>q\<in>set qs. frag_ok q" "q_succ f_off f_end frag_back f qs = (h, r, d)"
  shows "\<exists>g. ip_succ f qs = (g, r, d) \<and> (case h of None \<Rightarrow> f_len g = 0 \<and> same_bufs f g | Some x \<Rightarrow> g = x)"
  using assms
proof (induction qs arbitrary: h r d)
  case (Cons q qs)
  have ok: "frag_ok f" "frag_ok q" using Cons.prems by auto
  have len: "f_len f \<noteq> 0" "f_len f = Suc (f_end f) - f_off f" "f_off f \<le> f_end f"
    using ok by (auto simp: frag_ok_def)
  consider "\<not> f_off q < f_end f" | "f_off q < f_end f" "f_end q \<le> f_end f"
    | "f_off q < f_end f" "f_end f < f_end q" by linarith
  then show ?case
  proof cases
    case 2
    then obtain d' where "q_succ f_off f_end frag_back f qs = (h, r, d')" "d = q # d'"
      using Cons.prems(3) by (auto split: prod.splits)
    then show ?thesis using Cons.IH [OF ok(1)] Cons.prems(2) 2 len by fastforce
  next
    case 3
    then show ?thesis using Cons.prems(3) len
      by (auto simp: frag_back_int Let_def split: if_splits)
  qed (use Cons.prems(3) in auto)
qed auto

lemma ip_merge_is_merge:
  assumes ok: "frag_ok f" "\<forall>q\<in>set queue. frag_ok q"
    and m: "q_merge f_off f_end frag_front frag_back f queue = (q', h, d)"
  shows "\<exists>g. ip_merge f queue = (q', if h = None then d @ [g] else d) \<and> same_bufs f g"
proof -
  let ?pre = "takeWhile (\<lambda>q. f_end q < f_off f) queue"
  have len: "f_len f \<noteq> 0" "f_len f = Suc (f_end f) - f_off f" "f_off f \<le> f_end f"
    using ok by (auto simp: frag_ok_def)
  show ?thesis
  proof (cases "dropWhile (\<lambda>q. f_end q < f_off f) queue")
    case Nil
    then show ?thesis using m unfolding ip_merge_def q_merge_def Nil Let_def
      by (auto intro: exI [of _ f])
  next
    case (Cons q post)
    have "set (q # post) \<subseteq> set queue" using Cons by (metis set_dropWhileD subsetI)
    then have okq: "frag_ok q" "\<forall>x\<in>set post. frag_ok x" using ok(2) by auto
    have qt: "f_off f \<le> f_end q" using Cons by (auto simp: dropWhile_eq_Cons_conv)
    consider (a) "f_end f < f_off q"
      | (b) "f_off q \<le> f_end f" "f_end f < f_end q"
      | (c) "f_off q \<le> f_end f" "f_end q \<le> f_end f" "f_off f \<le> f_off q"
      | (d) "f_off q \<le> f_end f" "f_end q < f_end f" "f_off q < f_off f"
      | (e) "f_off q \<le> f_end f" "f_end q = f_end f" "f_off q < f_off f"
      by linarith
    then show ?thesis
    proof cases
      case a
      then show ?thesis using m Cons by (auto simp: ip_merge_def q_merge_def Let_def intro: exI [of _ f])
    next
      case b
      then show ?thesis using m Cons len
        by (auto simp: ip_merge_def q_merge_def Let_def frag_back_int split: if_splits intro: exI [of _ f])
    next
      case c
      obtain h' r d' where s: "q_succ f_off f_end frag_back f post = (h', r, d')"
        by (cases "q_succ f_off f_end frag_back f post")
      obtain g where g: "ip_succ f post = (g, r, d')"
          "case h' of None \<Rightarrow> f_len g = 0 \<and> same_bufs f g | Some x \<Rightarrow> g = x"
        using ip_succ_merge [OF ok(1) okq(2) s] by blast
      have "h' = Some x \<Longrightarrow> f_len x \<noteq> 0" for x
        using ipfq.q_succ_ok [OF ok(1), of post x r d'] s by (simp add: frag_ok_def)
      then show ?thesis using m Cons c s g
        by (cases h') (auto simp: ip_merge_def q_merge_def Let_def intro: exI [of _ f])
    next
      case d
      define i where "i = Suc (f_end q) - f_off f"
      have i: "int (f_end q) - int (f_off f) + 1 = int i" "i < f_len f"
        using d qt len by (simp_all add: i_def)
      have ok': "frag_ok (frag_front i f)"
        using frag_front_laws [OF ok(1), of i] d i len by simp
      have bufs: "same_bufs f (frag_front i f)"
        using m_adj_keeps [of "f_m f" "int i"] ok(1)
        by (simp add: same_bufs_def frag_front_def fr_front_def frag_ok_def)
      obtain h' r d' where s: "q_succ f_off f_end frag_back (frag_front i f) post = (h', r, d')"
        by (cases "q_succ f_off f_end frag_back (frag_front i f) post")
      obtain g where g: "ip_succ (fr_front (int i) f) post = (g, r, d')"
          "case h' of None \<Rightarrow> f_len g = 0 \<and> same_bufs (frag_front i f) g | Some x \<Rightarrow> g = x"
        using ip_succ_merge [OF ok' okq(2) s] unfolding frag_front_def by blast
      have "h' = Some x \<Longrightarrow> f_len x \<noteq> 0" for x
        using ipfq.q_succ_ok [OF ok', of post x r d'] s by (simp add: frag_ok_def)
      then show ?thesis using m Cons d s g i bufs unfolding i_def [symmetric]
        by (cases h') (auto simp: ip_merge_def q_merge_def Let_def i_def [symmetric] same_bufs_def
            intro: exI [of _ f])
    next
      case e
      then have "\<not> int (f_end q) - int (f_off f) + 1 < int (f_len f)" using qt len by simp
      then show ?thesis using m Cons e
        by (auto simp: ip_merge_def q_merge_def Let_def ip_succ_empty)
    qed
  qed
qed

section \<open>The complete datagram\<close>

definition adjacent :: "ipfrag list \<Rightarrow> bool" where
  "adjacent qs \<longleftrightarrow> (\<forall>i. Suc i < length qs \<longrightarrow> f_off (qs ! Suc i) = f_end (qs ! i) + 1)"

lemma adjacent_simps [simp]:
  "adjacent []" "adjacent [q]"
  "adjacent (q # r # rs) \<longleftrightarrow> f_off r = f_end q + 1 \<and> adjacent (r # rs)"
proof -
  show "adjacent (q # r # rs) \<longleftrightarrow> f_off r = f_end q + 1 \<and> adjacent (r # rs)"
  proof
    assume a: "adjacent (q # r # rs)"
    have "f_off ((r # rs) ! Suc i) = f_end ((r # rs) ! i) + 1" if "Suc i < length (r # rs)" for i
      using a [unfolded adjacent_def, rule_format, of "Suc i"] that by simp
    then show "f_off r = f_end q + 1 \<and> adjacent (r # rs)"
      using a [unfolded adjacent_def, rule_format, of 0] by (simp add: adjacent_def)
  next
    assume a: "f_off r = f_end q + 1 \<and> adjacent (r # rs)"
    show "adjacent (q # r # rs)"
      unfolding adjacent_def
    proof (intro allI impI)
      fix i assume "Suc i < length (q # r # rs)"
      then show "f_off ((q # r # rs) ! Suc i) = f_end ((q # r # rs) ! i) + 1"
        using a by (cases i) (auto simp: adjacent_def)
    qed
  qed
qed (simp_all add: adjacent_def)

lemma done_walk_eq:
  "done_walk q rs = (if adjacent (q # rs) \<and> \<not> f_mff (last (q # rs)) then f_end (last (q # rs)) + 1 else 0)"
  by (induction rs arbitrary: q) auto


lemma strip_null_bytes: "chain_bytes (fst (strip_null ms net)) = chain_bytes ms"
  by (induction ms arbitrary: net) (auto simp: mbytes_empty split_beta)

lemma ip_mergef_bytes: "chain_bytes (fst (ip_mergef qs net)) = concat (map (\<lambda>q. chain_bytes (f_m q)) qs)"
proof (induction qs arbitrary: net)
  case (Cons q qs)
  obtain ms net' where s: "strip_null (f_m q) net = (ms, net')" by (cases "strip_null (f_m q) net")
  obtain rest net'' where r: "ip_mergef qs net' = (rest, net'')" by (cases "ip_mergef qs net'")
  show ?case using strip_null_bytes [of "f_m q" net] Cons.IH [of net'] s r by simp
qed simp

text \<open>C6: one step of reassembly (ip_input on the fragments of one datagram): the fragment queue
  stays in order and gains exactly the new fragment's positions with bytes the fragments brought;
  fragments taken off it are freed once, and so is the new fragment, whole, when it brings
  nothing.\<close>

theorem ip_merge_stream:
  assumes "frag_ok f" "\<forall>q\<in>set queue. frag_ok q" "q_ord f_off f_end queue"
    "ip_merge f queue = (queue', dead)"
  shows "\<exists>kept dead0. merge_ok frag_ok f_off f_end frag_data f queue (queue', kept, dead0)
    \<and> (case kept of Some _ \<Rightarrow> dead = dead0 | None \<Rightarrow> \<exists>g. dead = dead0 @ [g] \<and> same_bufs f g)"
proof -
  obtain q' h d where m: "q_merge f_off f_end frag_front frag_back f queue = (q', h, d)"
    by (cases "q_merge f_off f_end frag_front frag_back f queue")
  obtain g where g: "ip_merge f queue = (q', if h = None then d @ [g] else d)" "same_bufs f g"
    using ip_merge_is_merge [OF assms(1,2) m] by blast
  have "merge_ok frag_ok f_off f_end frag_data f queue (q', h, d)"
    using ipfq.merge_ok_merge [OF assms(1-3)] m by simp
  then show ?thesis using g assms(4) by (intro exI [of _ h] exI [of _ d]) (auto split: option.splits)
qed


lemma adjacent_later:
  "adjacent (q # rs) \<Longrightarrow> x \<in> set rs \<Longrightarrow> f_off x \<noteq> 0"
  by (induction rs arbitrary: q) auto

lemma frag_data_whole: "frag_ok f \<Longrightarrow> f_off f \<noteq> 0 \<Longrightarrow> frag_data f = chain_bytes (f_m f)"
  by (simp add: frag_ok_def frag_data_def)

text \<open>C8: the chain that ip_mergef builds of a complete datagram holds the header of its first
  fragment followed by the data of all fragments in order, and nothing else.\<close>

theorem ip_mergef_datagram:
  assumes "\<forall>q\<in>set (q # rs). frag_ok q" "ip_done (q # rs) \<noteq> 0"
  shows "chain_bytes (fst (ip_mergef (q # rs) net))
       = take (chain_len (f_m q) - f_len q) (chain_bytes (f_m q)) @ concat (map frag_data (q # rs))"
proof -
  have adj: "adjacent (q # rs)"
    using assms(2) by (auto simp: ip_done_def done_walk_eq split: if_splits)
  have "map (\<lambda>q. chain_bytes (f_m q)) rs = map frag_data rs"
    using adjacent_later [OF adj] assms(1) by (simp add: frag_data_whole)
  moreover have "chain_bytes (f_m q) = take (chain_len (f_m q) - f_len q) (chain_bytes (f_m q)) @ frag_data q"
    by (simp add: frag_data_def)
  ultimately show ?thesis unfolding ip_mergef_bytes list.map concat.simps by (metis append.assoc)
qed

section \<open>Instances\<close>

text \<open>A datagram of 20 bytes in three fragments of 8, 8 and 4 bytes; the first has its header.\<close>

definition sample_frag :: "nat \<Rightarrow> nat \<Rightarrow> bool \<Rightarrow> ipfrag" where
  "sample_frag off len mff =
    \<lparr>f_hdr = 10, f_off = off, f_len = len, f_end = off + len - 1, f_mff = mff,
     f_m = [\<lparr>m_id = 100 + off, m_off = 10, m_len = (if off = 0 then len + 20 else len), m_act = 0,
             m_dat = (\<lambda>i. word_of_nat i)\<rparr>]\<rparr>"

lemma sample_frag_ok:
  assumes "0 < len" "len \<le> 98" "off + len < 65536"
  shows "frag_ok (sample_frag off len mff)"
  using assms by (auto simp: frag_ok_def sample_frag_def mbuf_ok_def net_simps)

theorem ip_merge_stream_witness:
  "q_pos f_off f_end (fst (ip_merge (sample_frag 4 12 True) [sample_frag 0 8 True, sample_frag 16 4 False]))
     = {0 .. 19}"
proof -
  let ?f = "sample_frag 4 12 True" and ?q = "[sample_frag 0 8 True, sample_frag 16 4 False]"
  have ok: "frag_ok ?f" "\<forall>q\<in>set ?q. frag_ok q" by (simp_all add: sample_frag_ok)
  have ord: "q_ord f_off f_end ?q" by (simp add: q_ord_def sample_frag_def)
  obtain q' d where m: "ip_merge ?f ?q = (q', d)" by (cases "ip_merge ?f ?q")
  obtain kept dead0 where "merge_ok frag_ok f_off f_end frag_data ?f ?q (q', kept, dead0)"
    using ip_merge_stream [OF ok ord m] by blast
  then have "q_pos f_off f_end q' = q_pos f_off f_end ?q \<union> {f_off ?f .. f_end ?f}"
    unfolding merge_ok_def prod.case by blast
  also have "\<dots> = {0 .. 19}" by (auto simp: sample_frag_def)
  finally show ?thesis using m by simp
qed

lemma sample_done: "ip_done [sample_frag 0 8 True, sample_frag 8 8 True, sample_frag 16 4 False] = 20"
  by (simp add: ip_done_def sample_frag_def)


theorem ip_mergef_datagram_witness:
  "\<forall>net. length (chain_bytes (fst (ip_mergef
     [sample_frag 0 8 True, sample_frag 8 8 True, sample_frag 16 4 False] net))) = 40"
proof
  fix net
  let ?q = "sample_frag 0 8 True" and ?rs = "[sample_frag 8 8 True, sample_frag 16 4 False]"
  have ok: "\<forall>q\<in>set (?q # ?rs). frag_ok q" by (simp add: sample_frag_ok)
  have l: "length (frag_data f) = f_len f" if "frag_ok f" for f
    using that by (simp add: frag_data_def frag_ok_def)
  have d: "ip_done (?q # ?rs) \<noteq> 0" by (subst sample_done) simp
  have fl: "length (frag_data ?q) = 8" "length (frag_data (sample_frag 8 8 True)) = 8"
    "length (frag_data (sample_frag 16 4 False)) = 4"
    using ok by (simp_all add: l) (simp_all add: sample_frag_def)
  have h: "length (take (chain_len (f_m ?q) - f_len ?q) (chain_bytes (f_m ?q))) = 20"
    by (simp add: sample_frag_def)
  show "length (chain_bytes (fst (ip_mergef (?q # ?rs) net))) = 40"
    unfolding ip_mergef_datagram [OF ok d] using h fl by simp
qed

end
