(* ===== verification/Netuser.thy ===== *)
theory Netuser
  imports Netmain
begin

text \<open>
  netuser.c: the system calls on network connections, run by a user process.

  A process that sleeps lets the rest of the system run.  What the rest does is given by a list of
  the changes of the state that happen during the sleeps of the call, in order; None is a signal,
  which ends a sleep above PZERO and with it the call.  A call that sleeps when the list is used up
  is still asleep: its outcome says on which channel.  So a call is an executable function, and
  what is proved of it for every list holds for every behaviour of the system.
\<close>

type_synonym env = "(net \<Rightarrow> net) option list"

datatype outcome = Returned | Interrupted | Asleep wchan

section \<open>Waiting\<close>

text \<open>awaitconn: the test is repeated after every wakeup.\<close>

definition conn_error :: "u16 \<Rightarrow> uerror" where
  "conn_error st =
    (if has st UINTIMO then ENETTIM else if has st URESET then ENETREF
     else if has st UNRCH then ENETUNR else if has st UDEAD then ENETDED else ENETSTAT)"

fun awaitconn :: "nat \<Rightarrow> nat \<Rightarrow> env \<Rightarrow> net \<Rightarrow> outcome \<times> env \<times> net" where
  "awaitconn up tp env net =
    (let st = uc_state (ucbs net up) in
     if st = 0 \<and> \<not> syn_acked (tcbs net tp) then
       (case env of
          [] \<Rightarrow> (Asleep (W_ucb up), [], net)
        | None # env \<Rightarrow> (Interrupted, env, set_error EINTR net)
        | Some f # env \<Rightarrow> awaitconn up tp env (f net))
     else (Returned, env, if st \<noteq> 0 then set_error (conn_error st) net else net))"

declare awaitconn.simps [simp del]

text \<open>The receive buffer is locked at a priority that signals do not interrupt.\<close>

definition wake :: "(net \<Rightarrow> net) option \<Rightarrow> net \<Rightarrow> net" where
  "wake f net = (case f of None \<Rightarrow> net | Some f \<Rightarrow> f net)"

fun lock_rbuf :: "nat \<Rightarrow> env \<Rightarrow> net \<Rightarrow> bool \<times> env \<times> net" where
  "lock_rbuf up env net =
    (if has (uc_flags (ucbs net up)) ULOCK then
       (case env of [] \<Rightarrow> (False, [], net) | f # env \<Rightarrow> lock_rbuf up env (wake f net))
     else (True, env, upd_ucb up (\<lambda>u. u\<lparr>uc_flags := uc_flags u OR ULOCK\<rparr>) net))"

declare lock_rbuf.simps [simp del]

definition unlock_rbuf :: "nat \<Rightarrow> net \<Rightarrow> net" where
  "unlock_rbuf up net =
    wakeup (W_ucflags up) (upd_ucb up (\<lambda>u. u\<lparr>uc_flags := uc_flags u AND NOT ULOCK\<rparr>) net)"

text \<open>w_alloc for a user: while the table is full the process sleeps, also uninterruptibly.\<close>

fun w_request :: "nat \<Rightarrow> nat \<Rightarrow> wdat \<Rightarrow> env \<Rightarrow> net \<Rightarrow> bool \<times> env \<times> net" where
  "w_request type tp m env net =
    (if length (n_work net) < nwork net then (True, env, w_alloc type 0 tp m net)
     else (case env of [] \<Rightarrow> (False, [], net) | f # env \<Rightarrow> w_request type tp m env (wake f net)))"

declare w_request.simps [simp del]

section \<open>Ports\<close>

definition port_clash :: "nat \<Rightarrow> u16 \<Rightarrow> u16 \<Rightarrow> net \<Rightarrow> nat \<Rightarrow> bool" where
  "port_clash up lport fport net q \<longleftrightarrow>
    q \<noteq> up \<and> uc_host (ucbs net q) = uc_host (ucbs net up) \<and> uc_local (ucbs net q) = uc_local (ucbs net up)
    \<and> ((has (uc_flags (ucbs net q)) UTCP
         \<and> (case uc_tcb (ucbs net q) of None \<Rightarrow> False
            | Some t \<Rightarrow> t_lport (tcbs net t) = lport \<and> t_fport (tcbs net t) = fport))
       \<or> (has (uc_flags (ucbs net q)) UUDP
         \<and> uc_lport (ucbs net q) = lport \<and> uc_fport (ucbs net q) = fport))"

definition next_port :: "u16 \<Rightarrow> u16" where
  "next_port p = (if p + 1 < 0x100 then 0x100 else p + 1)"

text \<open>The search for a default port; the fuel bounds the number of ports tried.\<close>

fun port_loop :: "nat \<Rightarrow> nat \<Rightarrow> u16 \<Rightarrow> u16 \<Rightarrow> net \<Rightarrow> u16 option" where
  "port_loop 0 up lport fport net = None"
| "port_loop (Suc k) up lport fport net =
    (if \<exists>q\<in>set (n_ucbs net). port_clash up lport fport net q
     then port_loop k up (next_port lport) fport net
     else Some lport)"

fun ucb_pos :: "nat \<Rightarrow> nat list \<Rightarrow> nat" where
  "ucb_pos up [] = 1"
| "ucb_pos up (q # qs) = (if q = up then 1 else Suc (ucb_pos up qs))"

definition default_port :: "nat \<Rightarrow> net \<Rightarrow> u16" where
  "default_port up net =
    push_bit 8 (word_of_nat (ucb_pos up (n_ucbs net)))
      OR (word_of_nat (the (uc_proc (ucbs net up))) AND 0xff)"

definition port_fuel :: "net \<Rightarrow> nat" where
  "port_fuel net = 2 * length (n_ucbs net) + 2"

definition uniqport :: "nat \<Rightarrow> u16 \<Rightarrow> u16 \<Rightarrow> net \<Rightarrow> u16 \<times> net" where
  "uniqport up lport fport net =
    (if lport = 0 then
       (case port_loop (port_fuel net) up (default_port up net) fport net of
          Some p \<Rightarrow> (p, net) | None \<Rightarrow> (0, panic ''uniqport: no port'' net))
     else if \<exists>q\<in>set (n_ucbs net). port_clash up lport fport net q
     then (0, set_error ENETRNG net) else (lport, net))"

section \<open>netclose\<close>

definition lower_bufs :: "nat \<Rightarrow> net \<Rightarrow> net" where
  "lower_bufs n net =
    (let lo = n_lowat (pool net) - int n in
     net\<lparr>pool := (pool net)\<lparr>n_lowat := lo, n_hiwat := lo * 3 div 2\<rparr>\<rparr>)"

definition raise_bufs :: "nat \<Rightarrow> net \<Rightarrow> net" where
  "raise_bufs n net =
    (let lo = n_lowat (pool net) + int n in
     net\<lparr>pool := (pool net)\<lparr>n_lowat := lo, n_hiwat := lo * 3 div 2\<rparr>\<rparr>)"

text \<open>The connection block leaves the list and is freed.\<close>

definition free_ucb :: "nat \<Rightarrow> net \<Rightarrow> net" where
  "free_ucb up net =
    (let net = upd_ucb up (uc_proc_update (\<lambda>_. None)) net;
         net = net\<lparr>n_ucbs := filter (\<lambda>q. q \<noteq> up) (n_ucbs net)\<rparr> in
     snd (m_free [blk up net] net))"

definition netclose_raw :: "nat \<Rightarrow> net \<Rightarrow> net" where
  "netclose_raw up net =
    (let u = ucbs net up;
         net = lower_bufs (uc_snd u + uc_rcv u + 2) net;
         net = (case uc_route u of
                  None \<Rightarrow> net
                | Some h \<Rightarrow> upd_ucb up (uc_route_update (\<lambda>_. None)) (h_free h net)) in
     if has (uc_flags u) UUDP then net else raw_free up net)"

text \<open>netclose.  The connection block itself is the data of a close request.\<close>

definition netclose :: "nat \<Rightarrow> env \<Rightarrow> net \<Rightarrow> outcome \<times> env \<times> net" where
  "netclose up env net =
    (let fl = uc_flags (ucbs net up) in
     if has fl UTCP then
       (case uc_tcb (ucbs net up) of
          None \<Rightarrow> (Returned, env, free_ucb up net)
        | Some tp \<Rightarrow>
            (let net = upd_tcb tp (usr_abort_update (\<lambda>_. True)) net;
                 (ok, env, net) =
                   (if usr_closed (tcbs net tp) then (True, env, net)
                    else w_request IUCLOSE tp (MbufDat [blk up net]) env net) in
             if \<not> ok then (Asleep W_workfree, env, net)
             else if has (uc_flags (ucbs net up)) UCWAIT then
               (case env of
                  [] \<Rightarrow> (Asleep (W_tcb tp), [], net)
                | None # env \<Rightarrow> (Interrupted, env, set_error EINTR net)
                | Some f # env \<Rightarrow> (Returned, env, f net))
             else (Returned, env, net)))
     else if has fl (UIP OR URAW OR UUDP) then (Returned, env, free_ucb up (netclose_raw up net))
     else (Returned, env, free_ucb up net))"

section \<open>netopen\<close>

record con =
  c_mode :: u16
  c_sbufs :: nat
  c_rbufs :: nat
  c_proto :: u16
  c_timeo :: nat
  c_lport :: u16
  c_fport :: u16
  c_fcon :: addr
  c_lcon :: addr

text \<open>The mode bits of con.h have the values of the flags of a connection.\<close>

definition CONMASK :: u16 where [net_simps]: "CONMASK = 0x3e"

text \<open>The file entry of the call: its place in the table of open files of the process, the count
  of the entry, and the connection it points at.\<close>

record ofile =
  f_set :: bool
  f_count :: nat
  f_ucb :: "nat option"

definition no_file :: ofile where
  "no_file = \<lparr>f_set = False, f_count = 0, f_ucb = None\<rparr>"

definition con_bufs :: "nat \<Rightarrow> nat" where
  "con_bufs c = (let n = 8 * c in if n < 8 \<or> n > 64 then 8 else n)"

definition init_ucb :: "con \<Rightarrow> nat \<Rightarrow> ucb \<Rightarrow> ucb" where
  "init_ucb cp pid u =
    u\<lparr>uc_proc := Some pid, uc_tcb := None, uc_proto := [], uc_lport := 0, uc_fport := 0,
      uc_snd := con_bufs (c_sbufs cp), uc_rcv := con_bufs (c_rbufs cp), uc_sbuf := [], uc_rbuf := [],
      uc_rmsgs := [], uc_ssize := c_timeo cp, uc_rsize := 0, uc_state := 0, uc_xstat := 0,
      uc_flags := c_mode cp AND NOT (UTCP + ULOCK)\<rparr>"

definition set_local :: "nat \<Rightarrow> addr \<Rightarrow> net \<Rightarrow> net" where
  "set_local up a net = upd_ucb up (uc_local_update (\<lambda>_. a)) net"

definition set_srcif :: "nat \<Rightarrow> nat option \<Rightarrow> net \<Rightarrow> net" where
  "set_srcif up i net = upd_ucb up (uc_srcif_update (\<lambda>_. i)) net"

text \<open>The local address and the source interface.\<close>

definition open_local :: "nat \<Rightarrow> con \<Rightarrow> net \<Rightarrow> bool \<times> net" where
  "open_local up cp net =
    (if c_lcon cp \<noteq> 0 then
       (let net = set_local up (c_lcon cp) net in
        case find (\<lambda>lp. if_addr (ifs net lp) = addr_1822 (c_lcon cp)) (n_ifcbs net) of
          None \<Rightarrow> (False, set_error ENETRNG net)
        | Some lp \<Rightarrow>
            if if_avail (ifs net lp) then (True, set_srcif up (Some lp) net)
            else (False, set_error ENETDOWN net))
     else
       (case find (\<lambda>lp. if_avail (ifs net lp)) (n_ifcbs net) of
          None \<Rightarrow> (False, set_error ENETDOWN (set_srcif up None net))
        | Some lp0 \<Rightarrow>
            (let lp = (case find (\<lambda>lp. iptonet (if_addr (ifs net lp)) = iptonet (c_fcon cp)
                                       \<and> if_avail (ifs net lp)) (n_ifcbs net) of
                         Some lp \<Rightarrow> lp | None \<Rightarrow> lp0);
                 net = set_srcif up (Some lp) net in
             (True, set_local up (if has (c_mode cp) ULISTEN then if_addr (ifs net lp) else 0) net))))"

text \<open>A block of a connection starts zeroed; state 0 is the one before the first open request.\<close>

definition zero_tcb :: tcb where
  "zero_tcb = \<lparr>t_rcv = [], t_ucb = 0, t_ovl_end = 0, t_rcv_unack = [], t_opts = [], iss = 0, irs = 0, rcv_urp = 0,
    rcv_nxt = 0, rcv_end = 0, seq_fin = 0, snd_end = 0, snd_urp = 0, snd_lst = 0, snd_nxt = 0, snd_una = 0,
    snd_wl = 0, snd_hi = 0, t_rexmt_val = 0, t_rtl_val = 0, t_xmt_val = 0, ack_due = False, cancelled = False,
    dropped_txt = False, fin_rcvd = False, force_one = False, new_window = False, rexmt = False,
    snd_fin = False, snd_rst = False, snd_urg = False, syn_acked = False, syn_rcvd = False, usr_closed = False,
    waited_2_ml = False, net_keep = False, usr_abort = False, sent_zero = False, snd_wnd = 0, t_maxseg = 0,
    t_lport = 0, t_fport = 0, t_state = 0, t_xmtime = 0, t_optlen = 0, t_timers = (\<lambda>_. 0), t_rxtct = 0\<rparr>"

definition tcpopen :: "nat \<Rightarrow> con \<Rightarrow> env \<Rightarrow> net \<Rightarrow> outcome \<times> env \<times> net" where
  "tcpopen up cp env net =
    (let (got, net) = m_get 1 net in
     if got = None then (Returned, env, set_error ENETBUF net)
     else
       (let tp = m_id (the got);
            net = upd_tcb tp (\<lambda>_. zero_tcb\<lparr>t_ucb := up, t_fport := c_fport cp\<rparr>) net;
            net = upd_ucb up (\<lambda>u. u\<lparr>uc_tcb := Some tp, uc_flags := uc_flags u OR UTCP\<rparr>) net;
            (lp, net) = uniqport up (c_lport cp) (c_fport cp) net;
            net = upd_tcb tp (t_lport_update (\<lambda>_. lp)) net in
        if u_error net \<noteq> None then
          (let net = upd_ucb up (\<lambda>u. u\<lparr>uc_flags := uc_flags u AND NOT UTCP, uc_tcb := None\<rparr>) net in
           (Returned, env, snd (m_free [blk tp net] net)))
        else
          (let (ok, env, net) =
                 w_request (if has (c_mode cp) ULISTEN then IUOPENR else IUOPENA) tp NoDat env net in
           if \<not> ok then (Asleep W_workfree, env, net)
           else if has (uc_flags (ucbs net up)) UNOBLOK then (Returned, env, net)
           else awaitconn up tp env net)))"

text \<open>The protocol specific part; the ports of a UDP connection are fields of its block.\<close>

definition open_proto :: "nat \<Rightarrow> con \<Rightarrow> env \<Rightarrow> net \<Rightarrow> outcome \<times> env \<times> net" where
  "open_proto up cp env net =
    (let md = c_mode cp AND CONMASK in
     if md = UTCP then tcpopen up cp env net
     else if md = UUDP then
       (let net = upd_ucb up (uc_fport_update (\<lambda>_. c_fport cp)) net;
            (lp, net) = uniqport up (c_lport cp) (c_fport cp) net in
        (Returned, env, upd_ucb up (uc_lport_update (\<lambda>_. lp)) net))
     else if md = URAW \<or> md = UIP then (Returned, env, raw_add up (sint (c_proto cp)) net)
     else (Returned, env, set_error ENETPARM net))"

definition conerr :: "nat \<Rightarrow> env \<Rightarrow> net \<Rightarrow> ofile \<times> outcome \<times> env \<times> net" where
  "conerr up env net = (case netclose up env net of (oc, env, net) \<Rightarrow>
     (if oc = Returned then no_file else \<lparr>f_set = True, f_count = 1, f_ucb = Some up\<rparr>, oc, env, net))"

text \<open>netopen: \<open>mode\<close> is the structure read from the user (None is a fault), \<open>room\<close> says
  that falloc finds a file entry.\<close>

definition netopen :: "con option \<Rightarrow> bool \<Rightarrow> nat \<Rightarrow> env \<Rightarrow> net \<Rightarrow> ofile \<times> outcome \<times> env \<times> net" where
  "netopen mode room pid env net =
    (case mode of
       None \<Rightarrow> (no_file, Returned, env, set_error EFAULT net)
     | Some cp \<Rightarrow>
         (let bufs = con_bufs (c_sbufs cp) + con_bufs (c_rbufs cp) + 2 in
          if \<not> has (c_mode cp) UCTL \<and> int bufs > int (NNETPAGES * NMBPG) - 32 - n_lowat (pool net)
          then (no_file, Returned, env, set_error ENETBUF net)
          else if \<not> room then (no_file, Returned, env, set_error ENFILE net)
          else
            (let (got, net) = m_get 1 net in
             if got = None
             then (\<lparr>f_set = False, f_count = 1, f_ucb = None\<rparr>, Returned, env, set_error ENETBUF net)
             else
               (let up = m_id (the got); fp = \<lparr>f_set = True, f_count = 1, f_ucb = Some up\<rparr>;
                    net = net\<lparr>n_ucbs := up # n_ucbs net\<rparr>;
                    net = upd_ucb up (init_ucb cp pid) net in
                if has (uc_flags (ucbs net up)) UCTL then (fp, Returned, env, net)
                else
                  (let net = upd_ucb up (\<lambda>u. u\<lparr>uc_flags := uc_flags u XOR ULISTEN\<rparr>) net;
                       net = raise_bufs bufs net;
                       net = upd_ucb up (\<lambda>u. u\<lparr>uc_route := None, uc_host := c_fcon cp\<rparr>) net;
                       (ok, net) = open_local up cp net in
                   if \<not> ok then conerr up env net
                   else
                     (let (oc, env, net) = open_proto up cp env net in
                      if oc = Returned \<and> u_error net \<noteq> None then conerr up env net
                      else (fp, oc, env, net)))))))"

section \<open>Moving data between the user and buffers\<close>

text \<open>The user's side of a transfer: how much is still asked for (u_count), the bytes at u_base
  for a write, the bytes delivered by a read, and how many bytes from u_base on can be accessed
  without a fault.\<close>

record uio =
  u_count :: nat
  u_in :: "byte list"
  u_got :: "byte list"
  u_valid :: nat

definition move_out :: "byte list \<Rightarrow> uio \<Rightarrow> net \<Rightarrow> uio \<times> net" where
  "move_out bs io net =
    (let n = length bs in
     if n = 0 then (io, net)
     else if n > u_valid io then (io, set_error EFAULT net)
     else (io\<lparr>u_got := u_got io @ bs, u_count := u_count io - n, u_valid := u_valid io - n\<rparr>, net))"

definition move_in :: "nat \<Rightarrow> uio \<Rightarrow> mbuf \<Rightarrow> net \<Rightarrow> mbuf \<times> uio \<times> net" where
  "move_in n io m net =
    (if n = 0 then (m, io, net)
     else if n > u_valid io then (m, io, set_error EFAULT net)
     else (blit (\<lambda>i. u_in io ! i) 0 (m_off m) n m,
           io\<lparr>u_in := drop n (u_in io), u_count := u_count io - n, u_valid := u_valid io - n\<rparr>, net))"

section \<open>tcp_read\<close>

text \<open>The copy loop.  A buffer read in part stays at the front of the queue; its length is then
  larger than what was asked for, so nothing is asked for any more and the loop ends.\<close>

fun read_loop :: "nat \<Rightarrow> mbuf list \<Rightarrow> bool \<Rightarrow> uio \<Rightarrow> net \<Rightarrow> mbuf list \<times> bool \<times> uio \<times> net" where
  "read_loop up [] eol io net = ([], eol, io, net)"
| "read_loop up (m # ms) eol io net =
    (if u_count io > 0 \<and> \<not> eol \<and> u_error net = None then
       (let len = min (m_len m) (u_count io);
            (io, net) = move_out (take len (mbytes m)) io net in
        if u_error net = None then
          (if len = m_len m then
             (let eol = (m_act m \<noteq> 0);
                  (_, net) = m_free (m # ms) net;
                  net = upd_ucb up (\<lambda>u. u\<lparr>uc_rsize := uchar (int (uc_rsize u) - 1)\<rparr>) net in
              read_loop up ms eol io net)
           else (m\<lparr>m_off := m_off m + len, m_len := m_len m - len\<rparr> # ms, eol, io, net))
        else (m # ms, eol, io, net))
     else (m # ms, eol, io, net))"

text \<open>One round with the buffer locked.\<close>

definition read_round :: "nat \<Rightarrow> uio \<Rightarrow> env \<Rightarrow> net \<Rightarrow> bool \<times> bool \<times> uio \<times> env \<times> net" where
  "read_round up io env net =
    (let (ok, env, net) = lock_rbuf up env net in
     if \<not> ok then (False, False, io, env, net)
     else
       (let (ms, eol, io, net) = read_loop up (uc_rbuf (ucbs net up)) False io net;
            net = upd_ucb up (uc_rbuf_update (\<lambda>_. ms)) net in
        (True, eol, io, env, unlock_rbuf up net)))"

lemma lock_rbuf_env: "lock_rbuf up env net = (ok, env', net') \<Longrightarrow> length env' \<le> length env"
proof (induction env arbitrary: net)
  case Nil
  then show ?case by (subst (asm) lock_rbuf.simps) (auto split: if_splits)
next
  case (Cons f env)
  show ?case
  proof (cases "has (uc_flags (ucbs net up)) ULOCK")
    case True
    then have "lock_rbuf up env (wake f net) = (ok, env', net')"
      using Cons.prems by (subst (asm) lock_rbuf.simps) simp
    from Cons.IH [OF this] show ?thesis by simp
  next
    case False
    then show ?thesis using Cons.prems by (subst (asm) lock_rbuf.simps) auto
  qed
qed

lemma lock_rbuf_rbuf:
  assumes "lock_rbuf up env net = (ok, env', net')" "length env' = length env"
  shows "uc_rbuf (ucbs net' up) = uc_rbuf (ucbs net up)"
proof (cases "has (uc_flags (ucbs net up)) ULOCK")
  case True
  show ?thesis
  proof (cases env)
    case Nil
    then show ?thesis using assms True by (subst (asm) lock_rbuf.simps) auto
  next
    case (Cons f env2)
    then have "lock_rbuf up env2 (wake f net) = (ok, env', net')"
      using assms True by (subst (asm) lock_rbuf.simps) auto
    from lock_rbuf_env [OF this] show ?thesis using assms(2) Cons by simp
  qed
next
  case False
  then show ?thesis using assms by (subst (asm) lock_rbuf.simps) (auto simp: upd_ucb_def)
qed

lemma move_out_ok:
  "move_out bs io net = (io', net') \<Longrightarrow> u_error net' = None \<Longrightarrow>
   net' = net \<and> u_count io' = u_count io - length bs \<and> u_got io' = u_got io @ bs"
  by (auto simp: move_out_def Let_def set_error_def split: if_splits)

lemma read_loop_rest:
  "read_loop up ms eol io net = (ms', eol', io', net') \<Longrightarrow> u_count io' > 0 \<Longrightarrow> \<not> eol' \<Longrightarrow>
   u_error net' = None \<Longrightarrow> ms' = []"
proof (induction ms arbitrary: eol io net)
  case (Cons m ms)
  let ?len = "min (m_len m) (u_count io)"
  obtain io1 net1 where mo: "move_out (take ?len (mbytes m)) io net = (io1, net1)"
    by (cases "move_out (take ?len (mbytes m)) io net")
  show ?case
  proof (cases "u_count io > 0 \<and> \<not> eol \<and> u_error net = None \<and> u_error net1 = None \<and> ?len = m_len m")
    case True
    then show ?thesis
      using Cons.prems Cons.IH mo by (auto simp: Let_def split_beta)
  next
    case False
    then show ?thesis
      using Cons.prems mo move_out_ok [OF mo] by (auto simp: Let_def min_def split: if_splits)
  qed
qed simp

lemma read_round_measure:
  assumes "read_round up io env net = (True, eol, io', env', net')" "uc_rbuf (ucbs net up) \<noteq> []"
    and "u_count io' > 0" "\<not> eol" "u_error net' = None"
  shows "length env' < length env \<or> (length env' = length env \<and> uc_rbuf (ucbs net' up) = [])"
proof -
  obtain ok e n where l: "lock_rbuf up env net = (ok, e, n)" by (cases "lock_rbuf up env net")
  obtain ms el io2 n2 where r: "read_loop up (uc_rbuf (ucbs n up)) False io n = (ms, el, io2, n2)"
    by (metis prod_cases4)
  have "env' = e" "io' = io2" "eol = el" "net' = unlock_rbuf up (upd_ucb up (uc_rbuf_update (\<lambda>_. ms)) n2)"
    using assms(1) l r by (auto simp: read_round_def Let_def split: if_splits)
  moreover from this have "ms = []"
    using read_loop_rest [OF r] assms(3-5)
    by (simp add: unlock_rbuf_def wakeup_def emit_def upd_ucb_def)
  ultimately show ?thesis
    using lock_rbuf_env [OF l] by (cases "length e = length env") (auto simp: unlock_rbuf_def wakeup_def emit_def upd_ucb_def)
qed

text \<open>The loop of tcp_read; \<open>incount\<close> is what was asked for at the start.\<close>

function tcp_read_loop :: "nat \<Rightarrow> nat \<Rightarrow> nat \<Rightarrow> bool \<Rightarrow> uio \<Rightarrow> env \<Rightarrow> net \<Rightarrow> outcome \<times> uio \<times> env \<times> net" where
  "tcp_read_loop up tp incount eol io env net =
    (if u_count io > 0 \<and> \<not> eol \<and> u_error net = None then
       (if uc_rbuf (ucbs net up) \<noteq> [] then
          (case read_round up io env net of
             (ok, eol, io, env, net) \<Rightarrow>
               if \<not> ok then (Asleep (W_ucflags up), io, env, net)
               else if u_count io \<noteq> incount then (Returned, io, env, net)
               else tcp_read_loop up tp incount eol io env net)
        else if uc_state (ucbs net up) = 0 then
          (if fin_rcvd (tcbs net tp) \<and> rcv_empty (tcbs net tp) (ucbs net up) then (Returned, io, env, net)
           else
             (case w_request IURECV tp NoDat env net of
                (ok, env, net) \<Rightarrow>
                  if \<not> ok then (Asleep W_workfree, io, env, net)
                  else
                    (case env of
                       [] \<Rightarrow> (Asleep (W_ucb up), io, [], net)
                     | None # env \<Rightarrow> (Interrupted, io, env, set_error EINTR net)
                     | Some f # env \<Rightarrow> tcp_read_loop up tp incount eol io env (f net))))
        else (Returned, io, env, set_error ENETSTAT net))
     else (Returned, io, env, net))"
  by pat_completeness auto

lemma w_request_env: "w_request ty tp m env net = (ok, env', net') \<Longrightarrow> length env' \<le> length env"
proof (induction env arbitrary: net)
  case Nil
  then show ?case by (subst (asm) w_request.simps) (auto split: if_splits)
next
  case (Cons f env)
  show ?case
  proof (cases "length (n_work net) < nwork net")
    case False
    then have "w_request ty tp m env (wake f net) = (ok, env', net')"
      using Cons.prems by (subst (asm) w_request.simps) simp
    from Cons.IH [OF this] show ?thesis by simp
  next
    case True
    then show ?thesis using Cons.prems by (subst (asm) w_request.simps) auto
  qed
qed

lemma w_request_less:
  "(ok, f # env', net') = w_request ty tp m env net \<Longrightarrow> length env' < length env"
  using w_request_env [of ty tp m env net ok "f # env'" net'] by simp

lemma read_round_less:
  assumes "(True, eol, io', env', net') = read_round up io env net" "uc_rbuf (ucbs net up) \<noteq> []"
  shows "length env' \<le> length env \<and>
    (u_count io' > 0 \<and> \<not> eol \<and> u_error net' = None \<longrightarrow>
     length env' < length env \<or> (length env' = length env \<and> uc_rbuf (ucbs net' up) = []))"
proof -
  have "length env' \<le> length env"
    using assms(1) by (auto simp: read_round_def split: prod.splits if_splits dest: lock_rbuf_env)
  then show ?thesis using read_round_measure [OF assms(1)[symmetric] assms(2)] by blast
qed

text \<open>Every round that does not end the loop sleeps, except one that empties the queue of buffers
  of length 0; the round after it sleeps.\<close>

termination tcp_read_loop
  by (relation "measures [\<lambda>(up, tp, incount, eol, io, env, net). length env,
    \<lambda>(up, tp, incount, eol, io, env, net). if u_count io > 0 \<and> \<not> eol \<and> u_error net = None
       then (if uc_rbuf (ucbs net up) = [] then 1 else 2) else 0]")
    (auto dest!: read_round_less w_request_less split: if_splits)

declare tcp_read_loop.simps [simp del]

definition tcp_read :: "nat \<Rightarrow> uio \<Rightarrow> env \<Rightarrow> net \<Rightarrow> outcome \<times> uio \<times> env \<times> net" where
  "tcp_read up io env net =
    (case uc_tcb (ucbs net up) of
       None \<Rightarrow> (Returned, io, env, set_error ENETERR net)
     | Some tp \<Rightarrow>
         (let (oc, env, net) = (if syn_acked (tcbs net tp) then (Returned, env, net)
                                else awaitconn up tp env net) in
          if oc \<noteq> Returned then (oc, io, env, net)
          else tcp_read_loop up tp (u_count io) False io env net))"

section \<open>Writing\<close>

text \<open>User data is copied into at most the given number of fresh buffers behind \<open>ch\<close>.  None is
  the return after an error; the buffers of the chain are then freed only if it was a fault, and
  the last buffer is not.\<close>

fun fill_chain :: "nat \<Rightarrow> mbuf list \<Rightarrow> uio \<Rightarrow> net \<Rightarrow> mbuf list option \<times> uio \<times> net" where
  "fill_chain 0 ch io net = (Some ch, io, net)"
| "fill_chain (Suc b) ch io net =
    (if u_count io > 0 then
       (let (got, net) = m_get 1 net in
        if got = None then (None, io, set_error ENETBUF net)
        else
          (let len = min MLEN (u_count io);
               (m, io, net) = move_in len io ((the got)\<lparr>m_off := MHEAD\<rparr>) net in
           if u_error net = None then fill_chain b (ch @ [m\<lparr>m_len := len\<rparr>]) io net
           else (None, io, freem ch net)))
     else (Some ch, io, net))"

definition chain_dat :: "mbuf list \<Rightarrow> wdat" where
  "chain_dat ms = (if ms = [] then NoDat else MbufDat ms)"

function tcp_write_loop :: "nat \<Rightarrow> nat \<Rightarrow> uio \<Rightarrow> env \<Rightarrow> net \<Rightarrow> outcome \<times> uio \<times> env \<times> net" where
  "tcp_write_loop up tp io env net =
    (if u_count io > 0 \<and> u_error net = None \<and> uc_state (ucbs net up) = 0 then
       (let bufs = int (uc_snd (ucbs net up)) - int (uc_ssize (ucbs net up)) in
        case fill_chain (nat bufs) [] io net of
          (None, io, net) \<Rightarrow> (Returned, io, env, net)
        | (Some ch, io, net) \<Rightarrow>
            (case w_request IUSEND tp (chain_dat ch) env net of
               (ok, env, net) \<Rightarrow>
                 if \<not> ok then (Asleep W_workfree, io, env, net)
                 else if u_count io > 0 then
                   (case env of
                      [] \<Rightarrow> (Asleep (W_ucb up), io, [], net)
                    | None # env \<Rightarrow> (Interrupted, io, env, set_error EINTR net)
                    | Some f # env \<Rightarrow> tcp_write_loop up tp io env (f net))
                 else (Returned, io, env, net)))
     else (Returned, io, env, net))"
  by pat_completeness auto

termination tcp_write_loop
  by (relation "measure (\<lambda>(up, tp, io, env, net). length env)")
    (auto dest!: w_request_less)

declare tcp_write_loop.simps [simp del]

definition tcp_write :: "nat \<Rightarrow> uio \<Rightarrow> env \<Rightarrow> net \<Rightarrow> outcome \<times> uio \<times> env \<times> net" where
  "tcp_write up io env net =
    (case uc_tcb (ucbs net up) of
       None \<Rightarrow> (Returned, io, env, set_error ENETERR net)
     | Some tp \<Rightarrow>
         (let (oc, env, net) = (if syn_acked (tcbs net tp) then (Returned, env, net)
                                else awaitconn up tp env net) in
          if oc \<noteq> Returned then (oc, io, env, net) else tcp_write_loop up tp io env net))"

section \<open>Raw reads and writes\<close>

fun raw_wait :: "nat \<Rightarrow> env \<Rightarrow> net \<Rightarrow> outcome \<times> env \<times> net" where
  "raw_wait up env net =
    (if uc_rmsgs (ucbs net up) = [] \<and> uc_state (ucbs net up) = 0 then
       (case env of
          [] \<Rightarrow> (Asleep (W_ucb up), [], net)
        | None # env \<Rightarrow> (Interrupted, env, set_error EINTR net)
        | Some f # env \<Rightarrow> raw_wait up env (f net))
     else (Returned, env, net))"

declare raw_wait.simps [simp del]

fun raw_loop :: "nat \<Rightarrow> mbuf list \<Rightarrow> uio \<Rightarrow> net \<Rightarrow> mbuf list \<times> uio \<times> net" where
  "raw_loop up [] io net = ([], io, net)"
| "raw_loop up (m # ms) io net =
    (if u_count io > 0 \<and> u_error net = None then
       (let len = min (m_len m) (u_count io);
            (io, net) = move_out (take len (mbytes m)) io net in
        if u_error net = None then
          (if len = m_len m then
             (let (_, net) = m_free (m # ms) net;
                  net = upd_ucb up (\<lambda>u. u\<lparr>uc_rsize := uchar (int (uc_rsize u) - 1)\<rparr>) net in
              raw_loop up ms io net)
           else (m\<lparr>m_off := m_off m + len, m_len := m_len m - len\<rparr> # ms, io, net))
        else (m # ms, io, net))
     else (m # ms, io, net))"

definition raw_read :: "nat \<Rightarrow> uio \<Rightarrow> env \<Rightarrow> net \<Rightarrow> outcome \<times> uio \<times> env \<times> net" where
  "raw_read up io env net =
    (let (oc, env, net) = raw_wait up env net in
     if oc \<noteq> Returned then (oc, io, env, net)
     else
       (let incount = u_count io; (ok, env, net) = lock_rbuf up env net in
        if \<not> ok then (Asleep (W_ucflags up), io, env, net)
        else
          (let (io, net) =
                 (case uc_rmsgs (ucbs net up) of
                    [] \<Rightarrow> (io, net)
                  | m # rest \<Rightarrow>
                      (let (m, io, net) = raw_loop up m io net in
                       (io, upd_ucb up (uc_rmsgs_update (\<lambda>_. if m = [] then rest else m # rest)) net)));
               net = unlock_rbuf up net in
           (Returned, io, env,
            if incount = u_count io \<and> uc_state (ucbs net up) \<noteq> 0 then set_error ENETSTAT net else net))))"

text \<open>raw_write: the first buffer of the chain is for the headers.\<close>

definition if_raw :: "nat \<Rightarrow> mbuf list \<Rightarrow> int \<Rightarrow> net \<Rightarrow> net" where
  "if_raw up ch len net =
    (case if_kind (ifs net (the (uc_srcif (ucbs net up)))) of
       Imp \<Rightarrow> imp_raw up ch len net | Vii \<Rightarrow> vii_raw up ch len net)"

definition raw_write :: "nat \<Rightarrow> uio \<Rightarrow> net \<Rightarrow> uio \<times> net" where
  "raw_write up io net =
    (let (got, net) = m_get 1 net in
     if got = None then (io, set_error ENETBUF net)
     else
       (let ulen = int (u_count io) in
        case fill_chain (uc_snd (ucbs net up)) [the got] io net of
          (None, io, net) \<Rightarrow> (io, net)
        | (Some ch, io, net) \<Rightarrow>
            if u_count io > 0 then (io, freem ch (set_error ERAWBAD net))
            else
              (let k = uc_flags (ucbs net up) AND CONMASK in
               (io, if k = UUDP then udp_output up ch ulen net
                    else if k = UIP then ip_raw up ch ulen net
                    else if k = URAW then if_raw up ch ulen net
                    else set_error ENETPARM (freem ch net)))))"

section \<open>netread and netwrite\<close>

definition netread :: "nat \<Rightarrow> uio \<Rightarrow> env \<Rightarrow> net \<Rightarrow> outcome \<times> uio \<times> env \<times> net" where
  "netread up io env net =
    (let k = uc_flags (ucbs net up) AND CONMASK in
     if k = UTCP then tcp_read up io env net
     else if k = UIP \<or> k = URAW \<or> k = UUDP then raw_read up io env net
     else (Returned, io, env, set_error ENETPARM net))"

definition netwrite :: "nat \<Rightarrow> uio \<Rightarrow> env \<Rightarrow> net \<Rightarrow> outcome \<times> uio \<times> env \<times> net" where
  "netwrite up io env net =
    (let k = uc_flags (ucbs net up) AND CONMASK in
     if uc_state (ucbs net up) \<noteq> 0 then (Returned, io, env, set_error ENETSTAT net)
     else if k = UTCP then tcp_write up io env net
     else if k = UIP \<or> k = URAW \<or> k = UUDP then
       (case raw_write up io net of (io, net) \<Rightarrow> (Returned, io, env, net))
     else (Returned, io, env, set_error ENETPARM net))"

section \<open>netioctl\<close>

record netstate =
  ns_snd :: nat
  ns_rcv :: nat
  ns_ssize :: nat
  ns_rsize :: nat
  ns_xstat :: u16
  ns_state :: u16
  ns_flags :: u16
  ns_ports :: "(u16 \<times> u16) option"
  ns_fcon :: addr
  ns_lcon :: addr

record netinit =
  ni_name :: string
  ni_unit :: int
  ni_addr :: addr

text \<open>A netopt argument: the length it gives and the bytes that can be accessed at nio_opt.\<close>

record netopt =
  nio_len :: int
  nio_opt :: "byte list"

text \<open>The commands with their arguments as found at \<open>cmdp\<close>.  The outer option of NETSETD,
  NETTCPOPT, NETGINIT and NETROUTE is a null pointer, the inner one (for the others the only one) a
  fault of copyin or copyout.  The file of NETSETD is the error of namei or whether the file is a
  regular one.\<close>

datatype ioctl =
    NETGETS bool | NETSETU | NETRSETU | NETSETE | NETRSETE | NETCLOSE | NETABORT | NETOWAIT
  | NETSETD "(uerror + bool) option" | NETRESET nat | NETDEBUG nat
  | NETTCPOPT "netopt option option" | NETGINIT "gway option option"
  | NETPRADD "netopt option" | NETPRDEL "netopt option" | NETPRSTAT "netopt option"
  | NETROUTE "addr option option" | NETINIT "netinit option" | NETDISAB "netinit option"
  | NETOTHER

datatype ioret = NoRet | StatRet netstate | ProtRet "int list"

definition GWFORMAT :: u32 where [net_simps]: "GWFORMAT = 2"
definition NIMAX :: nat where [net_simps]: "NIMAX = 8"

definition get_state :: "ucb \<Rightarrow> net \<Rightarrow> netstate" where
  "get_state u net =
    \<lparr>ns_snd = uc_snd u, ns_rcv = uc_rcv u, ns_ssize = uc_ssize u, ns_rsize = uc_rsize u,
     ns_xstat = uc_xstat u, ns_state = uc_state u, ns_flags = uc_flags u,
     ns_ports = (case (has (uc_flags u) UTCP, uc_tcb u) of
                   (True, Some tp) \<Rightarrow> Some (t_lport (tcbs net tp), t_fport (tcbs net tp))
                 | _ \<Rightarrow> if has (uc_flags u) UUDP then Some (uc_lport u, uc_fport u) else None),
     ns_fcon = uc_host u, ns_lcon = uc_local u\<rparr>"

text \<open>The comparison of the name of an interface: at most NIMAX characters.\<close>

definition hdc :: "string \<Rightarrow> char" where
  "hdc s = (case s of [] \<Rightarrow> CHR 0x00 | c # _ \<Rightarrow> c)"

fun name_match :: "nat \<Rightarrow> string \<Rightarrow> string \<Rightarrow> bool" where
  "name_match 0 p q = True"
| "name_match (Suc n) p q =
    (if hdc p = hdc q \<and> hdc q \<noteq> CHR 0x00 then name_match n (tl p) (tl q) else hdc p = hdc q)"

definition find_if :: "netinit \<Rightarrow> net \<Rightarrow> nat option" where
  "find_if ni net =
    find (\<lambda>lp. if_unit (ifs net lp) = ni_unit ni \<and> name_match NIMAX (ni_name ni) (if_name (ifs net lp)))
      (n_ifcbs net)"

fun abort_users :: "nat \<Rightarrow> nat list \<Rightarrow> net \<Rightarrow> net" where
  "abort_users lp [] net = net"
| "abort_users lp (q # qs) net =
    abort_users lp qs (if uc_srcif (ucbs net q) = Some lp then to_user q UABORT net else net)"

definition if_ctl :: "bool \<Rightarrow> netinit \<Rightarrow> net \<Rightarrow> net" where
  "if_ctl init ni net =
    (case find_if ni net of
       None \<Rightarrow> set_error EINVAL net
     | Some lp \<Rightarrow>
         if init then
           (if \<not> if_avail (ifs net lp)
            then emit (If_init lp) (upd_if lp (\<lambda>i. i\<lparr>if_disab := False, if_addr := ni_addr ni\<rparr>) net)
            else net)
         else
           (let net = netreset lp (upd_if lp (if_disab_update (\<lambda>_. True)) net) in
            abort_users lp (n_ucbs net) net))"

text \<open>The union of a connection block holds protocol entries only for raw connections; NETPRADD,
  NETPRDEL and NETPRSTAT do not look.  The loop of the first two copies each number to the address
  that the uninitialised \<open>proto\<close> holds and then uses its value.\<close>

definition proto_union :: "ucb \<Rightarrow> bool" where
  "proto_union u \<longleftrightarrow> \<not> has (uc_flags u) (UTCP OR UUDP)"

function proto_loop :: "bool \<Rightarrow> nat \<Rightarrow> int \<Rightarrow> netopt \<Rightarrow> net \<Rightarrow> net" where
  "proto_loop add up proto opt net =
    (if nio_len opt > 0 then
       (if length (nio_opt opt) < 2 then set_error EFAULT net
        else proto_loop add up proto (opt\<lparr>nio_len := nio_len opt - 2, nio_opt := drop 2 (nio_opt opt)\<rparr>)
               (if add then raw_add up proto net else raw_del up proto net))
     else net)"
  by pat_completeness auto

termination proto_loop
  by (relation "measure (\<lambda>(add, up, proto, opt, net). nat (nio_len opt))") auto

declare proto_loop.simps [simp del]

definition proto_ctl :: "bool \<Rightarrow> nat \<Rightarrow> int \<Rightarrow> netopt option \<Rightarrow> net \<Rightarrow> net" where
  "proto_ctl add up proto arg net =
    (case arg of
       None \<Rightarrow> set_error EFAULT net
     | Some opt \<Rightarrow>
         if proto_union (ucbs net up) then proto_loop add up proto opt net
         else panic ''netioctl: no protocol entries'' net)"

definition set_opts :: "nat \<Rightarrow> netopt \<Rightarrow> net \<Rightarrow> net" where
  "set_opts tp opt net =
    (if nio_len opt > IPMAXOPT then set_error EINVAL net
     else
       (let (got, net) = m_get 1 net in
        if got = None then set_error ENETBUF net
        else if nio_len opt < 0 \<or> nio_len opt > int (length (nio_opt opt))
        then set_error EFAULT (snd (m_free [the got] net))
        else upd_tcb tp (\<lambda>t. t\<lparr>t_opts := take (nat (nio_len opt)) (nio_opt opt),
                               t_optlen := nat (nio_len opt)\<rparr>) net))"

definition add_gateway :: "nat \<Rightarrow> gway option \<Rightarrow> net \<Rightarrow> net" where
  "add_gateway ngate arg net =
    (if ngate \<le> length (gateways net) then set_error ETABLE net
     else
       (case arg of
          None \<Rightarrow> set_error EFAULT net
        | Some gp \<Rightarrow>
            if has (g_flags gp) GWFORMAT then
              (case find (\<lambda>lp. iptonet (if_addr (ifs net lp)) = g_lnet gp) (n_ifcbs net) of
                 Some lp \<Rightarrow> net\<lparr>gateways := gateways net @ [gp\<lparr>g_ifcb := lp\<rparr>]\<rparr>
               | None \<Rightarrow> set_error EINVAL net)
            else set_error EINVAL net))"

definition set_route :: "nat \<Rightarrow> addr option option \<Rightarrow> net \<Rightarrow> net" where
  "set_route up arg net =
    (let route = uc_route (ucbs net up) in
     case arg of
       None \<Rightarrow> h_free_opt route (upd_ucb up (uc_route_update (\<lambda>_. None)) net)
     | Some None \<Rightarrow> set_error EFAULT net
     | Some (Some a) \<Rightarrow>
         (let (r, net) = h_make a False net in
          h_free_opt route (upd_ucb up (uc_route_update (\<lambda>_. r)) net)))"

definition set_debug :: "(uerror + bool) option \<Rightarrow> net \<Rightarrow> net" where
  "set_debug arg net =
    (case arg of
       None \<Rightarrow> net\<lparr>n_debug := False\<rparr>
     | Some ip \<Rightarrow>
         if n_debug net then set_error EBUSY net
         else
           (case ip of
              Inl e \<Rightarrow> set_error e net
            | Inr reg \<Rightarrow> if reg then net\<lparr>n_debug := True\<rparr> else set_error EACCES net))"

definition has_tcb :: "nat \<Rightarrow> net \<Rightarrow> nat \<Rightarrow> bool" where
  "has_tcb tp net q \<longleftrightarrow> has (uc_flags (ucbs net q)) UTCP \<and> uc_tcb (ucbs net q) = Some tp"

definition my_tcb :: "nat \<Rightarrow> net \<Rightarrow> nat option" where
  "my_tcb up net = (if has (uc_flags (ucbs net up)) UTCP then uc_tcb (ucbs net up) else None)"

definition or_flag :: "nat \<Rightarrow> u16 \<Rightarrow> net \<Rightarrow> net" where
  "or_flag up f net = upd_ucb up (\<lambda>u. u\<lparr>uc_flags := uc_flags u OR f\<rparr>) net"

definition and_not_flag :: "nat \<Rightarrow> u16 \<Rightarrow> net \<Rightarrow> net" where
  "and_not_flag up f net = upd_ucb up (\<lambda>u. u\<lparr>uc_flags := uc_flags u AND NOT f\<rparr>) net"

definition super :: "bool \<Rightarrow> (net \<Rightarrow> net) \<Rightarrow> net \<Rightarrow> net" where
  "super su f net = (if su then f net else set_error EPERM net)"

text \<open>A request on the connection's own block, which sleeps while the work table is full.\<close>

definition user_request :: "nat \<Rightarrow> nat \<Rightarrow> nat \<Rightarrow> env \<Rightarrow> net \<Rightarrow> outcome \<times> env \<times> net" where
  "user_request type tp up env net =
    (case w_request type tp (MbufDat [blk up net]) env net of
       (ok, env, net) \<Rightarrow> (if ok then Returned else Asleep W_workfree, env, net))"

text \<open>The commands that may sleep.\<close>

definition tcp_ctl :: "nat \<Rightarrow> ioctl \<Rightarrow> env \<Rightarrow> net \<Rightarrow> outcome \<times> env \<times> net" where
  "tcp_ctl up cmd env net =
    (case my_tcb up net of
       None \<Rightarrow> (Returned, env, net)
     | Some tp \<Rightarrow>
         (case cmd of
            NETCLOSE \<Rightarrow> if usr_closed (tcbs net tp) then (Returned, env, net)
                        else user_request IUCLOSE tp up env net
          | NETABORT \<Rightarrow> user_request IUABORT tp up env net
          | NETOWAIT \<Rightarrow> if syn_acked (tcbs net tp) then (Returned, env, net)
                        else awaitconn up tp env net
          | _ \<Rightarrow> (Returned, env, net)))"

text \<open>The others; \<open>su\<close> is suser(), \<open>ngate\<close> the size of the gateway table, \<open>proto\<close> the
  contents of the uninitialised variable.\<close>

definition net_ctl :: "bool \<Rightarrow> nat \<Rightarrow> int \<Rightarrow> nat \<Rightarrow> ioctl \<Rightarrow> net \<Rightarrow> ioret \<times> net" where
  "net_ctl su ngate proto up cmd net =
    (case cmd of
       NETGETS ok \<Rightarrow>
         if ok then (StatRet (get_state (ucbs net up) net), upd_ucb up (\<lambda>u. u\<lparr>uc_xstat := 0, uc_state := 0\<rparr>) net)
         else (NoRet, set_error EFAULT net)
     | NETSETU \<Rightarrow> (NoRet, or_flag up UURG net)
     | NETRSETU \<Rightarrow> (NoRet, and_not_flag up UURG net)
     | NETSETE \<Rightarrow> (NoRet, or_flag up UEOL net)
     | NETRSETE \<Rightarrow> (NoRet, and_not_flag up UEOL net)
     | NETSETD arg \<Rightarrow> (NoRet, super su (set_debug arg) net)
     | NETRESET tp \<Rightarrow>
         (NoRet, super su (\<lambda>net. if \<exists>q\<in>set (n_ucbs net). has_tcb tp net q
                                 then w_alloc INCLEAR 0 tp NoDat net else set_error EINVAL net) net)
     | NETDEBUG tp \<Rightarrow>
         (NoRet, case find (has_tcb tp net) (n_ucbs net) of
                   Some q \<Rightarrow> upd_ucb q (\<lambda>u. u\<lparr>uc_flags := uc_flags u XOR UDEBUG\<rparr>) net
                 | None \<Rightarrow> set_error EINVAL net)
     | NETTCPOPT arg \<Rightarrow>
         (NoRet, case (my_tcb up net, arg) of
                   (Some tp, Some None) \<Rightarrow> set_error EFAULT net
                 | (Some tp, Some (Some opt)) \<Rightarrow> set_opts tp opt net
                 | _ \<Rightarrow> net)
     | NETGINIT arg \<Rightarrow>
         (NoRet, super su (\<lambda>net. case arg of None \<Rightarrow> net\<lparr>gateways := []\<rparr>
                                 | Some gp \<Rightarrow> add_gateway ngate gp net) net)
     | NETPRADD arg \<Rightarrow> (NoRet, proto_ctl True up proto arg net)
     | NETPRDEL arg \<Rightarrow> (NoRet, proto_ctl False up proto arg net)
     | NETPRSTAT arg \<Rightarrow>
         (case arg of
            None \<Rightarrow> (NoRet, set_error EFAULT net)
          | Some opt \<Rightarrow>
              if proto_union (ucbs net up) then
                (let ps = raw_stat (ucbs net up) (nat (nio_len opt)); k = length (nio_opt opt) div 2 in
                 (ProtRet (take k ps), if length ps \<le> k then net else set_error EFAULT net))
              else (NoRet, panic ''netioctl: no protocol entries'' net))
     | NETROUTE arg \<Rightarrow> (NoRet, set_route up arg net)
     | NETINIT arg \<Rightarrow>
         (NoRet, super su (\<lambda>net. case arg of None \<Rightarrow> set_error EFAULT net | Some ni \<Rightarrow> if_ctl True ni net) net)
     | NETDISAB arg \<Rightarrow>
         (NoRet, super su (\<lambda>net. case arg of None \<Rightarrow> set_error EFAULT net | Some ni \<Rightarrow> if_ctl False ni net) net)
     | _ \<Rightarrow> (NoRet, set_error ENETPARM net))"

definition netioctl :: "bool \<Rightarrow> nat \<Rightarrow> int \<Rightarrow> nat \<Rightarrow> ioctl \<Rightarrow> env \<Rightarrow> net \<Rightarrow> outcome \<times> ioret \<times> env \<times> net" where
  "netioctl su ngate proto up cmd env net =
    (if cmd = NETCLOSE \<or> cmd = NETABORT \<or> cmd = NETOWAIT
     then (case tcp_ctl up cmd env net of (oc, env, net) \<Rightarrow> (oc, NoRet, env, net))
     else (case net_ctl su ngate proto up cmd net of (r, net) \<Rightarrow> (Returned, r, env, net)))"

end
