(* ===== verification/User_Ports.thy ===== *)
theory User_Ports
  imports Netuser
begin

text \<open>
  uniqport: the port of a new connection.  The search for a default port tries distinct ports, and
  every other connection can block at most two of them, so it ends long before it comes round.
\<close>

section \<open>The ports tried\<close>

lemma next_port_unat:
  "unat (next_port p) = (if unat p + 1 \<ge> 2 ^ 16 \<or> unat p + 1 < 256 then 256 else unat p + 1)"
proof (cases "p = - 1")
  case True
  then show ?thesis by (simp add: next_port_def unsigned_minus_1_eq_mask mask_eq_exp_minus_1)
next
  case False
  then have "unat (p + 1) = unat p + 1" 
    using unatSuc [of p] by (simp add: add.commute add_eq_0_iff)
  moreover have "unat p + 1 < 2 ^ 16"
    using calculation unsigned_less [of "p + 1", where 'a = nat] by simp
  moreover have "p + 1 < 0x100 \<longleftrightarrow> unat p + 1 < 256" using calculation(1) by (simp add: word_less_nat_alt)
  ultimately show ?thesis by (simp add: next_port_def)
qed

lemma next_port_iter:
  assumes "256 \<le> unat p"
  shows "unat ((next_port ^^ i) p) = 256 + (unat p - 256 + i) mod 65280"
proof (induction i)
  case 0
  have "unat p < 2 ^ 16" by (rule order.strict_trans2 [OF unsigned_less]) simp
  then show ?case using assms by simp
next
  case (Suc i)
  let ?r = "(unat p - 256 + i) mod 65280"
  have r: "?r < 65280" by simp
  have s: "(unat p - 256 + Suc i) mod 65280 = (if Suc ?r = 65280 then 0 else Suc ?r)"
    by (simp add: mod_Suc)
  have "unat ((next_port ^^ Suc i) p) = (if 256 + ?r + 1 \<ge> 2 ^ 16 \<or> 256 + ?r + 1 < 256 then 256 else 256 + ?r + 1)"
    by (simp only: funpow.simps comp_apply next_port_unat Suc)
  also have "\<dots> = 256 + (if Suc ?r = 65280 then 0 else Suc ?r)" using r by auto
  finally show ?case by (simp only: s)
qed

lemma mod_shift_inj:
  assumes "(c + i) mod n = (c + j) mod n" "i \<le> j" "j < n"
  shows "i = (j :: nat)"
proof -
  have "n dvd (c + j) - (c + i)"
    using mod_eq_dvd_iff_nat [of "c + i" "c + j" n] assms(1,2) by (metis add_le_cancel_left)
  then have "n dvd j - i" by simp
  moreover have "j - i < n" using assms(3) by simp
  ultimately show ?thesis using assms(2) by (auto dest: nat_dvd_not_less)
qed

lemma next_port_inj:
  assumes "256 \<le> unat p" "n \<le> 65280"
  shows "inj_on (\<lambda>i. (next_port ^^ i) p) {..<n}"
proof (rule inj_onI)
  fix i j
  assume ij: "i \<in> {..<n}" "j \<in> {..<n}" and e: "(next_port ^^ i) p = (next_port ^^ j) p"
  have m: "(unat p - 256 + i) mod 65280 = (unat p - 256 + j) mod 65280"
    using next_port_iter [OF assms(1), of i] next_port_iter [OF assms(1), of j] e by simp
  show "i = j"
  proof (cases "i \<le> j")
    case True
    then show ?thesis using mod_shift_inj [OF m] ij assms(2) by simp
  next
    case False
    then show ?thesis using mod_shift_inj [OF m [symmetric]] ij assms(2) by simp
  qed
qed

lemma port_loop_None:
  "port_loop k up p fport net = None \<Longrightarrow> i < k \<Longrightarrow>
   \<exists>q\<in>set (n_ucbs net). port_clash up ((next_port ^^ i) p) fport net q"
proof (induction k arbitrary: p i)
  case (Suc k)
  have c: "\<exists>q\<in>set (n_ucbs net). port_clash up p fport net q"
    and r: "port_loop k up (next_port p) fport net = None"
    using Suc.prems(1) by (auto split: if_splits)
  show ?case
  proof (cases i)
    case 0
    then show ?thesis using c by simp
  next
    case (Suc j)
    then show ?thesis using Suc.IH [OF r, of j] Suc.prems(2) by (simp add: funpow_swap1)
  qed
qed simp

lemma port_loop_Some:
  "port_loop k up p fport net = Some r \<Longrightarrow> \<not> (\<exists>q\<in>set (n_ucbs net). port_clash up r fport net q)"
  by (induction k arbitrary: p) (auto split: if_splits)

text \<open>The two ports a connection can block.\<close>

definition ports_of :: "net \<Rightarrow> nat \<Rightarrow> u16 set" where
  "ports_of net q = {t_lport (tcbs net (the (uc_tcb (ucbs net q)))), uc_lport (ucbs net q)}"

lemma clash_ports: "port_clash up p fport net q \<Longrightarrow> p \<in> ports_of net q"
  by (auto simp: port_clash_def ports_of_def split: option.splits)

lemma card_ports: "card (\<Union>q\<in>set qs. ports_of net q) \<le> 2 * length qs"
proof (induction qs)
  case (Cons q qs)
  have "card (ports_of net q) \<le> 2" by (simp add: ports_of_def card_insert_if)
  then show ?case using Cons card_Un_le [of "ports_of net q" "\<Union>q\<in>set qs. ports_of net q"] by simp
qed simp

lemma port_fuel_enough:
  assumes "length (n_ucbs net) \<le> 32000"
  shows "port_loop (port_fuel net) up p fport net \<noteq> None"
proof
  assume none: "port_loop (port_fuel net) up p fport net = None"
  let ?n = "2 * length (n_ucbs net) + 1" and ?p = "next_port p"
  let ?S = "(\<lambda>i. (next_port ^^ i) ?p) ` {..<?n}"
  have "?S \<subseteq> (\<Union>q\<in>set (n_ucbs net). ports_of net q)"
  proof (rule image_subsetI)
    fix i assume "i \<in> {..<?n}"
    then have "\<exists>q\<in>set (n_ucbs net). port_clash up ((next_port ^^ Suc i) p) fport net q"
      by (intro port_loop_None [OF none]) (simp add: port_fuel_def)
    then show "(next_port ^^ i) ?p \<in> (\<Union>q\<in>set (n_ucbs net). ports_of net q)"
      by (auto dest: clash_ports simp: funpow_swap1)
  qed
  then have "card ?S \<le> card (\<Union>q\<in>set (n_ucbs net). ports_of net q)"
    by (rule card_mono [rotated]) (simp add: ports_of_def)
  also have "\<dots> \<le> 2 * length (n_ucbs net)" by (rule card_ports)
  finally have "card ?S < ?n" by simp
  moreover have "card ?S = ?n"
    using next_port_inj [of ?p ?n] assms by (simp add: card_image next_port_unat)
  ultimately show False by simp
qed

section \<open>uniqport\<close>

text \<open>C14: uniqport always ends, and the port it returns makes the connection unique.  With at most
  32000 connections, a request without a local port is always given one that no other connection
  to the same host from the same address uses with the same foreign port, without an error or any
  other change; a request for a given port gets it exactly if it is free, and otherwise the error
  ENETRNG and port 0.\<close>

theorem uniqport_unique:
  assumes "length (n_ucbs net) \<le> 32000" "uniqport up lport fport net = (p, net')"
  shows "((\<forall>q\<in>set (n_ucbs net). \<not> port_clash up p fport net q) \<and> net' = net \<and> (lport = 0 \<or> p = lport))
    \<or> (lport \<noteq> 0 \<and> (\<exists>q\<in>set (n_ucbs net). port_clash up lport fport net q)
       \<and> p = 0 \<and> net' = set_error ENETRNG net)"
  using assms(2) port_fuel_enough [OF assms(1), of up "default_port up net" fport]
  by (auto simp: uniqport_def split: if_splits option.splits dest: port_loop_Some)

text \<open>A second connection from process 7 that wants the default port 0x107 of the first.\<close>

definition sample_ports :: net where
  "sample_ports = net0\<lparr>n_ucbs := [3, 5],
     ucbs := (ucbs net0)(3 := ucb0\<lparr>uc_proc := Some 7, uc_flags := UUDP\<rparr>,
                         5 := ucb0\<lparr>uc_proc := Some 7, uc_flags := UUDP, uc_lport := 0x107\<rparr>)\<rparr>"

theorem uniqport_unique_witness:
  "fst (uniqport 3 0 0 sample_ports) = 0x108
   \<and> \<not> (\<exists>q\<in>set (n_ucbs sample_ports). port_clash 3 0x108 0 sample_ports q)"
proof -
  have "fst (uniqport 3 0 0 sample_ports) = 0x108" by code_simp
  then obtain net' where u: "uniqport 3 0 0 sample_ports = (0x108, net')"
    by (cases "uniqport 3 0 0 sample_ports") auto
  have "length (n_ucbs sample_ports) \<le> 32000" by (simp add: sample_ports_def)
  from uniqport_unique [OF this u] u show ?thesis by auto
qed

end
