(* ===== verification/Send_Stream.thy ===== *)
theory Send_Stream
  imports Tcp_States
begin

text \<open>
  The send buffer as a byte stream.  \<open>send_queue\<close> is the contract that send_tcp relies on: a
  queue to which the user appends, from which acknowledgements take bytes off the front, and from
  which any part can be copied for transmission.  The routines of sss_snd, rcv_ack and snd_copy are
  shown to keep it on chains of buffers, so a byte that is sent again is the byte the user wrote.
\<close>

section \<open>The contract\<close>

datatype 'q send_op = Write 'q | Acked nat

fun send_run :: "('q \<Rightarrow> 'q \<Rightarrow> 's \<Rightarrow> 'q \<times> 's) \<Rightarrow> (nat \<Rightarrow> 'q \<Rightarrow> 's \<Rightarrow> 'q \<times> 's)
    \<Rightarrow> 'q send_op list \<Rightarrow> 'q \<times> 's \<Rightarrow> 'q \<times> 's" where
  "send_run put ack [] qs = qs"
| "send_run put ack (Write d # ops) qs = send_run put ack ops (put (fst qs) d (snd qs))"
| "send_run put ack (Acked n # ops) qs = send_run put ack ops (ack n (fst qs) (snd qs))"

text \<open>What was written and acknowledged; no operation acknowledges more than is there.\<close>

fun written :: "'q send_op list \<Rightarrow> 'q list" where
  "written [] = []"
| "written (Write d # ops) = d # written ops"
| "written (Acked n # ops) = written ops"

fun acked :: "'q send_op list \<Rightarrow> nat" where
  "acked [] = 0"
| "acked (Write d # ops) = acked ops"
| "acked (Acked n # ops) = n + acked ops"

fun ops_ok :: "('q \<Rightarrow> byte list) \<Rightarrow> nat \<Rightarrow> 'q send_op list \<Rightarrow> bool" where
  "ops_ok content n [] = True"
| "ops_ok content n (Write d # ops) = ops_ok content (n + length (content d)) ops"
| "ops_ok content n (Acked k # ops) = (k \<le> n \<and> ops_ok content (n - k) ops)"

lemma ops_ok_acked:
  "ops_ok content n ops \<Longrightarrow> acked ops \<le> n + length (concat (map content (written ops)))"
  by (induction content n ops rule: ops_ok.induct) auto

locale send_queue =
  fixes cap :: nat and inv :: "'q \<Rightarrow> bool" and content :: "'q \<Rightarrow> byte list"
    and put :: "'q \<Rightarrow> 'q \<Rightarrow> 's \<Rightarrow> 'q \<times> 's" and ack :: "nat \<Rightarrow> 'q \<Rightarrow> 's \<Rightarrow> 'q \<times> 's"
    and slice :: "nat \<Rightarrow> nat \<Rightarrow> 'q \<Rightarrow> 's \<Rightarrow> 'q option"
  assumes put_law: "inv q \<Longrightarrow> inv d \<Longrightarrow>
      inv (fst (put q d s)) \<and> content (fst (put q d s)) = content q @ content d"
    and ack_law: "inv q \<Longrightarrow> n \<le> length (content q) \<Longrightarrow>
      inv (fst (ack n q s)) \<and> content (fst (ack n q s)) = drop n (content q)"
    and slice_law: "inv q \<Longrightarrow> i < j \<Longrightarrow> j \<le> length (content q) \<Longrightarrow>
      length (content q) \<le> cap \<Longrightarrow> slice i j q s = Some c \<Longrightarrow>
      content c = take (j - i) (drop i (content q))"
begin

lemma run_content:
  "inv q \<Longrightarrow> (\<forall>d\<in>set (written ops). inv d) \<Longrightarrow> ops_ok content (length (content q)) ops \<Longrightarrow>
   inv (fst (send_run put ack ops (q, s)))
   \<and> content (fst (send_run put ack ops (q, s)))
     = drop (acked ops) (content q @ concat (map content (written ops)))"
proof (induction ops arbitrary: q s)
  case (Cons op ops)
  show ?case
  proof (cases op)
    case (Write d)
    obtain q' s' where p: "put q d s = (q', s')" by (cases "put q d s")
    have "inv q'" "content q' = content q @ content d"
      using put_law [of q d s] Cons.prems p by (auto simp: Write)
    then show ?thesis using Cons.IH [of q' s'] Cons.prems p by (simp add: Write)
  next
    case (Acked n)
    obtain q' s' where p: "ack n q s = (q', s')" by (cases "ack n q s")
    have "inv q'" "content q' = drop n (content q)" "n \<le> length (content q)"
      using ack_law [of q n s] Cons.prems p by (auto simp: Acked)
    then show ?thesis
      using Cons.IH [of q' s'] Cons.prems p by (simp add: Acked add.commute)
  qed
qed simp

text \<open>Stream position \<open>a\<close> is offset \<open>a - acked ops\<close> of the queue: a part copied there is the
  part of everything ever written.\<close>

lemma run_slice:
  assumes "inv q" "\<forall>d\<in>set (written ops). inv d" "ops_ok content (length (content q)) ops"
    and "send_run put ack ops (q, s) = (q', s')" "acked ops \<le> a" "a < b"
    and "b \<le> length (content q @ concat (map content (written ops)))"
    and "length (content q @ concat (map content (written ops))) - acked ops \<le> cap"
    and "slice (a - acked ops) (b - acked ops) q' s2 = Some c"
  shows "content c = take (b - a) (drop a (content q @ concat (map content (written ops))))"
proof -
  let ?all = "content q @ concat (map content (written ops))"
  have q': "inv q'" "content q' = drop (acked ops) ?all"
    using run_content [OF assms(1-3), of s] assms(4) by simp_all
  have "content c = take (b - acked ops - (a - acked ops)) (drop (a - acked ops) (content q'))"
    by (rule slice_law [OF q'(1) _ _ _ assms(9)]) (use assms(5-8) q'(2) in auto)
  moreover have "drop (a - acked ops) (content q') = drop a ?all"
    using assms(5) by (simp only: q'(2) drop_drop le_add_diff_inverse2)
  moreover have "b - acked ops - (a - acked ops) = b - a" using assms(5,6) by simp
  ultimately show ?thesis by (simp only:)
qed

end

section \<open>Buffers of the send queue\<close>

text \<open>User data is copied into buffers behind their header.\<close>

definition sbuf_ok :: "mbuf list \<Rightarrow> bool" where
  "sbuf_ok ms \<longleftrightarrow> (\<forall>m\<in>set ms. MHEAD \<le> m_off m \<and> m_off m + m_len m \<le> MSIZE)"

lemma sbuf_ok_simps [simp]:
  "sbuf_ok []" "sbuf_ok (m # ms) \<longleftrightarrow> (MHEAD \<le> m_off m \<and> m_off m + m_len m \<le> MSIZE) \<and> sbuf_ok ms"
  "sbuf_ok (ms @ ns) \<longleftrightarrow> sbuf_ok ms \<and> sbuf_ok ns"
  by (auto simp: sbuf_ok_def)

lemma mbytes_blit_end:
  "m_off m + m_len m = d \<Longrightarrow>
   mbytes ((blit src s d n m)\<lparr>m_len := m_len m + n\<rparr>) = mbytes m @ map src [s ..< s + n]"
  unfolding mbytes_def blit_def
  by (rule nth_equalityI) (auto simp: nth_append)

lemma map_dat_take: "n \<le> m_len m \<Longrightarrow> map (m_dat m) [m_off m ..< m_off m + n] = take n (mbytes m)"
  by (simp add: mbytes_def take_map take_upt)

section \<open>Appending: sss_snd\<close>

lemma consolidate_bytes:
  assumes "off = m_off m + m_len m" "sbuf_ok [m]" "sbuf_ok ns"
  shows "case consolidate m off ns net of (m', ns', k, net') \<Rightarrow>
    mbytes m' @ chain_bytes ns' = mbytes m @ chain_bytes ns \<and> sbuf_ok [m'] \<and> sbuf_ok ns'"
  using assms
proof (induction ns arbitrary: m off net)
  case (Cons n ns)
  show ?case
  proof (cases "int MSIZE - int off \<ge> int (m_len n)")
    case True
    let ?m = "(blit (m_dat n) (m_off n) off (m_len n) m)\<lparr>m_len := uchar (int (m_len m) + int (m_len n))\<rparr>"
    have len: "m_len ?m = m_len m + m_len n" "m_off ?m = m_off m"
      using True Cons.prems(1,2) by (simp_all add: net_simps blit_def nat_add_distrib)
    have b: "mbytes ?m = mbytes m @ mbytes n"
      using mbytes_blit_end [where m = m and d = off and src = "m_dat n" and s = "m_off n" and n = "m_len n"]
        Cons.prems(1) len(1) by (simp add: mbytes_def)
    have "sbuf_ok [?m]" "off + m_len n = m_off ?m + m_len ?m"
      using True Cons.prems len by (auto simp: net_simps)
    from Cons.IH [OF this(2,1), of "snd (m_free [n] net)"] Cons.prems(3) b
    show ?thesis using True by (simp add: Let_def split_beta)
  next
    case False
    then show ?thesis using Cons.prems by simp
  qed
qed simp

lemma snd_append_bytes:
  assumes "sbuf_ok sb" "sbuf_ok dat"
  shows "sbuf_ok (fst (snd_append sb dat net))
    \<and> chain_bytes (fst (snd_append sb dat net)) = chain_bytes sb @ chain_bytes dat"
proof (cases "sb = []")
  case False
  then obtain ms m where sb: "sb = ms @ [m]" by (cases sb rule: rev_cases) auto
  obtain m' ns' k net' where c: "consolidate m (m_off m + m_len m) dat net = (m', ns', k, net')"
    by (metis prod_cases4)
  have "mbytes m' @ chain_bytes ns' = mbytes m @ chain_bytes dat" "sbuf_ok [m']" "sbuf_ok ns'"
    using consolidate_bytes [OF refl, of m dat net] c assms by (auto simp: sb)
  then show ?thesis using assms by (simp add: snd_append_def sb c)
qed (use assms in \<open>simp add: snd_append_def\<close>)

section \<open>Removing: rcv_ack\<close>

lemma ack_chain_bytes:
  "sbuf_ok sb \<Longrightarrow> n \<le> chain_len sb \<Longrightarrow>
   sbuf_ok (fst (ack_chain (int n) sb net))
   \<and> chain_bytes (fst (ack_chain (int n) sb net)) = drop n (chain_bytes sb)"
proof (induction sb arbitrary: n net)
  case (Cons m ms)
  show ?case
  proof (cases "n = 0 \<or> m_len m \<le> n")
    case True
    then show ?thesis
      using Cons.IH [of "n - m_len m" "snd (m_free [m] net)"] Cons.prems
      by (auto simp: split_beta of_nat_diff)
  next
    case False
    then have len: "uchar (int (m_len m) - int n) = m_len m - n" "uchar (int (m_off m) + int n) = m_off m + n"
      using Cons.prems(1) by (simp_all add: net_simps nat_diff_distrib nat_add_distrib)
    have "mbytes (m\<lparr>m_len := m_len m - n, m_off := m_off m + n\<rparr>) = drop n (mbytes m)"
      using False by (intro mbytes_drop) simp
    then show ?thesis using False Cons.prems len by auto
  qed
qed simp

section \<open>Copying: snd_copy\<close>

lemma snd_skip_spec:
  assumes "seq_off b start < 2 ^ 31" "seq_off b off + chain_len ms < 2 ^ 31"
    and "seq_off b off \<le> seq_off b start" "seq_off b start < seq_off b off + chain_len ms"
  shows "\<exists>pre m rest. ms = pre @ m # rest \<and> snd_skip start off ms = (off + word_of_nat (chain_len pre), m # rest)
    \<and> seq_off b off + chain_len pre \<le> seq_off b start
    \<and> seq_off b start < seq_off b off + chain_len pre + m_len m"
  using assms
proof (induction ms arbitrary: off)
  case (Cons m ms)
  let ?o = "off + word_of_nat (m_len m)"
  have o: "seq_off b ?o = seq_off b off + m_len m"
    using Cons.prems(2) by (intro seq_off_add) simp
  have geq: "SEQ_GEQ start ?o \<longleftrightarrow> seq_off b off + m_len m \<le> seq_off b start"
    using Cons.prems(1,2) o by (subst SEQ_GEQ_off [of b]) auto
  show ?case
  proof (cases "seq_off b off + m_len m \<le> seq_off b start")
    case True
    then obtain pre n rest where *: "ms = pre @ n # rest"
      "snd_skip start ?o ms = (?o + word_of_nat (chain_len pre), n # rest)"
      "seq_off b ?o + chain_len pre \<le> seq_off b start"
      "seq_off b start < seq_off b ?o + chain_len pre + m_len n"
      using Cons.IH [of ?o] Cons.prems o by auto
    then have "snd_skip start off (m # ms) = (off + word_of_nat (chain_len (m # pre)), n # rest)"
      using True geq by (simp add: add.assoc)
    then show ?thesis using * o by (intro exI [of _ "m # pre"] exI) (auto simp: add.assoc)
  next
    case False
    then show ?thesis using geq Cons.prems by (intro exI [of _ "[]"] exI) auto
  qed
qed simp

text \<open>A buffer under construction: its data starts right behind the header.\<close>

definition fresh_ok :: "mbuf \<Rightarrow> bool" where
  "fresh_ok n \<longleftrightarrow> m_off n = MHEAD \<and> m_len n \<le> MLEN"

lemma snd_partial_spec:
  assumes "k \<le> m_len m" "m_len m - k \<le> MLEN"
  shows "fresh_ok (snd_partial m (int k) n)" "m_len (snd_partial m (int k) n) = m_len m - k"
    "mbytes (snd_partial m (int k) n) = drop k (mbytes m)"
proof -
  have u: "uchar (int (m_len m) - int k) = m_len m - k"
    using assms by (simp add: net_simps of_nat_diff [symmetric] del: of_nat_diff)
  show "fresh_ok (snd_partial m (int k) n)" "m_len (snd_partial m (int k) n) = m_len m - k"
    using assms u by (simp_all add: snd_partial_def fresh_ok_def blit_def Let_def)
  show "mbytes (snd_partial m (int k) n) = drop k (mbytes m)"
    using assms(1) u
    by (intro nth_equalityI) (auto simp: snd_partial_def blit_def Let_def mbytes_def net_simps add_ac)
qed

lemma snd_trim_spec:
  assumes "fresh_ok n" "seq_off b end = L" "seq_off b off = c + m_len n" "L \<le> c + m_len n" "c < L"
    and "c + m_len n < 2 ^ 31"
  shows "fresh_ok (snd_trim off end n)" "mbytes (snd_trim off end n) = take (L - c) (mbytes n)"
proof -
  have "sint (off - end) = int (c + m_len n - L)"
    using assms by (subst sint_diff_off [of b]) auto
  then have u: "uchar (int (m_len n) - sint (off - end)) = L - c"
    using assms by (simp add: fresh_ok_def net_simps of_nat_diff)
  then show "fresh_ok (snd_trim off end n)" using assms by (simp add: snd_trim_def fresh_ok_def, linarith)
  have "snd_trim off end n = n\<lparr>m_len := L - c\<rparr>" by (simp add: snd_trim_def u)
  then show "mbytes (snd_trim off end n) = take (L - c) (mbytes n)"
    using assms(4) mbytes_take [of "L - c" n] by simp
qed


text \<open>One round of the loop, which tops up the last buffer and continues in a fresh one.\<close>

definition snd_fill :: "mbuf \<Rightarrow> nat \<Rightarrow> mbuf \<Rightarrow> mbuf" where
  "snd_fill m k n = (blit (m_dat m) (m_off m) (MHEAD + m_len n) k n)\<lparr>m_len := m_len n + k\<rparr>"

lemma snd_fill_spec:
  assumes "fresh_ok n" "k \<le> m_len m" "k \<le> MLEN - m_len n"
  shows "fresh_ok (snd_fill m k n)" "m_len (snd_fill m k n) = m_len n + k"
    "mbytes (snd_fill m k n) = mbytes n @ take k (mbytes m)"
  using assms mbytes_blit_end [where m = n and d = "MHEAD + m_len n" and src = "m_dat m" and s = "m_off m" and n = k]
  by (auto simp: snd_fill_def fresh_ok_def map_dat_take blit_def)

lemma snd_copy_loop_round:
  assumes "SEQ_GT end off" "fresh_ok n" and k: "k = min (m_len m) (MLEN - m_len n)"
    and o: "off1 = off + word_of_nat k"
  shows "snd_copy_loop end off dn n (m # ms) net =
    (if SEQ_GT end off1 \<and> k < m_len m then
       (let (got, net) = m_get 1 net in
        if got = None then ([], freem (dn @ [snd_fill m k n]) net)
        else (let n' = snd_partial m (int k) (the got) in
              snd_copy_loop end (off1 + word_of_nat (m_len n')) (dn @ [snd_fill m k n]) n' ms net))
     else snd_copy_loop end off1 dn (snd_fill m k n) ms net)"
proof -
  have adj: "int MLEN - int (m_len n) = int (MLEN - m_len n)" using assms(2) by (simp add: fresh_ok_def)
  have len: "(if int (MLEN - m_len n) \<ge> int (m_len m) then int (m_len m) else int (MLEN - m_len n)) = int k"
    using k by auto
  have u: "uchar (int (m_len n) + int k) = m_len n + k"
    by (subst uchar_id) (use assms(2) k in \<open>auto simp: fresh_ok_def net_simps\<close>)
  have lt: "int (MLEN - m_len n) < int (m_len m) \<longleftrightarrow> k < m_len m" using k by (auto simp: min_def)
  have fill: "(blit (m_dat m) (m_off m) (MHEAD + m_len n) k n)\<lparr>m_len := m_len n + k\<rparr> = snd_fill m k n"
    by (simp only: snd_fill_def)
  have bl: "m_len (blit src s d j n) = m_len n" for src s d j by (simp add: blit_def)
  have adjk: "k < m_len m \<Longrightarrow> MLEN - m_len n = k" using k by auto
  show ?thesis
    using assms(1)
    by (simp only: snd_copy_loop.simps(2) Let_def adj len u nat_int bl fill lt of_int_of_nat_eq o
        if_True if_cancel split: if_split) (cases "k < m_len m"; simp add: adjk split_beta)
qed

lemma snd_copy_loop_spec:
  assumes "snd_copy_loop end off dn n ms net = (c, net')" "c \<noteq> []"
    and "\<forall>d\<in>set dn. fresh_ok d" "fresh_ok n" "sbuf_ok ms"
    and "seq_off b off = chain_len (dn @ [n])" "seq_off b end = L"
    and "chain_len dn < L" "L \<le> chain_len (dn @ [n]) + chain_len ms"
    and "chain_len (dn @ [n]) + chain_len ms < 2 ^ 31"
  shows "(\<forall>d\<in>set c. fresh_ok d) \<and> chain_bytes c = take L (chain_bytes (dn @ [n]) @ chain_bytes ms)"
  using assms
proof (induction ms arbitrary: off dn n net)
  case Nil
  have "\<not> SEQ_GT end off" using Nil.prems by (subst SEQ_GT_off [of b]) auto
  then have c: "c = dn @ [snd_trim off end n]" using Nil.prems(1) by simp
  have "fresh_ok (snd_trim off end n)"
    "mbytes (snd_trim off end n) = take (L - chain_len dn) (mbytes n)"
    using snd_trim_spec [of n b "end" L off "chain_len dn"] Nil.prems by simp_all
  then show ?case using Nil.prems by (auto simp: c)
next
  case (Cons m ms)
  show ?case
  proof (cases "SEQ_GT end off")
    case False
    then have L: "L \<le> chain_len (dn @ [n])"
      using Cons.prems by (subst (asm) SEQ_GT_off [of b]) auto
    have c: "c = dn @ [snd_trim off end n]" using Cons.prems(1) False by simp
    have "fresh_ok (snd_trim off end n)"
      "mbytes (snd_trim off end n) = take (L - chain_len dn) (mbytes n)"
      using snd_trim_spec [of n b "end" L off "chain_len dn"] Cons.prems L by simp_all
    then show ?thesis using Cons.prems L by (auto simp: c)
  next
    case gt: True
    define k where "k = min (m_len m) (MLEN - m_len n)"
    define off1 where "off1 = off + word_of_nat k"
    have k: "k \<le> m_len m" "k \<le> MLEN - m_len n" by (simp_all add: k_def)
    note fill = snd_fill_spec [OF Cons.prems(4) k]
    have o: "seq_off b off1 = chain_len (dn @ [snd_fill m k n])"
      using Cons.prems(6,10) k(1) fill(2) unfolding off1_def by (subst seq_off_add) auto
    note rnd = snd_copy_loop_round [OF gt Cons.prems(4) k_def off1_def, of dn ms net]
    show ?thesis
    proof (cases "SEQ_GT end off1 \<and> k < m_len m")
      case True
      then have L: "chain_len (dn @ [snd_fill m k n]) < L"
        using o Cons.prems(7,9,10) fill(2) k(1) SEQ_GT_off [of b "end" off1] by simp
      obtain got net1 where g: "m_get 1 net = (got, net1)" by (cases "m_get 1 net")
      note loop = rnd [unfolded if_P [OF True], symmetric, THEN trans, OF Cons.prems(1)]
      from loop have got: "got \<noteq> None" using Cons.prems(2) g by (auto split: if_splits)
      let ?n' = "snd_partial m (int k) (the got)"
      have km: "m_len m - k \<le> MLEN" using Cons.prems(5) by (simp add: net_simps) linarith
      have part: "fresh_ok ?n'" "m_len ?n' = m_len m - k" "mbytes ?n' = drop k (mbytes m)"
        using snd_partial_spec [OF k(1) km] by auto
      have o': "seq_off b (off1 + word_of_nat (m_len ?n')) = chain_len ((dn @ [snd_fill m k n]) @ [?n'])"
        using o Cons.prems(10) fill(2) k(1) part(2) by (subst seq_off_add) auto
      have e: "snd_copy_loop end (off1 + word_of_nat (m_len ?n')) (dn @ [snd_fill m k n]) ?n' ms net1
          = (c, net')" using loop g got by (simp only: Let_def prod.case if_False)
      show ?thesis
        using Cons.IH [OF e Cons.prems(2)] Cons.prems L o' part fill k(1) by auto
    next
      case False
      have e: "snd_copy_loop end off1 dn (snd_fill m k n) ms net = (c, net')"
        by (rule rnd [unfolded if_not_P [OF False], symmetric, THEN trans, OF Cons.prems(1)])
      show ?thesis
      proof (cases "k < m_len m")
        case True
        then have "L \<le> chain_len (dn @ [snd_fill m k n])"
          using False o Cons.prems(7,9,10) fill(2) k(1) SEQ_GT_off [of b "end" off1] by auto
        then show ?thesis
          using Cons.IH [OF e Cons.prems(2)] Cons.prems(2-10) o fill k(1) by auto
      next
        case False
        then have "k = m_len m" using k(1) by simp
        then show ?thesis using Cons.IH [OF e Cons.prems(2)] Cons.prems(2-10) o fill
          by (auto simp: add.assoc)
      qed
    qed
  qed
qed

text \<open>snd_copy on the sequence numbers from \<open>i\<close> to \<open>j\<close> behind the first one of the queue.\<close>

definition una1 :: "tcb \<Rightarrow> seq" where
  "una1 tp = (if syn_acked tp then snd_una tp else snd_una tp + 1)"

lemma snd_copy_bytes:
  assumes "sbuf_ok sb" "i < j" "j \<le> chain_len sb" "chain_len sb < 2 ^ 31"
    and "snd_copy tp sb (una1 tp + word_of_nat i) (una1 tp + word_of_nat j) net = (c, net')" "c \<noteq> []"
  shows "(\<forall>d\<in>set c. fresh_ok d) \<and> chain_bytes c = take (j - i) (drop i (chain_bytes sb))"
proof -
  let ?b = "una1 tp" and ?s = "una1 tp + word_of_nat i" and ?e = "una1 tp + word_of_nat j"
  have si: "seq_off ?b ?s = i" and ej: "seq_off ?b ?e = j"
    using assms(2-4) by (simp_all add: seq_off_add)
  have lt: "\<not> SEQ_GEQ ?s ?e" using assms(2-4) si ej by (subst SEQ_GEQ_off [of ?b]) auto
  obtain pre m rest where sk: "sb = pre @ m # rest" "snd_skip ?s ?b sb = (?b + word_of_nat (chain_len pre), m # rest)"
    "chain_len pre \<le> i" "i < chain_len pre + m_len m"
    using snd_skip_spec [of ?b ?s ?b sb] assms(2-4) si by auto
  let ?k = "i - chain_len pre"
  have pk: "seq_off ?b (?b + word_of_nat (chain_len pre)) = chain_len pre"
    using assms(4) sk(1) by (simp add: seq_off_add)
  have d: "sint (?s - (?b + word_of_nat (chain_len pre))) = int ?k"
    using sint_diff_off [of ?b ?s "?b + word_of_nat (chain_len pre)"] assms(2-4) si pk sk(3) by simp
  obtain got net1 where g: "m_get 1 net = (got, net1)" by (cases "m_get 1 net")
  let ?n = "snd_partial m (int ?k) (the got)"
  have km: "?k \<le> m_len m" "m_len m - ?k \<le> MLEN"
    using sk assms(1) by (simp_all add: net_simps) linarith
  note part = snd_partial_spec [OF km, of "the got"]
  have copy: "snd_copy tp sb ?s ?e net =
      (if got = None then ([], net1)
       else snd_copy_loop ?e (?s + word_of_nat (m_len ?n)) [] ?n rest net1)"
    using lt sk(2) g d by (simp add: snd_copy_def una1_def Let_def)
  then have e: "snd_copy_loop ?e (?s + word_of_nat (m_len ?n)) [] ?n rest net1 = (c, net')"
    using assms(5,6) by (auto split: if_splits)
  have es: "seq_off ?s ?e = j - i"
  proof -
    have "?e = ?s + word_of_nat (j - i)"
      using assms(2) by (simp add: add.assoc flip: of_nat_add)
    then show ?thesis using seq_off_add [of ?s ?s "j - i"] assms(2-4) by simp
  qed
  have os: "seq_off ?s (?s + word_of_nat (m_len ?n)) = chain_len ([] @ [?n])"
    using seq_off_add [of ?s ?s "m_len ?n"] part(2) assms(4) sk(1) by simp
  have *: "(\<forall>d\<in>set c. fresh_ok d) \<and> chain_bytes c = take (j - i) (chain_bytes ([] @ [?n]) @ chain_bytes rest)"
    by (rule snd_copy_loop_spec [OF e assms(6) _ part(1) _ os es])
      (use assms(1-4) sk part(2) in auto)
  have "chain_bytes ([] @ [?n]) @ chain_bytes rest = drop i (chain_bytes sb)"
    using sk part(3) by simp
  with * show ?thesis by metis
qed

section \<open>The contract on chains of buffers\<close>

definition snd_put :: "mbuf list \<Rightarrow> mbuf list \<Rightarrow> net \<Rightarrow> mbuf list \<times> net" where
  "snd_put sb dat net = (case snd_append sb dat net of (sb, k, net) \<Rightarrow> (sb, net))"

definition snd_ack :: "nat \<Rightarrow> mbuf list \<Rightarrow> net \<Rightarrow> mbuf list \<times> net" where
  "snd_ack n sb net = (case ack_chain (int n) sb net of (sb, k, net) \<Rightarrow> (sb, net))"

definition snd_slice :: "tcb \<Rightarrow> nat \<Rightarrow> nat \<Rightarrow> mbuf list \<Rightarrow> net \<Rightarrow> mbuf list option" where
  "snd_slice tp i j sb net =
    (case snd_copy tp sb (una1 tp + word_of_nat i) (una1 tp + word_of_nat j) net of
       ([], net) \<Rightarrow> None | (c, net) \<Rightarrow> Some c)"

interpretation sndq: send_queue "2 ^ 31 - 1" sbuf_ok chain_bytes snd_put snd_ack "snd_slice tp" for tp
proof
  fix q d :: "mbuf list" and s :: net
  assume "sbuf_ok q" "sbuf_ok d"
  then show "sbuf_ok (fst (snd_put q d s)) \<and> chain_bytes (fst (snd_put q d s)) = chain_bytes q @ chain_bytes d"
    using snd_append_bytes [of q d s] by (simp add: snd_put_def split_beta)
next
  fix q :: "mbuf list" and n and s :: net
  assume "sbuf_ok q" "n \<le> length (chain_bytes q)"
  then show "sbuf_ok (fst (snd_ack n q s)) \<and> chain_bytes (fst (snd_ack n q s)) = drop n (chain_bytes q)"
    using ack_chain_bytes [of q n s] by (simp add: snd_ack_def split_beta)
next
  fix q c :: "mbuf list" and i j :: nat and s :: net
  assume q: "sbuf_ok q" "i < j" "j \<le> length (chain_bytes q)" "length (chain_bytes q) \<le> 2 ^ 31 - 1"
    and "snd_slice tp i j q s = Some c"
  then obtain net' where "snd_copy tp q (una1 tp + word_of_nat i) (una1 tp + word_of_nat j) s = (c, net')"
    "c \<noteq> []" by (auto simp: snd_slice_def split: prod.splits list.splits)
  then show "chain_bytes c = take (j - i) (drop i (chain_bytes q))"
    using snd_copy_bytes [of q i j tp s c net'] q by simp
qed

section \<open>What is transmitted\<close>

text \<open>C11: The send side of a connection is a faithful byte stream.  Whatever the user writes (in
  buffers of any length, consolidated by sss_snd or not) and however much of it has been
  acknowledged and freed by rcv_ack in between, snd_copy of the stream positions from \<open>a\<close> to
  \<open>b\<close>, those not acknowledged yet, yields nothing (no buffer could be allocated) or exactly
  the bytes the user wrote at these positions, in well formed buffers.  The sequence numbers may
  wrap around.\<close>

theorem send_stream:
  assumes "\<forall>d\<in>set (written ops). sbuf_ok d" "ops_ok chain_bytes 0 ops"
    and "send_run snd_put snd_ack ops ([], net) = (sb, net1)"
    and "una1 tp = first + word_of_nat (acked ops)"
    and "acked ops \<le> a" "a < b" "b \<le> length (concat (map chain_bytes (written ops)))"
    and "length (concat (map chain_bytes (written ops))) < acked ops + 2 ^ 31"
    and "snd_copy tp sb (first + word_of_nat a) (first + word_of_nat b) net2 = (c, net3)"
  shows "c = [] \<or> (chain_bytes c = take (b - a) (drop a (concat (map chain_bytes (written ops)))) \<and> sbuf_ok c)"
proof (cases "c = []")
  case False
  let ?all = "concat (map chain_bytes (written ops))"
  have pos: "first + word_of_nat x = una1 tp + word_of_nat (x - acked ops)" if "acked ops \<le> x" for x
    using that by (simp add: assms(4) of_nat_diff)
  have "snd_copy tp sb (una1 tp + word_of_nat (a - acked ops)) (una1 tp + word_of_nat (b - acked ops)) net2 = (c, net3)"
    using assms(5,6,9) pos [of a] pos [of b] by simp
  note copy = this
  then have "snd_slice tp (a - acked ops) (b - acked ops) sb net2 = Some c"
    using False by (auto simp: snd_slice_def split: list.splits)
  then have "chain_bytes c = take (b - a) (drop a ?all)"
    using sndq.run_slice [of "[]" ops net sb net1 a b tp net2 c] assms(1-3,5-8) by simp
  moreover have q: "sbuf_ok sb" "chain_bytes sb = drop (acked ops) ?all"
    using sndq.run_content [of "[]" ops net] assms(1-3) by simp_all
  moreover have "chain_len sb = length ?all - acked ops" using q(2) by (metis length_chain_bytes length_drop)
  ultimately show ?thesis
    using snd_copy_bytes [OF q(1) _ _ _ copy False] assms(5-8)
    by (auto simp: sbuf_ok_def fresh_ok_def net_simps)
qed simp

definition sample_ops :: "mbuf list send_op list" where
  "sample_ops =
    [Write [mbuf0\<lparr>m_off := 125, m_len := 3, m_dat := word_of_nat\<rparr>],
     Write [mbuf0\<lparr>m_off := 10, m_len := 2, m_dat := word_of_nat\<rparr>], Acked 2]"

lemma sample_written: "map chain_bytes (written sample_ops) = [[125, 126, 127], [10, 11]]"
  by (simp add: sample_ops_def mbytes_def upt_rec)

lemma sample_m_get: "\<exists>m n. m_get (Suc 0) net0 = (Some m, n)"
proof -
  have "\<not> Option.is_none (fst (m_get (Suc 0) net0))" by code_simp
  then show ?thesis by (cases "m_get (Suc 0) net0") (auto simp: Option.is_none_def)
qed

lemma m_len_blit: "m_len (blit src s d j n) = m_len n"
  by (simp add: blit_def)

theorem send_stream_witness:
  "\<exists>sb net1 c net3. send_run snd_put snd_ack sample_ops ([], net0) = (sb, net1)
     \<and> snd_copy (tcb0\<lparr>snd_una := 0xFFFFFFFF\<rparr>) sb (0xFFFFFFFE + 2) (0xFFFFFFFE + 5) net0 = (c, net3)
     \<and> c \<noteq> [] \<and> chain_bytes c = [127, 10, 11]"
proof -
  obtain sb net1 where run: "send_run snd_put snd_ack sample_ops ([], net0) = (sb, net1)"
    by (cases "send_run snd_put snd_ack sample_ops ([], net0)")
  obtain c net3 where copy:
    "snd_copy (tcb0\<lparr>snd_una := 0xFFFFFFFF\<rparr>) sb (0xFFFFFFFE + word_of_nat 2) (0xFFFFFFFE + word_of_nat 5) net0 = (c, net3)"
    by (cases "snd_copy (tcb0\<lparr>snd_una := 0xFFFFFFFF\<rparr>) sb (0xFFFFFFFE + word_of_nat 2)
                  (0xFFFFFFFE + word_of_nat 5) net0")
  have "sb = [mbuf0\<lparr>m_off := 127, m_len := 1, m_dat := word_of_nat\<rparr>, mbuf0\<lparr>m_off := 10, m_len := 2, m_dat := word_of_nat\<rparr>]"
    using run by (simp add: sample_ops_def snd_put_def snd_ack_def snd_append_def net_simps mbuf0_def)
  then have ne: "c \<noteq> []"
    using copy
    using sample_m_get
    by (auto simp: tcb0_def seq_defs snd_partial_def Let_def snd_copy_def mbuf0_def net_simps m_len_blit)
  have "c = [] \<or> (chain_bytes c = take (5 - 2) (drop 2 (concat (map chain_bytes (written sample_ops)))) \<and> sbuf_ok c)"
    by (rule send_stream [OF _ _ run _ _ _ _ _ copy])
      (simp_all add: sample_written, simp_all add: sample_ops_def una1_def tcb0_def mbuf0_def net_simps)
  with ne run copy show ?thesis by (auto simp: sample_written)
qed

end
