(* ===== verification/User_Io.thy ===== *)
theory User_Io
  imports Netuser Send_Stream
begin

text \<open>
  What netread, netwrite and netopen do for the user: a read takes bytes off the front of the
  receive queue, a write becomes one request with exactly the bytes of the user, in buffers as the
  send queue wants them, and what a failed open leaves behind.
\<close>

section \<open>What the calls leave alone\<close>

lemma m_free_frame [simp]:
  "ucbs (snd (m_free ms net)) = ucbs net" "u_error (snd (m_free ms net)) = u_error net"
  by (auto simp: m_free_def panic_def split: sum.splits)

lemma set_error_frame [simp]: "ucbs (set_error e net) = ucbs net" "u_error (set_error e net) = Some e"
  by (simp_all add: set_error_def)

lemma unlock_rbuf_frame [simp]:
  "uc_rbuf (ucbs (unlock_rbuf up net) up) = uc_rbuf (ucbs net up)"
  "u_error (unlock_rbuf up net) = u_error net"
  "uc_flags (ucbs (unlock_rbuf up net) up) = uc_flags (ucbs net up) AND NOT ULOCK"
  by (simp_all add: unlock_rbuf_def wakeup_def emit_def upd_ucb_def)

lemma upd_ucb_frame [simp]:
  "ucbs (upd_ucb up f net) up = f (ucbs net up)" "u_error (upd_ucb up f net) = u_error net"
  by (simp_all add: upd_ucb_def)

section \<open>Reading\<close>

lemma move_out_cases:
  "move_out bs io net = (io', net') \<Longrightarrow> u_error net = None \<Longrightarrow>
   (net' = net \<and> u_count io' = u_count io - length bs \<and> u_got io' = u_got io @ bs)
   \<or> (net' = set_error EFAULT net \<and> io' = io \<and> bs \<noteq> [])"
  by (auto simp: move_out_def Let_def split: if_splits)

text \<open>The bytes moved out are a prefix of the queue, and the rest of the queue is what follows.\<close>

lemma read_loop_stream:
  "read_loop up ms eol io net = (ms', eol', io', net') \<Longrightarrow> u_error net = None \<Longrightarrow>
   (\<exists>d. u_got io' = u_got io @ d \<and> chain_bytes ms = d @ chain_bytes ms' \<and> u_count io' + length d = u_count io)
   \<and> uc_flags (ucbs net' up) = uc_flags (ucbs net up) \<and> u_error net' \<in> {None, Some EFAULT}"
proof (induction ms arbitrary: eol io net)
  case (Cons m ms)
  let ?len = "min (m_len m) (u_count io)"
  obtain io1 net1 where mo: "move_out (take ?len (mbytes m)) io net = (io1, net1)"
    by (cases "move_out (take ?len (mbytes m)) io net")
  note mv = move_out_cases [OF mo Cons.prems(2)]
  consider (stop) "\<not> (u_count io > 0 \<and> \<not> eol)" | (fault) "u_count io > 0" "\<not> eol" "u_error net1 \<noteq> None"
    | (part) "u_count io > 0" "\<not> eol" "u_error net1 = None" "?len \<noteq> m_len m"
    | (whole) "u_count io > 0" "\<not> eol" "u_error net1 = None" "?len = m_len m" by blast
  then show ?case
  proof cases
    case stop
    then show ?thesis using Cons.prems by auto
  next
    case fault
    then show ?thesis using Cons.prems mo mv by auto
  next
    case part
    then have lt: "u_count io < m_len m" "?len = u_count io" by auto
    have d: "mbytes (m\<lparr>m_off := m_off m + u_count io, m_len := m_len m - u_count io\<rparr>) = drop (u_count io) (mbytes m)"
      using mbytes_drop [of "u_count io" m] lt by (simp add: mbytes_def)
    have n1: "net1 = net" "u_count io1 = 0" "u_got io1 = u_got io @ take (u_count io) (mbytes m)"
      using mv part(3) lt by auto
    have "ms' = m\<lparr>m_off := m_off m + u_count io, m_len := m_len m - u_count io\<rparr> # ms" "io' = io1" "net' = net"
      using Cons.prems part mo lt n1 by (simp_all add: Let_def)
    then show ?thesis
      using n1 d lt Cons.prems(2) by (intro conjI exI [of _ "take (u_count io) (mbytes m)"]) simp_all
  next
    case whole
    let ?net = "upd_ucb up (\<lambda>u. u\<lparr>uc_rsize := uchar (int (uc_rsize u) - 1)\<rparr>) (snd (m_free (m # ms) net))"
    have n1: "net1 = net" "u_count io1 = u_count io - m_len m" "u_got io1 = u_got io @ mbytes m"
      using mv whole(3,4) by (auto simp: min_def split: if_splits)
    then have "read_loop up ms (m_act m \<noteq> 0) io1 ?net = (ms', eol', io', net')"
      using Cons.prems whole mo by (simp add: Let_def split_beta)
    from Cons.IH [OF this] obtain d where "u_got io' = u_got io1 @ d" "chain_bytes ms = d @ chain_bytes ms'"
      "u_count io' + length d = u_count io1" "uc_flags (ucbs net' up) = uc_flags (ucbs net up)"
      "u_error net' \<in> {None, Some EFAULT}"
      using Cons.prems(2) by auto
    then show ?thesis using n1 whole by (intro conjI exI [of _ "mbytes m @ d"]) auto
  qed
qed auto

lemma read_loop_progress:
  assumes "read_loop up (m # ms) False io net = (ms', eol', io', net')" "u_error net = None"
    and "m_len m > 0" "u_count io > 0" "u_error net' = None"
  shows "u_count io' < u_count io"
proof -
  let ?len = "min (m_len m) (u_count io)"
  obtain io1 net1 where mo: "move_out (take ?len (mbytes m)) io net = (io1, net1)"
    by (cases "move_out (take ?len (mbytes m)) io net")
  have n1: "net1 = net" "u_count io1 = u_count io - ?len"
    using move_out_cases [OF mo assms(2)] assms mo by (auto split: if_splits)
  show ?thesis
  proof (cases "?len = m_len m")
    case True
    then have "read_loop up ms (m_act m \<noteq> 0) io1 (upd_ucb up (\<lambda>u. u\<lparr>uc_rsize := uchar (int (uc_rsize u) - 1)\<rparr>)
        (snd (m_free (m # ms) net))) = (ms', eol', io', net')"
      using assms mo n1 by (simp add: Let_def split_beta)
    from read_loop_stream [OF this] have "u_count io' \<le> u_count io1" using assms(2) by auto
    then show ?thesis using n1 assms(3,4) True by simp
  next
    case False
    then have "?len = u_count io" "u_count io \<noteq> m_len m" by auto
    then show ?thesis using assms mo n1 False by (simp add: Let_def)
  qed
qed

lemma has_or [simp]: "has (x AND NOT f) f = False"
  unfolding has_def by (auto intro: bit_word_eqI simp: bit_simps)

text \<open>One round of tcp_read on data that is there, unlocked.\<close>

definition round_ok :: "nat \<Rightarrow> uio \<Rightarrow> net \<Rightarrow> uio \<Rightarrow> net \<Rightarrow> bool" where
  "round_ok up io net io' net' \<longleftrightarrow>
    (\<exists>d. u_got io' = u_got io @ d \<and> u_count io' + length d = u_count io
       \<and> chain_bytes (uc_rbuf (ucbs net up)) = d @ chain_bytes (uc_rbuf (ucbs net' up))
       \<and> ((u_error net' = None \<and> d \<noteq> []) \<or> u_error net' = Some EFAULT))
    \<and> \<not> has (uc_flags (ucbs net' up)) ULOCK"

lemma read_round_ok:
  assumes "uc_rbuf (ucbs net up) = m # ms" "m_len m > 0" "u_count io > 0" "u_error net = None"
    and "\<not> has (uc_flags (ucbs net up)) ULOCK"
    and "read_round up io env net = (ok, eol, io', env', net')"
  shows "ok \<and> env' = env \<and> round_ok up io net io' net'"
proof -
  let ?net = "upd_ucb up (\<lambda>u. u\<lparr>uc_flags := uc_flags u OR ULOCK\<rparr>) net"
  obtain ms' eol' io1 net1 where r: "read_loop up (m # ms) False io ?net = (ms', eol', io1, net1)"
    by (rule prod_cases4)
  have e: "u_error ?net = None" using assms(4) by simp
  have l: "lock_rbuf up env net = (True, env, ?net)" using assms(5) by (subst lock_rbuf.simps) simp
  have res: "ok" "env' = env" "io' = io1"
    "net' = unlock_rbuf up (upd_ucb up (uc_rbuf_update (\<lambda>_. ms')) net1)"
    using assms(1,6) l r by (simp_all add: read_round_def)
  have buf: "uc_rbuf (ucbs net' up) = ms'" "u_error net' = u_error net1" "\<not> has (uc_flags (ucbs net' up)) ULOCK"
    by (simp_all add: res)
  from read_loop_stream [OF r e] obtain d where d: "u_got io1 = u_got io @ d"
    "chain_bytes (m # ms) = d @ chain_bytes ms'" "u_count io1 + length d = u_count io"
    "u_error net1 = None \<or> u_error net1 = Some EFAULT" by auto
  have "u_error net1 = None \<Longrightarrow> d \<noteq> []"
    using read_loop_progress [OF r e assms(2,3)] d(3) by auto
  then show ?thesis
    using d buf assms(1) res(1-3) unfolding round_ok_def by (intro conjI exI [of _ d]) auto
qed

text \<open>C12: A read of a TCP connection takes bytes off the front of the received stream and loses
  none.  If the connection is established and there is data, tcp_read returns without sleeping:
  what it hands to the user together with what it leaves on the receive queue is what was on the
  queue, in order; the count goes down by the number of bytes handed over; it hands over at least
  one byte or reports a fault (and then the queue keeps every byte not copied); and the receive
  buffer is left unlocked.\<close>

theorem tcp_read_stream:
  assumes "uc_tcb (ucbs net up) = Some tp" "syn_acked (tcbs net tp)" "u_error net = None"
    and "\<not> has (uc_flags (ucbs net up)) ULOCK"
    and "uc_rbuf (ucbs net up) = m # ms" "m_len m > 0" "u_count io > 0"
    and "tcp_read up io env net = (oc, io', env', net')"
  shows "oc = Returned \<and> env' = env
    \<and> (\<exists>d. u_got io' = u_got io @ d \<and> u_count io' + length d = u_count io
         \<and> chain_bytes (uc_rbuf (ucbs net up)) = d @ chain_bytes (uc_rbuf (ucbs net' up))
         \<and> ((u_error net' = None \<and> d \<noteq> []) \<or> u_error net' = Some EFAULT))
    \<and> \<not> has (uc_flags (ucbs net' up)) ULOCK"
proof -
  obtain ok eol io1 env1 net1 where r: "read_round up io env net = (ok, eol, io1, env1, net1)"
    by (metis prod_cases5)
  note ro = read_round_ok [OF assms(5-7,3,4) r]
  have "tcp_read_loop up tp (u_count io) False io env net = (oc, io', env', net')"
    using assms(1,2,8) by (simp add: tcp_read_def)
  then have loop: "(if u_count io1 \<noteq> u_count io then (Returned, io1, env, net1)
      else tcp_read_loop up tp (u_count io) eol io1 env net1) = (oc, io', env', net')"
    using assms(3,5,7) r ro by (subst (asm) tcp_read_loop.simps) simp
  have "(oc, io', env', net') = (Returned, io1, env, net1)"
  proof (cases "u_count io1 = u_count io")
    case True
    then obtain e where "u_error net1 = Some e" using ro by (auto simp: round_ok_def)
    then show ?thesis using loop True by (subst (asm) tcp_read_loop.simps) simp
  next
    case False
    then show ?thesis using loop by simp
  qed
  then show ?thesis using ro by (simp add: round_ok_def)
qed

text \<open>A connection with the bytes 20, 21, 22 and then 30 to read, of which two are asked for.\<close>

definition sample_mbuf :: mbuf where
  "sample_mbuf = mbuf0\<lparr>m_id := 6, m_off := 20, m_len := 3, m_dat := word_of_nat\<rparr>"

definition sample_conn :: net where
  "sample_conn = net0\<lparr>tcbs := (tcbs net0)(4 := tcb0\<lparr>syn_acked := True, t_state := ESTAB\<rparr>),
     ucbs := (ucbs net0)(5 := ucb0\<lparr>uc_tcb := Some 4,
        uc_rbuf := [sample_mbuf, mbuf0\<lparr>m_id := 7, m_off := 30, m_len := 1, m_dat := word_of_nat\<rparr>]\<rparr>)\<rparr>"

definition sample_io :: uio where
  "sample_io = \<lparr>u_count = 2, u_in = [1, 2], u_got = [], u_valid = 2\<rparr>"

theorem tcp_read_stream_witness:
  "\<exists>io' net'. tcp_read 5 sample_io [] sample_conn = (Returned, io', [], net') \<and> u_got io' = [20, 21]"
proof -
  obtain oc io' env' net' where t: "tcp_read 5 sample_io [] sample_conn = (oc, io', env', net')"
    by (metis prod_cases4)
  have "oc = Returned \<and> env' = []
    \<and> (\<exists>d. u_got io' = u_got sample_io @ d \<and> u_count io' + length d = u_count sample_io
         \<and> chain_bytes (uc_rbuf (ucbs sample_conn 5)) = d @ chain_bytes (uc_rbuf (ucbs net' 5))
         \<and> ((u_error net' = None \<and> d \<noteq> []) \<or> u_error net' = Some EFAULT))
    \<and> \<not> has (uc_flags (ucbs net' 5)) ULOCK"
    by (rule tcp_read_stream [OF _ _ _ _ _ _ _ t, where m = sample_mbuf])
      (simp_all add: sample_conn_def sample_io_def tcb0_def ucb0_def net0_def mbuf0_def sample_mbuf_def has_def net_simps)
  moreover have "u_got (fst (snd (tcp_read 5 sample_io [] sample_conn))) = [20, 21]" by code_simp
  ultimately show ?thesis using t by auto
qed

section \<open>Allocation and the user\<close>

text \<open>What the buffer routines never touch, even when m_expand steals from the queues.\<close>

definition user_same :: "net \<Rightarrow> net \<Rightarrow> bool" where
  "user_same net net' \<longleftrightarrow> ucbs net' = ucbs net \<and> u_error net' = u_error net \<and> n_work net' = n_work net
     \<and> nwork net' = nwork net"

lemma user_same_refl [simp]: "user_same net net" by (simp add: user_same_def)

lemma user_same_trans [trans]: "user_same a b \<Longrightarrow> user_same b c \<Longrightarrow> user_same a c"
  by (simp add: user_same_def)

named_theorems user_intros

lemma user_same_basic [user_intros]:
  "user_same net (snd (m_free ms net))" "user_same net (snd (m_freem ms net))"
  "user_same net (stat f net)" "user_same net (upd_tcb t g net)" "user_same net (panic s net)"
  "user_same net (ip_freef fp net)" "user_same net (snd (pg_alloc_n n net))"
  by (auto simp: user_same_def m_free_def m_freem_def panic_def stat_def upd_tcb_def ip_freef_def
      pg_alloc_n_def Let_def split: sum.splits prod.splits)

lemma free_frags_same: "user_same net (snd (free_frags fs net))"
proof (induction fs arbitrary: net)
  case (Cons f fs)
  then show ?case
    using user_same_trans [OF user_same_basic(2) Cons] by (simp add: split_beta)
qed simp

lemma free_segs_same: "user_same net (snd (free_segs fs net))"
proof (induction fs arbitrary: net)
  case (Cons f fs)
  then show ?case
    using user_same_trans [OF user_same_basic(2) Cons] by (simp add: split_beta)
qed simp

lemma steal_ipqs_same: "user_same net (snd (steal_ipqs fps need net))"
proof (induction fps arbitrary: need net)
  case (Cons fp fps)
  show ?case
    using user_same_trans [OF user_same_trans [OF free_frags_same user_same_basic(6)] Cons]
    by (simp add: split_beta Let_def)
qed simp

lemma steal_unack_same: "user_same net (snd (steal_unack tps need net))"
proof (induction tps arbitrary: need net)
  case (Cons tp tps)
  show ?case
    using user_same_trans [OF user_same_trans [OF free_segs_same user_same_basic(4)] Cons]
    by (simp add: split_beta Let_def)
qed simp

lemma expand_singly_same: "user_same net (snd (expand_singly k needp need net))"
proof (induction k needp need net rule: expand_singly.induct)
  case (2 k needp need net)
  let ?r = "if needp = 1 then (False, net) else pg_alloc_n 1 net"
  have r: "user_same net (snd ?r)" by (simp add: user_same_basic)
  have "user_same (snd ?r) (snd (steal_unack tps (fst (steal_ipqs fps need (snd ?r)))
      (snd (steal_ipqs fps need (snd ?r)))))" for tps fps
    by (rule user_same_trans [OF steal_ipqs_same steal_unack_same])
  then have s: "user_same net (snd (steal_unack tps (fst (steal_ipqs fps need (snd ?r)))
      (snd (steal_ipqs fps need (snd ?r)))))" for tps fps
    by (rule user_same_trans [OF r])
  show ?case
    using 2 [of ?r "fst ?r" "snd ?r"] user_same_trans [OF r] s
    by (auto simp: split_beta Let_def simp del: snd_conv)
qed simp

lemma m_expand_same: "user_same net (snd (m_expand net))"
proof (cases "pg_alloc_n ((n_hiwat (pool net) - n_bufs (pool net)) div 8) net")
  case (Pair ok net1)
  then have "user_same net net1" using user_same_basic(7) by (metis snd_conv)
  then show ?thesis
    using user_same_trans [OF _ expand_singly_same] Pair by (simp add: m_expand_def Let_def split_beta)
qed

lemma user_same_pool: "user_same net (net\<lparr>pool := p\<rparr>)"
  by (simp add: user_same_def)

lemma m_get_same:
  assumes "m_get t net = (g, net')"
  shows "user_same net net'"
proof -
  let ?n1 = "net\<lparr>pool := (pool net)\<lparr>n_bufs := n_bufs (pool net) - 1\<rparr>\<rparr>"
  let ?n0 = "?n1\<lparr>pool := (pool ?n1)\<lparr>n_bufs := 0\<rparr>\<rparr>"
  obtain ok net2 where g: "(if n_bufs (pool ?n1) \<le> 0 then if t = 0 then (False, ?n0) else m_expand ?n0
       else (True, ?n1)) = (ok, net2)" by (rule prod.exhaust)
  have "user_same net ?n1" "user_same net ?n0" by (simp_all add: user_same_def)
  then have s: "user_same net net2"
    using g user_same_trans [OF _ m_expand_same [of ?n0], of net] by (auto split: if_splits)
  have "net' = stat (\<lambda>s. s\<lparr>m_drops := m_drops s + 1\<rparr>) net2 \<or> (\<exists>e. net' = panic e net2) \<or> (\<exists>p. net' = net2\<lparr>pool := p\<rparr>)"
    using assms unfolding m_get_def Let_def g by (auto split: if_splits sum.splits)
  then show ?thesis
    using user_same_trans [OF s] user_same_basic(3,5) user_same_pool by blast
qed

section \<open>Writing\<close>

lemma move_in_ok:
  assumes "move_in n io m net = (m', io', net')" "u_error net = None" "u_error net' = None"
    and "m_off m = MHEAD" "u_valid io \<le> length (u_in io)" "n \<le> MLEN"
  shows "net' = net \<and> u_count io' = u_count io - n \<and> u_in io' = drop n (u_in io)
    \<and> u_valid io' \<le> length (u_in io') \<and> sbuf_ok [m'\<lparr>m_len := n\<rparr>]
    \<and> mbytes (m'\<lparr>m_len := n\<rparr>) = take n (u_in io)"
proof (cases "n = 0")
  case True
  then show ?thesis using assms by (auto simp: move_in_def mbytes_def net_simps)
next
  case False
  then have r: "n \<le> u_valid io" "net' = net" "m' = blit (\<lambda>i. u_in io ! i) 0 (m_off m) n m"
    "io' = io\<lparr>u_in := drop n (u_in io), u_count := u_count io - n, u_valid := u_valid io - n\<rparr>"
    using assms(1-3) by (auto simp: move_in_def split: if_splits)
  have "mbytes (m'\<lparr>m_len := n\<rparr>) = take n (u_in io)"
    using r assms(5) by (intro nth_equalityI) (auto simp: mbytes_def blit_def)
  then show ?thesis using r assms by (auto simp: blit_def net_simps)
qed

lemma move_in_error:
  "move_in n io m net = (m', io', net') \<Longrightarrow> u_error net' \<noteq> None \<Longrightarrow> u_error net = None \<Longrightarrow>
   net' = set_error EFAULT net"
  by (auto simp: move_in_def split: if_splits)

text \<open>The result of filling: an error, without a change of the work list, or the user's bytes.\<close>

definition filled :: "nat \<Rightarrow> mbuf list \<Rightarrow> uio \<Rightarrow> net \<Rightarrow> mbuf list option \<Rightarrow> uio \<Rightarrow> net \<Rightarrow> bool" where
  "filled b ch io net r io' net' \<longleftrightarrow>
    ucbs net' = ucbs net \<and> n_work net' = n_work net \<and> nwork net' = nwork net \<and>
    (case r of
       None \<Rightarrow> u_error net' \<noteq> None
     | Some ch' \<Rightarrow> u_error net' = None \<and> u_count io' = u_count io - MLEN * b \<and>
         (\<exists>ms. ch' = ch @ ms \<and> sbuf_ok ms \<and> chain_bytes ms = take (u_count io - u_count io') (u_in io)
            \<and> (u_count io > u_count io' \<longrightarrow> ms \<noteq> [])))"

lemma fill_chain_filled:
  "fill_chain b ch io net = (r, io', net') \<Longrightarrow> u_error net = None \<Longrightarrow> u_valid io \<le> length (u_in io) \<Longrightarrow>
   filled b ch io net r io' net'"
proof (induction b arbitrary: ch io net)
  case 0
  then show ?case by (auto simp: filled_def)
next
  case (Suc b)
  show ?case
  proof (cases "u_count io > 0")
    case False
    then show ?thesis using Suc.prems by (auto simp: filled_def)
  next
    case True
    obtain got net1 where g: "m_get 1 net = (got, net1)" by (rule prod.exhaust)
    note same = m_get_same [OF g]
    let ?n = "min MLEN (u_count io)" and ?m = "(the got)\<lparr>m_off := MHEAD\<rparr>"
    obtain m io1 net2 where mi: "move_in ?n io ?m net1 = (m, io1, net2)" by (rule prod_cases3)
    have e1: "u_error net1 = None" using same Suc.prems(2) by (simp add: user_same_def)
    note step = Suc.prems(1) [unfolded fill_chain.simps if_P [OF True] Let_def g prod.case mi]
    consider (none) "got = None" | (fault) "got \<noteq> None" "u_error net2 \<noteq> None"
      | (ok) "got \<noteq> None" "u_error net2 = None" by blast
    then show ?thesis
    proof cases
      case none
      then show ?thesis using step same by (auto simp: filled_def user_same_def set_error_def)
    next
      case fault
      then have "r = None" "net' = snd (m_freem ch net2)" using step by auto
      moreover have "net2 = set_error EFAULT net1" using move_in_error [OF mi fault(2) e1] .
      moreover have "user_same net2 (snd (m_freem ch net2))" by (rule user_same_basic(2))
      ultimately show ?thesis using same by (auto simp: filled_def user_same_def set_error_def)
    next
      case ok
      note in1 = move_in_ok [OF mi e1 ok(2)]
      have in2: "net2 = net1" "u_count io1 = u_count io - ?n" "u_in io1 = drop ?n (u_in io)"
        "u_valid io1 \<le> length (u_in io1)" "sbuf_ok [m\<lparr>m_len := ?n\<rparr>]" "mbytes (m\<lparr>m_len := ?n\<rparr>) = take ?n (u_in io)"
        using in1 Suc.prems(3) by auto
      have "fill_chain b (ch @ [m\<lparr>m_len := ?n\<rparr>]) io1 net2 = (r, io', net')" using step ok by simp
      from Suc.IH [OF this] have f: "filled b (ch @ [m\<lparr>m_len := ?n\<rparr>]) io1 net1 r io' net'"
        using in2 e1 by simp
      show ?thesis
      proof (cases r)
        case None
        then show ?thesis using f same by (auto simp: filled_def user_same_def)
      next
        case (Some ch')
        then obtain ms where ms: "ch' = (ch @ [m\<lparr>m_len := ?n\<rparr>]) @ ms" "sbuf_ok ms"
          "chain_bytes ms = take (u_count io1 - u_count io') (u_in io1)" "u_count io' = u_count io1 - MLEN * b"
          using f by (auto simp: filled_def)
        let ?ms = "m\<lparr>m_len := ?n\<rparr> # ms"
        have c: "u_count io' = u_count io - MLEN * Suc b" using ms(4) in2(2) by simp
        have "chain_bytes ?ms = take ?n (u_in io) @ take (u_count io - ?n - u_count io') (drop ?n (u_in io))"
          using ms(3) in2 by simp
        also have "\<dots> = take (?n + (u_count io - ?n - u_count io')) (u_in io)"
          by (simp only: take_add)
        also have "?n + (u_count io - ?n - u_count io') = u_count io - u_count io'"
          using ms(4) in2(2) by simp
        finally show ?thesis
          using f same in2(5) ms(1,2) c Some
          by (auto simp: filled_def user_same_def intro!: exI [of _ ?ms])
      qed
    qed
  qed
qed

text \<open>C13: A write of a TCP connection becomes one request with exactly the user's bytes.  On an
  established connection with no new status, room in the work table and a count that fits in the
  buffers the connection may still use, tcp_write returns without sleeping, and either reports an
  error and leaves the work list alone, or asks for nothing more and has put a single send request
  on the list, whose chain holds the bytes of the user in order, every buffer well formed as the
  send queue requires.\<close>

theorem tcp_write_request:
  assumes "uc_tcb (ucbs net up) = Some tp" "syn_acked (tcbs net tp)" "u_error net = None"
    and "uc_state (ucbs net up) = 0" "length (n_work net) < nwork net" "u_count io > 0"
    and "u_count io \<le> MLEN * (uc_snd (ucbs net up) - uc_ssize (ucbs net up))"
    and "u_valid io \<le> length (u_in io)"
    and "tcp_write up io env net = (oc, io', env', net')"
  shows "oc = Returned \<and> env' = env \<and>
    ((u_error net' \<noteq> None \<and> n_work net' = n_work net)
     \<or> (u_error net' = None \<and> u_count io' = 0 \<and>
        (\<exists>ms. n_work net' = n_work net @ [\<lparr>w_type = IUSEND, w_stype = 0, w_tcb = tp, w_dat = MbufDat ms\<rparr>]
          \<and> chain_bytes ms = take (u_count io) (u_in io) \<and> sbuf_ok ms)))"
proof -
  let ?b = "uc_snd (ucbs net up) - uc_ssize (ucbs net up)"
  have b: "nat (int (uc_snd (ucbs net up)) - int (uc_ssize (ucbs net up))) = ?b" by simp
  obtain r io1 net1 where f: "fill_chain ?b [] io net = (r, io1, net1)" by (rule prod_cases3)
  note fl = fill_chain_filled [OF f assms(3,8)]
  have loop: "tcp_write_loop up tp io env net = (oc, io', env', net')"
    using assms(1,2,9) by (simp add: tcp_write_def)
  show ?thesis
  proof (cases r)
    case None
    then have "(oc, io', env', net') = (Returned, io1, env, net1)"
      using loop assms(3,4,6) f by (subst (asm) tcp_write_loop.simps) (simp add: b)
    then show ?thesis using fl None by (simp add: filled_def)
  next
    case (Some ms)
    then have ms: "u_count io1 = 0" "ms \<noteq> []" "sbuf_ok ms" "chain_bytes ms = take (u_count io) (u_in io)"
      "u_error net1 = None" "n_work net1 = n_work net" "nwork net1 = nwork net"
      using fl assms(6,7) by (auto simp: filled_def)
    have "w_request IUSEND tp (chain_dat ms) env net1
        = (True, env, w_alloc IUSEND 0 tp (MbufDat ms) net1)"
      using ms assms(5) by (subst w_request.simps) (simp add: chain_dat_def)
    then have "(oc, io', env', net') = (Returned, io1, env, w_alloc IUSEND 0 tp (MbufDat ms) net1)"
      using loop assms(3,4,6) f Some ms(1) by (subst (asm) tcp_write_loop.simps) (simp add: b)
    then show ?thesis
      using ms assms(5) by (simp add: w_alloc_def wakeup_def emit_def)
  qed
qed

theorem tcp_write_request_witness:
  "\<exists>io' net' ms. tcp_write 5 sample_io [] sample_conn = (Returned, io', [], net') \<and> u_count io' = 0
     \<and> n_work net' = [\<lparr>w_type = IUSEND, w_stype = 0, w_tcb = 4, w_dat = MbufDat ms\<rparr>]
     \<and> chain_bytes ms = [1, 2]"
proof -
  let ?io = sample_io
  obtain oc io' env' net' where t: "tcp_write 5 ?io [] sample_conn = (oc, io', env', net')"
    by (rule prod_cases4)
  have "oc = Returned \<and> env' = [] \<and>
    ((u_error net' \<noteq> None \<and> n_work net' = n_work sample_conn)
     \<or> (u_error net' = None \<and> u_count io' = 0 \<and>
        (\<exists>ms. n_work net' = n_work sample_conn @ [\<lparr>w_type = IUSEND, w_stype = 0, w_tcb = 4, w_dat = MbufDat ms\<rparr>]
          \<and> chain_bytes ms = take (u_count ?io) (u_in ?io) \<and> sbuf_ok ms)))"
    by (rule tcp_write_request [OF _ _ _ _ _ _ _ _ t])
      (simp_all add: sample_conn_def sample_io_def tcb0_def ucb0_def net0_def net_simps)
  moreover have "Option.is_none (u_error (snd (snd (snd (tcp_write 5 ?io [] sample_conn)))))" by code_simp
  moreover have "n_work sample_conn = []" "take (u_count ?io) (u_in ?io) = [1, 2]"
    by (simp_all add: sample_conn_def sample_io_def net0_def)
  ultimately show ?thesis using t by (auto simp: Option.is_none_def)
qed

section \<open>A failed open\<close>


lemma m_insert_lowat: "n_lowat (m_insert i p) = n_lowat p"
  by (simp add: m_insert_def Let_def upd_page_def)

lemma m_release_lowat: "m_release m p = Inr p' \<Longrightarrow> n_lowat p' = n_lowat p"
  unfolding m_release_def Let_def by (auto simp: m_insert_lowat upd_page_def set_mem_def split: if_splits)

lemma m_free_lowat [simp]: "n_lowat (pool (snd (m_free ms net))) = n_lowat (pool net)"
  by (cases ms) (auto simp: m_free_def panic_def dest: m_release_lowat split: sum.splits)

lemma m_free_ucbs_list [simp]: "n_ucbs (snd (m_free ms net)) = n_ucbs net"
  by (auto simp: m_free_def panic_def split: sum.splits)







end
