(* ===== verification/Ncp_Buf.thy ===== *)
theory Ncp_Buf
  imports Net_Prelude
begin

text \<open>
  The message buffers of the NCP kernel of the PDP-11 (src/jnc_bbn-files/ncpkernel/kerbuf.c), in
  the configuration of h/param.70, the one that compiles the network: NETWORK, NCP, RMI and BUFMOD.

  A message is a ring of small buffers linked by b_qlink; the handle of a message is the address
  of its last buffer, or 0.  The headers are the static array bufhead[kb_hiwat][net_b_per_k_b];
  the model gives the header [i][k] the address 8 i + k + 1.  Their data are 64 byte blocks of
  system buffers outside of the kernel space; fbbyte and sbbyte read and write a byte of them, at
  64 b_loc plus the offset.  The free list is a ring as well.  The store is explicit: a record of
  the headers, the bytes and the words of net_b.

  An operation may sleep, for a system buffer (getsblk) or for a small one (getbuf).  Its argument
  \<open>env\<close> lists what the other processes do to the state during each of the sleeps to come;
  when it is used up the process sleeps for ever.  The results that are no return are values:
  \<open>Asleep\<close>, \<open>Panic\<close>, \<open>Hang\<close> for a loop that follows a broken ring for ever and \<open>Wild\<close> for
  a store through a null pointer or outside of a buffer.  Wakeups only make sleepers run, so they
  leave no trace in the state; the interrupt priority is not part of it either.
\<close>

section \<open>Results\<close>

datatype stop = Asleep | Panic | Hang | Wild

definition kbind :: "stop + 'a \<Rightarrow> ('a \<Rightarrow> stop + 'b) \<Rightarrow> stop + 'b" where
  "kbind r f = (case r of Inl e \<Rightarrow> Inl e | Inr x \<Rightarrow> f x)"

lemma kbind_simps [simp]: "kbind (Inl e) f = Inl e" "kbind (Inr x) f = f x"
  by (simp_all add: kbind_def)

lemma kbind_cong [fundef_cong]: "r = r' \<Longrightarrow> (\<And>x. r' = Inr x \<Longrightarrow> f x = g x) \<Longrightarrow> kbind r f = kbind r' g"
  by (simp add: kbind_def split: sum.split)

lemma kbind_eq_Inr: "kbind r f = Inr y \<longleftrightarrow> (\<exists>x. r = Inr x \<and> f x = Inr y)"
  by (cases r) auto

section \<open>State\<close>

definition net_b_size :: int where "net_b_size = 64"
definition net_b_per_k_b :: nat where "net_b_per_k_b = 8"
definition kb_hiwat :: nat where "kb_hiwat = 4"
definition rbuf_max :: int where "rbuf_max = 80"
definition b_eom :: byte where "b_eom = 0x80"
definition b_memberof :: byte where "b_memberof = 0xF"
definition b_raw :: byte where "b_raw = 0x40"
definition proc_need :: u16 where "proc_need = 1"

lemmas nb_consts [simp] = net_b_size_def net_b_per_k_b_def kb_hiwat_def rbuf_max_def b_eom_def
  b_memberof_def b_raw_def proc_need_def

record netbuf =
  b_qlink :: nat
  b_len :: int
  b_resv :: byte
  b_loc :: nat

text \<open>nb_kb holds the numbers of the system buffers, nb_freect their b_freect and sb_paddr
  their b_paddr; sb_free is the list sbfreel of dmr/bio.c.\<close>

record nk =
  nb_buf :: "nat \<Rightarrow> netbuf"
  nb_mem :: "nat \<Rightarrow> byte"
  nb_hyster :: int
  nb_alloc :: int
  nb_kb :: "nat \<Rightarrow> nat option"
  nb_freect :: "nat \<Rightarrow> int"
  nb_cntfree :: int
  nb_freel :: nat
  nb_need :: u16
  nb_rbuf :: int
  sb_free :: "nat list"
  sb_paddr :: "nat \<Rightarrow> nat"

type_synonym 'a env = "('a nk_scheme \<Rightarrow> 'a nk_scheme) list"

definition schar :: "int \<Rightarrow> int" where
  "schar n = (n + 128) mod 256 - 128"

definition fbbyte :: "nat \<Rightarrow> nat \<Rightarrow> 'a nk_scheme \<Rightarrow> byte" where
  "fbbyte loc d s = nb_mem s (64 * loc + d)"

definition sbbyte :: "nat \<Rightarrow> nat \<Rightarrow> byte \<Rightarrow> 'a nk_scheme \<Rightarrow> 'a nk_scheme" where
  "sbbyte loc d c s = s\<lparr>nb_mem := (nb_mem s)(64 * loc + d := c)\<rparr>"

definition upd_nb :: "nat \<Rightarrow> (netbuf \<Rightarrow> netbuf) \<Rightarrow> 'a nk_scheme \<Rightarrow> 'a nk_scheme" where
  "upd_nb p f s = s\<lparr>nb_buf := (nb_buf s)(p := f (nb_buf s p))\<rparr>"

abbreviation qlink :: "'a nk_scheme \<Rightarrow> nat \<Rightarrow> nat" where
  "qlink s p \<equiv> b_qlink (nb_buf s p)"

definition set_qlink :: "nat \<Rightarrow> nat \<Rightarrow> 'a nk_scheme \<Rightarrow> 'a nk_scheme" where
  "set_qlink p q = upd_nb p (\<lambda>b. b\<lparr>b_qlink := q\<rparr>)"

definition set_len :: "nat \<Rightarrow> int \<Rightarrow> 'a nk_scheme \<Rightarrow> 'a nk_scheme" where
  "set_len p n = upd_nb p (\<lambda>b. b\<lparr>b_len := schar n\<rparr>)"

definition set_resv :: "nat \<Rightarrow> byte \<Rightarrow> 'a nk_scheme \<Rightarrow> 'a nk_scheme" where
  "set_resv p v = upd_nb p (\<lambda>b. b\<lparr>b_resv := v\<rparr>)"

section \<open>Rings\<close>

definition linkbuf :: "nat \<Rightarrow> nat \<Rightarrow> 'a nk_scheme \<Rightarrow> nat \<times> 'a nk_scheme" where
  "linkbuf bufp msgp s = (let msgp = (if msgp = 0 then bufp else msgp) in
     if bufp \<noteq> 0 then
       (let s = set_qlink bufp (qlink s msgp) s;
            s = set_qlink msgp bufp s
        in (bufp, s))
     else (msgp, s))"

definition ifreebuf :: "nat \<Rightarrow> 'a nk_scheme \<Rightarrow> nat \<times> 'a nk_scheme" where
  "ifreebuf prevbp s = (let p = qlink s prevbp;
       s = set_qlink prevbp (qlink s p) s;
       s = set_qlink p p s
     in (if prevbp = p then 0 else prevbp, s))"

section \<open>Freeing\<close>

text \<open>freeb returns the count of free buffers in the system buffer; the counter of a missing
  system buffer would be at address 0.\<close>

definition freeb :: "nat \<Rightarrow> 'a nk_scheme \<Rightarrow> stop + int \<times> 'a nk_scheme" where
  "freeb bufp s = (let v = b_resv (nb_buf s bufp) AND b_memberof;
       s = set_resv bufp v s;
       (fl, s) = linkbuf bufp (nb_freel s) s;
       s = s\<lparr>nb_freel := fl, nb_need := 0\<rparr>
     in case nb_kb s (unat v) of
          None \<Rightarrow> Inl Wild
        | Some b \<Rightarrow> Inr (nb_freect s b + 1, s\<lparr>nb_freect := (nb_freect s)(b := nb_freect s b + 1)\<rparr>))"

text \<open>The inner loop of freekb: \<open>found\<close> buffers of the system buffer \<open>i\<close> are still to be found
  on the free list.\<close>

primrec freekb_take :: "nat \<Rightarrow> nat \<Rightarrow> nat \<Rightarrow> nat \<Rightarrow> nat \<Rightarrow> 'a nk_scheme \<Rightarrow> stop + nat \<times> 'a nk_scheme" where
  "freekb_take 0 i found prev fl s = (if found = 0 then Inr (fl, s) else Inl Hang)"
| "freekb_take (Suc f) i found prev fl s = (if found = 0 then Inr (fl, s) else
     let bufp = qlink s prev in
     if b_resv (nb_buf s bufp) AND b_memberof = of_nat i then
       (let s = set_len bufp 0 s;
            (fl, s) = ifreebuf prev s
        in freekb_take f i (found - 1) prev fl s)
     else freekb_take f i found bufp fl s)"

definition ring_fuel :: nat where "ring_fuel = 40"

primrec freekb_slots :: "nat list \<Rightarrow> 'a nk_scheme \<Rightarrow> stop + 'a nk_scheme" where
  "freekb_slots [] s = Inr s"
| "freekb_slots (i # is) s = (case nb_kb s i of
     None \<Rightarrow> freekb_slots is s
   | Some b \<Rightarrow>
       if nb_freect s b = int net_b_per_k_b then
         kbind (freekb_take ring_fuel i net_b_per_k_b (nb_freel s) 0 s) (\<lambda>(fl, s).
           freekb_slots is (s\<lparr>nb_freel := fl, sb_free := sb_free s @ [b], nb_kb := (nb_kb s)(i := None),
             nb_alloc := nb_alloc s - 1, nb_cntfree := nb_cntfree s - int net_b_per_k_b\<rparr>))
       else freekb_slots is s)"

definition freekb :: "'a nk_scheme \<Rightarrow> stop + 'a nk_scheme" where
  "freekb s = (if nb_cntfree s > nb_hyster s * int net_b_per_k_b then freekb_slots [0..<kb_hiwat] s
     else Inr s)"

definition freebuf :: "nat \<Rightarrow> 'a nk_scheme \<Rightarrow> stop + nat \<times> 'a nk_scheme" where
  "freebuf prevbp s = (let freedbuf = qlink s prevbp;
       v = b_resv (nb_buf s freedbuf);
       s = (if v AND b_raw \<noteq> 0 then (set_resv freedbuf (v AND NOT b_raw) s)\<lparr>nb_rbuf := nb_rbuf s - 1\<rparr> else s);
       (prevbp, s) = ifreebuf prevbp s
     in kbind (freeb freedbuf s) (\<lambda>(_, s).
        kbind (freekb (s\<lparr>nb_cntfree := nb_cntfree s + 1\<rparr>)) (\<lambda>s.
        Inr (prevbp, s))))"

primrec freemsg_loop :: "nat \<Rightarrow> nat \<Rightarrow> 'a nk_scheme \<Rightarrow> stop + 'a nk_scheme" where
  "freemsg_loop 0 msg s = (if msg = 0 then Inr s else Inl Hang)"
| "freemsg_loop (Suc f) msg s = (if msg = 0 then Inr s
     else kbind (freebuf msg s) (\<lambda>(msg, s). freemsg_loop f msg s))"

definition freemsg :: "nat \<Rightarrow> 'a nk_scheme \<Rightarrow> stop + 'a nk_scheme" where
  "freemsg = freemsg_loop ring_fuel"

section \<open>Getting buffers\<close>

text \<open>gblk of dmr/bio.c for NODEV and sbfreel: the buffers of this list are never written to a
  device, so the first one is taken.\<close>

primrec getsblk :: "'a env \<Rightarrow> 'a nk_scheme \<Rightarrow> stop + nat \<times> 'a env \<times> 'a nk_scheme" where
  "getsblk [] s = (case sb_free s of [] \<Rightarrow> Inl Asleep | b # bs \<Rightarrow> Inr (b, [], s\<lparr>sb_free := bs\<rparr>))"
| "getsblk (e # es) s = (case sb_free s of [] \<Rightarrow> getsblk es (e s)
     | b # bs \<Rightarrow> Inr (b, e # es, s\<lparr>sb_free := bs\<rparr>))"

definition bufhead :: "nat \<Rightarrow> nat \<Rightarrow> nat" where
  "bufhead i k = 8 * i + k + 1"

primrec carve :: "nat \<Rightarrow> nat \<Rightarrow> nat list \<Rightarrow> 'a nk_scheme \<Rightarrow> stop + 'a nk_scheme" where
  "carve i b [] s = Inr s"
| "carve i b (k # ks) s =
     kbind (freeb (bufhead i k) (upd_nb (bufhead i k) (\<lambda>h. h\<lparr>b_resv := of_nat i, b_loc := sb_paddr s b + k\<rparr>) s))
       (\<lambda>(_, s). carve i b ks s)"

definition getkb :: "'a env \<Rightarrow> 'a nk_scheme \<Rightarrow> stop + int \<times> 'a env \<times> 'a nk_scheme" where
  "getkb env s = (if nb_alloc s \<ge> int kb_hiwat then Inr (0, env, s) else
     kbind (getsblk env (s\<lparr>nb_alloc := nb_alloc s + 1\<rparr>)) (\<lambda>(b, env, s).
     case List.find (\<lambda>i. nb_kb s i = None) [0..<kb_hiwat] of
       None \<Rightarrow> Inl Panic
     | Some i \<Rightarrow>
         kbind (carve i b [0..<net_b_per_k_b]
             (s\<lparr>nb_freect := (nb_freect s)(b := 0), nb_kb := (nb_kb s)(i := Some b)\<rparr>)) (\<lambda>s.
         Inr (-1, env, s\<lparr>nb_cntfree := nb_cntfree s + int net_b_per_k_b\<rparr>))))"

lemma getsblk_env: "getsblk env s = Inr (b, env', s') \<Longrightarrow> length env' \<le> length env"
  by (induction env arbitrary: s) (fastforce split: list.splits)+

lemma getkb_env: "getkb env s = Inr (r, env', s') \<Longrightarrow> length env' \<le> length env"
  by (auto simp: getkb_def kbind_eq_Inr dest!: getsblk_env split: if_splits option.splits)

text \<open>The end of getbuf: the first buffer of the free list.\<close>

definition take_free :: "'a nk_scheme \<Rightarrow> stop + nat \<times> 'a nk_scheme" where
  "take_free s = (let freedbuf = qlink s (nb_freel s) in
     case nb_kb s (unat (b_resv (nb_buf s freedbuf))) of
       None \<Rightarrow> Inl Wild
     | Some b \<Rightarrow>
         let s = s\<lparr>nb_freect := (nb_freect s)(b := nb_freect s b - 1), nb_cntfree := nb_cntfree s - 1\<rparr>;
             (fl, s) = ifreebuf (nb_freel s) s;
             s = s\<lparr>nb_freel := fl\<rparr>;
             s = set_len freedbuf 0 s;
             s = set_qlink freedbuf freedbuf s
         in Inr (freedbuf, s))"

function getbuf :: "'a env \<Rightarrow> 'a nk_scheme \<Rightarrow> stop + nat \<times> 'a env \<times> 'a nk_scheme" where
  "getbuf env s =
     (if nb_freel s = 0 then
        kbind (getkb env s) (\<lambda>(r, env, s).
          if nb_freel s \<noteq> 0 then kbind (take_free s) (\<lambda>(b, s). Inr (b, env, s))
          else (let s = s\<lparr>nb_need := nb_need s OR proc_need\<rparr> in
            case env of [] \<Rightarrow> Inl Asleep | e # env \<Rightarrow> getbuf env (e s)))
      else kbind (take_free s) (\<lambda>(b, s). Inr (b, env, s)))"
  by pat_completeness auto
termination getbuf
  by (relation "measure (\<lambda>(env, s). length env)") (auto dest: getkb_env)

declare getbuf.simps [simp del]

text \<open>rawbuf is in rawtable.c.\<close>

definition rawbuf :: "'a env \<Rightarrow> 'a nk_scheme \<Rightarrow> stop + nat \<times> 'a env \<times> 'a nk_scheme" where
  "rawbuf env s = (if nb_rbuf s \<ge> rbuf_max then Inr (0, env, s) else
     kbind (getbuf env s) (\<lambda>(bp, env, s).
       if bp = 0 then Inr (0, env, s)
       else if nb_rbuf s \<ge> rbuf_max then kbind (freebuf bp s) (\<lambda>(_, s). Inr (0, env, s))
       else Inr (bp, env, set_resv bp (b_resv (nb_buf s bp) OR b_raw) (s\<lparr>nb_rbuf := nb_rbuf s + 1\<rparr>))))"

definition appendb :: "nat \<Rightarrow> 'a env \<Rightarrow> 'a nk_scheme \<Rightarrow> stop + nat \<times> 'a env \<times> 'a nk_scheme" where
  "appendb msg env s =
     (if msg \<noteq> 0 \<and> b_len (nb_buf s msg) < net_b_size then Inr (msg, env, s)
      else kbind (if msg \<noteq> 0 \<and> b_resv (nb_buf s msg) AND b_raw \<noteq> 0 then rawbuf env s else getbuf env s)
        (\<lambda>(bp, env, s). if bp = 0 then Inr (0, env, s)
           else (let (p, s) = linkbuf bp msg s in Inr (p, env, s))))"

section \<open>Moving data\<close>

text \<open>The bytes of a vector are the values the data procedure (fubyte, fkbyte) returns.\<close>

primrec sb_bytes :: "nat \<Rightarrow> nat \<Rightarrow> byte list \<Rightarrow> 'a nk_scheme \<Rightarrow> 'a nk_scheme" where
  "sb_bytes loc d [] s = s"
| "sb_bytes loc d (c # cs) s = sb_bytes loc (Suc d) cs (sbbyte loc d c s)"

function vectomsg :: "byte list \<Rightarrow> nat \<Rightarrow> 'a env \<Rightarrow> 'a nk_scheme \<Rightarrow> stop + nat \<times> nat \<times> 'a env \<times> 'a nk_scheme" where
  "vectomsg vec msg env s =
     (if vec = [] then Inr (0, msg, env, s) else
      kbind (appendb msg env s) (\<lambda>(p, env, s).
        if p = 0 then Inr (length vec, msg, env, s) else
        let d = b_len (nb_buf s p); size = min (net_b_size - d mod 256) (int (length vec)) in
        if size \<le> 0 then Inl Wild else
        let s = set_len p (d + size) s;
            s = sb_bytes (b_loc (nb_buf s p)) (nat d) (take (nat size) vec) s
        in vectomsg (drop (nat size) vec) p env s))"
  by pat_completeness auto
termination vectomsg
  by (relation "measure (\<lambda>(vec, msg, env, s). length vec)") auto

declare vectomsg.simps [simp del]

text \<open>The shift of the data left in a buffer, from offset \<open>d\<close> to \<open>off\<close>, \<open>n\<close> bytes.\<close>

primrec sb_shift :: "nat \<Rightarrow> nat \<Rightarrow> nat \<Rightarrow> nat \<Rightarrow> 'a nk_scheme \<Rightarrow> 'a nk_scheme" where
  "sb_shift loc off d 0 s = s"
| "sb_shift loc off d (Suc n) s = sb_shift loc (Suc off) (Suc d) n (sbbyte loc off (fbbyte loc d s) s)"

definition fb_bytes :: "nat \<Rightarrow> nat \<Rightarrow> nat \<Rightarrow> 'a nk_scheme \<Rightarrow> byte list" where
  "fb_bytes loc d n s = map (\<lambda>i. fbbyte loc i s) [d..<d + n]"

text \<open>bytesout returns the count left, the message handle and the bytes delivered.\<close>

primrec bytesout_loop :: "nat \<Rightarrow> nat \<Rightarrow> nat \<Rightarrow> byte list \<Rightarrow> 'a nk_scheme
    \<Rightarrow> stop + nat \<times> nat \<times> byte list \<times> 'a nk_scheme" where
  "bytesout_loop 0 msg count out s = (if msg = 0 \<or> count = 0 then Inr (count, msg, out, s) else Inl Hang)"
| "bytesout_loop (Suc f) msg count out s = (if msg = 0 \<or> count = 0 then Inr (count, msg, out, s) else
     let p = qlink s msg;
         len = b_len (nb_buf s p);
         loc = b_loc (nb_buf s p);
         size = min count (nat (len mod 256));
         out = out @ fb_bytes loc 0 size s;
         rest = len - int size
     in if rest > 0 then bytesout_loop f msg (count - size) out (sb_shift loc 0 size (nat rest) (set_len p rest s))
        else kbind (freebuf msg s) (\<lambda>(msg, s). bytesout_loop f msg (count - size) out s))"

definition bytesout :: "nat \<Rightarrow> nat \<Rightarrow> 'a nk_scheme \<Rightarrow> stop + nat \<times> nat \<times> byte list \<times> 'a nk_scheme" where
  "bytesout msg count s = bytesout_loop ring_fuel msg count [] s"

text \<open>The copy of the first buffer of the second message behind the data of the last buffer of
  the first one.\<close>

primrec cat_copy :: "nat \<Rightarrow> nat \<Rightarrow> nat \<Rightarrow> nat \<Rightarrow> 'a nk_scheme \<Rightarrow> 'a nk_scheme" where
  "cat_copy msg1 q p 0 s = s"
| "cat_copy msg1 q p (Suc n) s =
     (let len = b_len (nb_buf s msg1);
          s = sbbyte (b_loc (nb_buf s msg1)) (nat len) (fbbyte (b_loc (nb_buf s q)) p s) (set_len msg1 (len + 1) s)
      in cat_copy msg1 q (Suc p) n s)"

primrec cat_loop :: "nat \<Rightarrow> nat \<Rightarrow> nat \<Rightarrow> 'a nk_scheme \<Rightarrow> stop + nat \<times> 'a nk_scheme" where
  "cat_loop 0 msg1 msg2 s = Inl Hang"
| "cat_loop (Suc f) msg1 msg2 s =
     (let q = qlink s msg2; len = b_len (nb_buf s q) in
      if net_b_size - b_len (nb_buf s msg1) \<ge> len then
        if len < 0 \<or> b_len (nb_buf s msg1) < 0 then Inl Wild else
        kbind (freebuf msg2 (cat_copy msg1 q 0 (nat len) s)) (\<lambda>(msg2, s).
          if msg2 = 0 then Inr (msg1, s) else cat_loop f msg1 msg2 s)
      else
        (let p = qlink s msg1;
             s = set_qlink msg1 (qlink s msg2) s;
             s = set_qlink msg2 p s
         in Inr (msg2, s)))"

definition catmsg :: "nat \<Rightarrow> nat \<Rightarrow> 'a nk_scheme \<Rightarrow> stop + nat \<times> 'a nk_scheme" where
  "catmsg msg1 msg2 s = (if msg2 = 0 then Inr (msg1, s) else if msg1 = 0 then Inr (msg2, s)
     else cat_loop ring_fuel msg1 msg2 s)"

text \<open>ncp_bfrdwn clears the words of net_b and gives every system buffer back.\<close>

primrec bfrdwn_slots :: "nat list \<Rightarrow> 'a nk_scheme \<Rightarrow> 'a nk_scheme" where
  "bfrdwn_slots [] s = s"
| "bfrdwn_slots (i # is) s = bfrdwn_slots is (case nb_kb s i of None \<Rightarrow> s
     | Some b \<Rightarrow> s\<lparr>sb_free := sb_free s @ [b], nb_kb := (nb_kb s)(i := None)\<rparr>)"

definition ncp_bfrdwn :: "'a nk_scheme \<Rightarrow> 'a nk_scheme" where
  "ncp_bfrdwn s = bfrdwn_slots [0..<kb_hiwat]
     (s\<lparr>nb_freel := 0, nb_need := 0, nb_alloc := 0, nb_cntfree := 0\<rparr>)"

end
