(* ===== verification/Ncp_Ring.thy ===== *)
theory Ncp_Ring
  imports Ncp_Buf
begin

text \<open>
  Rings of message buffers as lists.  \<open>ring nx p xs\<close> says that following the links \<open>nx\<close> from the
  handle \<open>p\<close>, the last buffer, visits the buffers \<open>xs\<close> in order and returns to \<open>p\<close>.  Linking,
  unlinking, rotating and joining rings are appending, dropping the first, rotating and
  concatenating lists.
\<close>

definition ring :: "(nat \<Rightarrow> nat) \<Rightarrow> nat \<Rightarrow> nat list \<Rightarrow> bool" where
  "ring nx p xs \<longleftrightarrow> xs \<noteq> [] \<and> p = last xs \<and> distinct xs \<and> 0 \<notin> set xs \<and> map nx xs = rotate1 xs"

definition msgq :: "(nat \<Rightarrow> nat) \<Rightarrow> nat \<Rightarrow> nat list \<Rightarrow> bool" where
  "msgq nx p xs \<longleftrightarrow> (if xs = [] then p = 0 else ring nx p xs)"

lemma ring_nonempty: "ring nx p xs \<Longrightarrow> xs \<noteq> []"
  by (simp add: ring_def)

lemma ring_set_last: "ring nx p xs \<Longrightarrow> p \<in> set xs"
  by (simp add: ring_def)

lemma ring_nonzero: "ring nx p xs \<Longrightarrow> p \<noteq> 0"
  by (metis ring_def ring_set_last)

lemma msgq_empty [simp]: "msgq nx p [] \<longleftrightarrow> p = 0"
  by (simp add: msgq_def)

lemma msgq_zero [simp]: "msgq nx 0 xs \<longleftrightarrow> xs = []"
  using ring_nonzero by (auto simp: msgq_def)

lemma msgq_ring: "p \<noteq> 0 \<Longrightarrow> msgq nx p xs \<longleftrightarrow> ring nx p xs"
  by (auto simp: msgq_def ring_def)

lemma ring_msgq: "ring nx p xs \<Longrightarrow> msgq nx p xs"
  by (simp add: msgq_def ring_def)

lemma msgq_distinct: "msgq nx p xs \<Longrightarrow> distinct xs \<and> 0 \<notin> set xs"
  by (auto simp: msgq_def ring_def split: if_splits)

lemma ring_last: "ring nx p (xs @ [q]) \<Longrightarrow> p = q"
  by (simp add: ring_def)

lemma ring_hd: "ring nx p (x # xs) \<Longrightarrow> nx p = x"
proof -
  assume r: "ring nx p (x # xs)"
  have p: "p = last (x # xs)" and m: "map nx (x # xs) = xs @ [x]" using r by (simp_all add: ring_def)
  have "nx p = last (map nx (x # xs))" unfolding p by (rule last_map [symmetric]) simp
  then show ?thesis unfolding m by simp
qed

lemma ring_frame:
  assumes "\<And>x. x \<in> set xs \<Longrightarrow> nx' x = nx x"
  shows "ring nx' p xs = ring nx p xs"
proof -
  have e: "map nx' xs = map nx xs" using assms by simp
  show ?thesis unfolding ring_def e ..
qed

lemma msgq_frame:
  assumes "\<And>x. x \<in> set xs \<Longrightarrow> nx' x = nx x"
  shows "msgq nx' p xs = msgq nx p xs"
proof -
  have "ring nx' p xs = ring nx p xs" by (rule ring_frame) (rule assms)
  then show ?thesis by (simp add: msgq_def)
qed

lemma ring_single: "ring nx p [x] \<longleftrightarrow> p = x \<and> x \<noteq> 0 \<and> nx x = x"
  by (auto simp: ring_def)

lemma ring_two: "ring nx p (x # xs @ [q]) \<longleftrightarrow>
    p = q \<and> distinct (x # xs @ [q]) \<and> 0 \<notin> set (x # xs @ [q]) \<and> nx q = x \<and> map nx (x # xs) = xs @ [q]"
  by (auto simp: ring_def)

lemma ring_unlink:
  assumes "ring nx p (x # xs)"
  shows "if xs = [] then p = x \<and> nx x = x
    else p \<noteq> x \<and> ring (nx(p := nx x, x := x)) p xs"
proof (cases xs rule: rev_cases)
  case (snoc ys q)
  note r = assms [unfolded snoc ring_two]
  show ?thesis
  proof (cases ys)
    case Nil
    then show ?thesis using r snoc by (auto simp: ring_single)
  next
    case (Cons y ys')
    have "map (nx(p := nx x, x := x)) (y # ys') = map nx (y # ys')" using r Cons by auto
    then show ?thesis using r snoc Cons by (auto simp: ring_two)
  qed
qed (use assms in \<open>auto simp: ring_single\<close>)

lemma ring_rotate: "ring nx p (x # xs) \<Longrightarrow> ring nx x (xs @ [x])"
proof (cases xs rule: rev_cases)
  case (snoc ys q)
  assume "ring nx p (x # xs)"
  note r = this [unfolded snoc ring_two]
  show ?thesis
  proof (cases ys)
    case (Cons y ys')
    then show ?thesis using r snoc ring_two [of nx x y "ys' @ [q]" x] by auto
  qed (use r snoc in \<open>auto simp: ring_def\<close>)
qed (auto simp: ring_single)

lemma ring_link:
  assumes "ring nx p xs" "b \<notin> set xs" "b \<noteq> 0"
  shows "ring (nx(b := nx p, p := b)) b (xs @ [b])"
proof (cases xs rule: rev_cases)
  case (snoc ys q)
  show ?thesis
  proof (cases ys)
    case Nil
    then show ?thesis using assms snoc by (auto simp: ring_def)
  next
    case (Cons y ys')
    have r: "p = q" "nx q = y" "map nx (y # ys') = ys' @ [q]" "distinct (y # ys' @ [q])"
      "0 \<notin> set (y # ys' @ [q])"
      using assms(1) by (auto simp: snoc Cons ring_two)
    have "map (nx(b := nx p, p := b)) (y # ys') = map nx (y # ys')" using r assms(2) snoc Cons by auto
    then show ?thesis using r assms snoc Cons ring_two [of "nx(b := nx p, p := b)" b y "ys' @ [q]" b] by auto
  qed
qed (use assms(1) in \<open>simp add: ring_def\<close>)

lemma ring_cat:
  assumes "ring nx p xs" "ring nx q ys" "set xs \<inter> set ys = {}"
  shows "ring (nx(p := nx q, q := nx p)) q (xs @ ys)"
proof -
  obtain us where x: "xs = us @ [p]" using assms(1) by (metis append_butlast_last_id ring_def)
  obtain vs where y: "ys = vs @ [q]" using assms(2) by (metis append_butlast_last_id ring_def)
  have pq: "p \<noteq> q" "p \<notin> set us" "p \<notin> set vs" "q \<notin> set us" "q \<notin> set vs"
    using assms by (auto simp: x y ring_def)
  let ?nx = "nx(p := nx q, q := nx p)"
  have u: "map ?nx us = map nx us" and v: "map ?nx vs = map nx vs" using pq by auto
  have mx: "map nx us @ [nx p] = rotate1 (us @ [p])" and my: "map nx vs @ [nx q] = rotate1 (vs @ [q])"
    using assms by (auto simp: x y ring_def)
  have "map ?nx (xs @ ys) = map nx us @ nx q # map nx vs @ [nx p]" using u v pq by (simp add: x y)
  also have "\<dots> = rotate1 (xs @ ys)"
    using mx my by (cases us; cases vs) (auto simp: x y)
  finally show ?thesis using assms by (auto simp: ring_def)
qed

lemma ring_hd_in: "ring nx p xs \<Longrightarrow> nx p = hd xs"
  by (cases xs) (simp_all add: ring_hd, simp add: ring_def)

section \<open>The primitives on rings\<close>

lemma set_qlink_simps [simp]:
  "nk.more (set_qlink p q s) = nk.more s" "nb_mem (set_qlink p q s) = nb_mem s"
  "nb_hyster (set_qlink p q s) = nb_hyster s" "nb_alloc (set_qlink p q s) = nb_alloc s"
  "nb_kb (set_qlink p q s) = nb_kb s" "nb_freect (set_qlink p q s) = nb_freect s"
  "nb_cntfree (set_qlink p q s) = nb_cntfree s" "nb_freel (set_qlink p q s) = nb_freel s"
  "nb_rbuf (set_qlink p q s) = nb_rbuf s" "sb_free (set_qlink p q s) = sb_free s"
  "sb_paddr (set_qlink p q s) = sb_paddr s" "fbbyte loc d (set_qlink p q s) = fbbyte loc d s"
  "nb_need (set_qlink p q s) = nb_need s"
  by (simp_all add: set_qlink_def upd_nb_def fbbyte_def)

lemma set_qlink_buf: "nb_buf (set_qlink p q s) x = (if x = p then (nb_buf s x)\<lparr>b_qlink := q\<rparr> else nb_buf s x)"
  by (simp add: set_qlink_def upd_nb_def)

lemma qlink_set_qlink: "qlink (set_qlink p q s) = (qlink s)(p := q)"
  by (rule ext) (simp add: set_qlink_buf)

text \<open>What two states that differ in links only have in common.\<close>

definition linked :: "nat set \<Rightarrow> 'a nk_scheme \<Rightarrow> 'a nk_scheme \<Rightarrow> bool" where
  "linked A s s' \<longleftrightarrow> s' = s\<lparr>nb_buf := nb_buf s'\<rparr> \<and>
     (\<forall>x. b_len (nb_buf s' x) = b_len (nb_buf s x) \<and> b_resv (nb_buf s' x) = b_resv (nb_buf s x) \<and>
       b_loc (nb_buf s' x) = b_loc (nb_buf s x)) \<and>
     (\<forall>x. x \<notin> A \<longrightarrow> nb_buf s' x = nb_buf s x)"

lemma linked_set_qlink: "p \<in> A \<Longrightarrow> linked A s (set_qlink p q s)"
  by (auto simp: linked_def set_qlink_def upd_nb_def)

lemma linked_refl: "linked A s s"
  by (simp add: linked_def)

lemma linked_trans: "linked A s s' \<Longrightarrow> linked A s' s'' \<Longrightarrow> linked A s s''"
  unfolding linked_def by (metis (no_types, lifting) nk.surjective nk.update_convs(1))

lemma linked_mono: "linked A s s' \<Longrightarrow> A \<subseteq> B \<Longrightarrow> linked B s s'"
  by (auto simp: linked_def)

lemma linkedD:
  assumes "linked A s s'"
  shows "nk.more s' = nk.more s" "nb_mem s' = nb_mem s" "nb_hyster s' = nb_hyster s" "nb_alloc s' = nb_alloc s"
    "nb_kb s' = nb_kb s" "nb_freect s' = nb_freect s" "nb_cntfree s' = nb_cntfree s" "nb_freel s' = nb_freel s"
    "nb_rbuf s' = nb_rbuf s" "sb_free s' = sb_free s" "sb_paddr s' = sb_paddr s" "nb_need s' = nb_need s"
    "b_len (nb_buf s' x) = b_len (nb_buf s x)" "b_resv (nb_buf s' x) = b_resv (nb_buf s x)"
    "b_loc (nb_buf s' x) = b_loc (nb_buf s x)" "x \<notin> A \<Longrightarrow> nb_buf s' x = nb_buf s x"
proof -
  have e: "s' = s\<lparr>nb_buf := nb_buf s'\<rparr>" using assms by (simp add: linked_def)
  show "nk.more s' = nk.more s" by (subst e) simp
  show "nb_mem s' = nb_mem s" by (subst e) simp
  show "nb_hyster s' = nb_hyster s" by (subst e) simp
  show "nb_alloc s' = nb_alloc s" by (subst e) simp
  show "nb_kb s' = nb_kb s" by (subst e) simp
  show "nb_freect s' = nb_freect s" by (subst e) simp
  show "nb_cntfree s' = nb_cntfree s" by (subst e) simp
  show "nb_freel s' = nb_freel s" by (subst e) simp
  show "nb_rbuf s' = nb_rbuf s" by (subst e) simp
  show "sb_free s' = sb_free s" by (subst e) simp
  show "sb_paddr s' = sb_paddr s" by (subst e) simp
  show "nb_need s' = nb_need s" by (subst e) simp
qed (use assms in \<open>auto simp: linked_def\<close>)

lemma ifreebuf_ring:
  assumes "ring (qlink s) p (x # xs)"
  shows "\<exists>s'. ifreebuf p s = (if xs = [] then 0 else p, s') \<and> linked (set (x # xs)) s s' \<and>
    qlink s' x = x \<and> msgq (qlink s') (if xs = [] then 0 else p) xs"
proof -
  have nx: "qlink s p = x" by (rule ring_hd [OF assms])
  have p: "p \<in> set (x # xs)" by (rule ring_set_last [OF assms])
  note u = ring_unlink [OF assms]
  have b: "nb_buf (set_qlink x x (set_qlink p (qlink s x) s)) y =
      (if y = x then (nb_buf s x)\<lparr>b_qlink := x\<rparr> else if y = p then (nb_buf s p)\<lparr>b_qlink := qlink s x\<rparr> else nb_buf s y)" for y
    by (auto simp: set_qlink_buf)
  have l: "linked (set (x # xs)) s (set_qlink x x (set_qlink p (qlink s x) s))"
    by (rule linked_trans [OF linked_set_qlink linked_set_qlink]) (use p in auto)
  show ?thesis
  proof (cases "xs = []")
    case True
    then show ?thesis using u l nx by (auto simp: ifreebuf_def Let_def set_qlink_buf)
  next
    case False
    have "ifreebuf p s = (p, set_qlink x x (set_qlink p (qlink s x) s))"
      using u False nx by (simp add: ifreebuf_def Let_def)
    moreover have "ring (qlink (set_qlink x x (set_qlink p (qlink s x) s))) p xs"
      using u False by (simp add: qlink_set_qlink)
    ultimately show ?thesis using l False by (auto simp: set_qlink_buf ring_msgq)
  qed
qed

lemma linkbuf_ring:
  assumes "msgq (qlink s) p xs" "b \<notin> set xs" "b \<noteq> 0"
  shows "\<exists>s'. linkbuf b p s = (b, s') \<and> linked (insert b (set xs)) s s' \<and> ring (qlink s') b (xs @ [b])"
proof (cases "p = 0")
  case True
  have "linkbuf b p s = (b, set_qlink b b (set_qlink b (qlink s b) s))"
    using True assms by (simp add: linkbuf_def Let_def)
  moreover have "linked (insert b (set xs)) s (set_qlink b b (set_qlink b (qlink s b) s))"
    by (rule linked_trans [OF linked_set_qlink linked_set_qlink]) auto
  ultimately show ?thesis using True assms by (auto simp: ring_single set_qlink_buf)
next
  case False
  then have r: "ring (qlink s) p xs" using assms by (simp add: msgq_ring)
  have "linkbuf b p s = (b, set_qlink p b (set_qlink b (qlink s p) s))"
    using False assms by (simp add: linkbuf_def Let_def)
  moreover have "linked (insert b (set xs)) s (set_qlink p b (set_qlink b (qlink s p) s))"
    by (rule linked_trans [OF linked_set_qlink linked_set_qlink]) (use ring_set_last [OF r] in auto)
  moreover have "qlink (set_qlink p b (set_qlink b (qlink s p) s)) = (qlink s)(b := qlink s p, p := b)"
    by (simp only: qlink_set_qlink)
  ultimately show ?thesis using ring_link [OF r assms(2,3)] by auto
qed

end
