(* ===== verification/Ncp_Pool.thy ===== *)
theory Ncp_Pool
  imports Ncp_Ring
begin

text \<open>
  The buffer allocator of the NCP kernel: every buffer is on the free list, or belongs to one
  holder.  \<open>pool s fs\<close> says that the free list is the ring \<open>fs\<close>, that its headers belong to
  allocated system buffers and that the free counts of the system buffers are right.  What the
  other users of the buffers hold is a parameter (locale \<open>buffer_users\<close>), so that the effect of
  an operation that sleeps can be stated: the others may do anything to the free list and to their
  own buffers.
\<close>

section \<open>Headers and system buffers\<close>

definition kb_of :: "nat \<Rightarrow> nat" where "kb_of x = (x - 1) div 8"
definition kb_ix :: "nat \<Rightarrow> nat" where "kb_ix x = (x - 1) mod 8"

lemma kb_of_bufhead [simp]: "k < 8 \<Longrightarrow> kb_of (bufhead i k) = i" "k < 8 \<Longrightarrow> kb_ix (bufhead i k) = k"
  by (simp_all add: kb_of_def kb_ix_def bufhead_def)

lemma bufhead_pos [simp]: "0 < bufhead i k"
  by (simp add: bufhead_def)

lemma kb_of_eq: "{x. x \<noteq> 0 \<and> kb_of x = i} = bufhead i ` {..<8}"
proof -
  have h: "x = bufhead (kb_of x) (kb_ix x)" "kb_ix x < 8" if "x \<noteq> 0" for x
    using that by (simp_all add: kb_of_def kb_ix_def bufhead_def)
  have "x \<in> bufhead i ` {..<8}" if "x \<noteq> 0" "kb_of x = i" for x
    using h [OF that(1)] that(2) by auto
  moreover have "x \<noteq> 0 \<and> kb_of x = i" if "x \<in> bufhead i ` {..<8}" for x
    using that by auto
  ultimately show ?thesis by blast
qed

lemma card_kb_of: "card {x. x \<noteq> 0 \<and> kb_of x = i} = 8"
  unfolding kb_of_eq by (subst card_image) (auto simp: inj_on_def bufhead_def)

lemma finite_kb_of: "finite {x. x \<noteq> 0 \<and> kb_of x = i}"
  unfolding kb_of_eq by simp

lemma kb_of_lt: "x \<noteq> 0 \<Longrightarrow> kb_of x < 4 \<longleftrightarrow> x \<le> 32"
  by (auto simp: kb_of_def)

definition good :: "'a nk_scheme \<Rightarrow> nat \<Rightarrow> bool" where
  "good s x \<longleftrightarrow> x \<noteq> 0 \<and> kb_of x < kb_hiwat \<and> unat (b_resv (nb_buf s x) AND b_memberof) = kb_of x \<and>
     (case nb_kb s (kb_of x) of None \<Rightarrow> False | Some b \<Rightarrow> b_loc (nb_buf s x) = sb_paddr s b + kb_ix x)"

definition sysbufs :: "'a nk_scheme \<Rightarrow> bool" where
  "sysbufs s \<longleftrightarrow> (\<forall>b b'. b \<noteq> b' \<longrightarrow> sb_paddr s b + 8 \<le> sb_paddr s b' \<or> sb_paddr s b' + 8 \<le> sb_paddr s b) \<and>
     (\<forall>i<4. \<forall>j<4. \<forall>b. nb_kb s i = Some b \<and> nb_kb s j = Some b \<longrightarrow> i = j) \<and> distinct (sb_free s) \<and>
     (\<forall>i<4. \<forall>b. nb_kb s i = Some b \<longrightarrow> b \<notin> set (sb_free s))"

definition pool :: "'a nk_scheme \<Rightarrow> nat list \<Rightarrow> bool" where
  "pool s fs \<longleftrightarrow> msgq (qlink s) (nb_freel s) fs \<and>
     (\<forall>x\<in>set fs. good s x \<and> b_resv (nb_buf s x) = of_nat (kb_of x)) \<and>
     (\<forall>i<4. \<forall>b. nb_kb s i = Some b \<longrightarrow> nb_freect s b = int (card {x\<in>set fs. kb_of x = i})) \<and> sysbufs s"

lemma poolD: "pool s fs \<Longrightarrow> msgq (qlink s) (nb_freel s) fs" "pool s fs \<Longrightarrow> x \<in> set fs \<Longrightarrow> good s x"
  "pool s fs \<Longrightarrow> x \<in> set fs \<Longrightarrow> b_resv (nb_buf s x) = of_nat (kb_of x)" "pool s fs \<Longrightarrow> sysbufs s"
  "pool s fs \<Longrightarrow> distinct fs"
  "pool s fs \<Longrightarrow> i < 4 \<Longrightarrow> nb_kb s i = Some b \<Longrightarrow> nb_freect s b = int (card {x\<in>set fs. kb_of x = i})"
  by (auto simp: pool_def dest: msgq_distinct)

lemma good_kb: "good s x \<Longrightarrow> \<exists>b. nb_kb s (kb_of x) = Some b \<and> b_loc (nb_buf s x) = sb_paddr s b + kb_ix x"
  by (auto simp: good_def split: option.splits)

lemma good_lt: "good s x \<Longrightarrow> kb_of x < 4" "good s x \<Longrightarrow> x \<noteq> 0" "good s x \<Longrightarrow> x \<le> 32"
  by (auto simp: good_def kb_of_lt)

text \<open>The data of two buffers never overlap.\<close>

lemma good_loc:
  assumes "sysbufs s" "good s x" "good s y" "b_loc (nb_buf s x) = b_loc (nb_buf s y)"
  shows "x = y"
proof -
  obtain b b' where b: "nb_kb s (kb_of x) = Some b" "b_loc (nb_buf s x) = sb_paddr s b + kb_ix x"
    and b': "nb_kb s (kb_of y) = Some b'" "b_loc (nb_buf s y) = sb_paddr s b' + kb_ix y"
    using good_kb [OF assms(2)] good_kb [OF assms(3)] by auto
  have k: "kb_ix x < 8" "kb_ix y < 8" by (simp_all add: kb_ix_def)
  have "b = b'"
  proof (rule ccontr)
    assume "b \<noteq> b'"
    then have "sb_paddr s b + 8 \<le> sb_paddr s b' \<or> sb_paddr s b' + 8 \<le> sb_paddr s b"
      using assms(1) by (simp add: sysbufs_def)
    then show False using k b b' assms(4) by linarith
  qed
  moreover have "kb_of x = kb_of y" using assms(1) b b' good_lt(1) [OF assms(2)] good_lt(1) [OF assms(3)] \<open>b = b'\<close>
    unfolding sysbufs_def by metis
  moreover have "kb_ix x = kb_ix y" using b b' assms(4) \<open>b = b'\<close> by simp
  ultimately show ?thesis using good_lt(2) [OF assms(2)] good_lt(2) [OF assms(3)]
    unfolding kb_of_def kb_ix_def by (metis One_nat_def Suc_pred div_mult_mod_eq neq0_conv)
qed

lemma linked_good: "linked A s s' \<Longrightarrow> good s' x = good s x"
  by (auto simp: good_def linkedD split: option.splits)

lemma linked_sysbufs: "linked A s s' \<Longrightarrow> sysbufs s' = sysbufs s"
  by (simp add: sysbufs_def linkedD)

text \<open>What the operations on the free list do not change.\<close>

definition quiet :: "nat set \<Rightarrow> 'a nk_scheme \<Rightarrow> 'a nk_scheme \<Rightarrow> bool" where
  "quiet A s s' \<longleftrightarrow> nk.more s' = nk.more s \<and> nb_mem s' = nb_mem s \<and> nb_kb s' = nb_kb s \<and> nb_alloc s' = nb_alloc s \<and>
     nb_hyster s' = nb_hyster s \<and> sb_free s' = sb_free s \<and> sb_paddr s' = sb_paddr s \<and>
     (\<forall>x. x \<notin> A \<longrightarrow> nb_buf s' x = nb_buf s x) \<and>
     (\<forall>x. b_loc (nb_buf s' x) = b_loc (nb_buf s x) \<and>
       b_resv (nb_buf s' x) AND b_memberof = b_resv (nb_buf s x) AND b_memberof)"

lemma quiet_refl: "quiet A s s"
  by (simp add: quiet_def)

lemma quiet_trans: "quiet A s s' \<Longrightarrow> quiet A s' s'' \<Longrightarrow> quiet A s s''"
  by (simp add: quiet_def)

lemma quiet_mono: "quiet A s s' \<Longrightarrow> A \<subseteq> B \<Longrightarrow> quiet B s s'"
  by (auto simp: quiet_def)

lemma quiet_linked: "linked A s s' \<Longrightarrow> quiet A s s'"
  by (auto simp: quiet_def linkedD)

lemma quiet_good: "quiet A s s' \<Longrightarrow> good s' x = good s x"
  by (auto simp: quiet_def good_def split: option.splits)

lemma quiet_sysbufs: "quiet A s s' \<Longrightarrow> sysbufs s' = sysbufs s"
  by (simp add: quiet_def sysbufs_def)

lemma quiet_buf: "quiet A s s' \<Longrightarrow> x \<notin> A \<Longrightarrow> nb_buf s' x = nb_buf s x"
  by (simp add: quiet_def)

lemma quiet_mem: "quiet A s s' \<Longrightarrow> fbbyte loc d s' = fbbyte loc d s"
  by (simp add: quiet_def fbbyte_def)

lemma quiet_set_len: "x \<in> A \<Longrightarrow> quiet A s (set_len x n s)"
  by (auto simp: quiet_def set_len_def upd_nb_def)

lemma quiet_set_qlink: "x \<in> A \<Longrightarrow> quiet A s (set_qlink x n s)"
  by (rule quiet_linked) (rule linked_set_qlink)

lemma quiet_set_resv:
  "x \<in> A \<Longrightarrow> v AND b_memberof = b_resv (nb_buf s x) AND b_memberof \<Longrightarrow> quiet A s (set_resv x v s)"
  by (auto simp: quiet_def set_resv_def upd_nb_def)

section \<open>Adding to and taking from the free list\<close>

lemma unat_small: "n < 4 \<Longrightarrow> unat (of_nat n :: byte) = n"
  by (simp add: unat_of_nat)

lemma word_memberof: "unat (v AND (0xF :: byte)) = n \<Longrightarrow> v AND 0xF = of_nat n"
  by (metis of_nat_unat ucast_id)

lemma freeb_pool:
  assumes p: "pool s fs" and g: "good s x" and x: "x \<notin> set fs"
  shows "\<exists>n s'. freeb x s = Inr (n, s') \<and> pool s' (fs @ [x]) \<and> quiet (insert x (set fs)) s s' \<and>
    nb_cntfree s' = nb_cntfree s \<and> nb_rbuf s' = nb_rbuf s"
proof -
  let ?v = "b_resv (nb_buf s x) AND 0xF"
  let ?s1 = "set_resv x ?v s"
  have r: "unat ?v = kb_of x" using g by (simp add: good_def)
  have q1: "quiet (insert x (set fs)) s ?s1" by (rule quiet_set_resv) (simp_all add: and.assoc)
  have buf1: "nb_buf ?s1 y = (if y = x then (nb_buf s x)\<lparr>b_resv := ?v\<rparr> else nb_buf s y)" for y
    by (simp add: set_resv_def upd_nb_def)
  have w1: "nb_freel ?s1 = nb_freel s" "nb_freect ?s1 = nb_freect s" "nb_cntfree ?s1 = nb_cntfree s"
    "nb_rbuf ?s1 = nb_rbuf s" by (simp_all add: set_resv_def upd_nb_def)
  have m1: "msgq (qlink ?s1) (nb_freel s) fs"
    using poolD(1) [OF p] msgq_frame [of fs "qlink ?s1" "qlink s"] by (auto simp: buf1)
  obtain s2 where s2: "linkbuf x (nb_freel s) ?s1 = (x, s2)" "linked (insert x (set fs)) ?s1 s2"
      "ring (qlink s2) x (fs @ [x])"
    using linkbuf_ring [OF m1 x] good_lt(2) [OF g] by blast
  let ?s3 = "s2\<lparr>nb_freel := x, nb_need := 0\<rparr>"
  obtain b where b: "nb_kb s (kb_of x) = Some b" using good_kb [OF g] by auto
  have kb3: "nb_kb ?s3 = nb_kb s" using s2(2) q1 by (simp add: linkedD quiet_def)
  let ?s4 = "?s3\<lparr>nb_freect := (nb_freect ?s3)(b := nb_freect ?s3 b + 1)\<rparr>"
  have f: "freeb x s = Inr (nb_freect ?s3 b + 1, ?s4)"
    using r s2(1) b kb3 by (simp add: freeb_def Let_def w1)
  have q: "quiet (insert x (set fs)) s ?s4"
    using quiet_trans [OF q1 quiet_linked [OF s2(2)]] by (simp add: quiet_def)
  have gs: "good ?s4 y = good s y" for y by (rule quiet_good [OF q])
  have res: "b_resv (nb_buf ?s4 y) = (if y = x then ?v else b_resv (nb_buf s y))" for y
    using linkedD(14) [OF s2(2)] buf1 by simp
  have fc: "nb_freect s2 = nb_freect s" using s2(2) by (simp add: linkedD w1)
  have pool: "pool ?s4 (fs @ [x])"
    unfolding pool_def
  proof (intro conjI ballI allI impI)
    show "msgq (qlink ?s4) (nb_freel ?s4) (fs @ [x])" using ring_msgq [OF s2(3)] by simp
    show "sysbufs ?s4" using quiet_sysbufs [OF q] poolD(4) [OF p] by simp
    show "good ?s4 y" if "y \<in> set (fs @ [x])" for y using that gs g poolD(2) [OF p] by auto
    show "b_resv (nb_buf ?s4 y) = of_nat (kb_of y)" if "y \<in> set (fs @ [x])" for y
      using that res poolD(3) [OF p] word_memberof [OF r] x by auto
    show "nb_freect ?s4 c = int (card {y \<in> set (fs @ [x]). kb_of y = i})" if i: "i < 4" "nb_kb ?s4 i = Some c" for i c
    proof -
      have c: "nb_kb s i = Some c" using i(2) kb3 by simp
      note old = poolD(6) [OF p i(1) c]
      show ?thesis
      proof (cases "i = kb_of x")
        case True
        then have "{y \<in> set (fs @ [x]). kb_of y = i} = insert x {y \<in> set fs. kb_of y = i}" by auto
        moreover have "c = b" using b c True by simp
        ultimately show ?thesis using old x by (simp add: fc)
      next
        case False
        then have e: "{y \<in> set (fs @ [x]). kb_of y = i} = {y \<in> set fs. kb_of y = i}" by auto
        have "sysbufs s" by (rule poolD(4) [OF p])
        then have "c \<noteq> b" using c b False i(1) good_lt(1) [OF g] unfolding sysbufs_def by metis
        then show ?thesis using old e by (simp add: fc)
      qed
    qed
  qed
  show ?thesis using f pool q s2(2) w1 by (auto simp: linkedD)
qed

lemma take_free_pool:
  assumes p: "pool s (x # fs)"
  shows "\<exists>s'. take_free s = Inr (x, s') \<and> pool s' fs \<and> quiet (set (x # fs)) s s' \<and>
    nb_cntfree s' = nb_cntfree s - 1 \<and> nb_rbuf s' = nb_rbuf s \<and> qlink s' x = x \<and> b_len (nb_buf s' x) = 0 \<and>
    b_resv (nb_buf s' x) = of_nat (kb_of x)"
proof -
  have r: "ring (qlink s) (nb_freel s) (x # fs)" using poolD(1) [OF p] by (simp add: msgq_def)
  have hd: "qlink s (nb_freel s) = x" by (rule ring_hd [OF r])
  have g: "good s x" and rs: "b_resv (nb_buf s x) = of_nat (kb_of x)" using poolD(2,3) [OF p] by auto
  obtain b where b: "nb_kb s (kb_of x) = Some b" using good_kb [OF g] by auto
  have u: "unat (b_resv (nb_buf s x)) = kb_of x" using rs good_lt(1) [OF g] by (simp add: unat_small)
  let ?s1 = "s\<lparr>nb_freect := (nb_freect s)(b := nb_freect s b - 1), nb_cntfree := nb_cntfree s - 1\<rparr>"
  have r1: "ring (qlink ?s1) (nb_freel s) (x # fs)" using r by simp
  obtain s2 where s2: "ifreebuf (nb_freel s) ?s1 = (if fs = [] then 0 else nb_freel s, s2)"
      "linked (set (x # fs)) ?s1 s2" "qlink s2 x = x" "msgq (qlink s2) (if fs = [] then 0 else nb_freel s) fs"
    using ifreebuf_ring [OF r1] by auto
  let ?s3 = "set_qlink x x (set_len x 0 (s2\<lparr>nb_freel := if fs = [] then 0 else nb_freel s\<rparr>))"
  have t: "take_free s = Inr (x, ?s3)"
    using hd u b s2(1) by (simp add: take_free_def Let_def)
  have q12: "quiet (set (x # fs)) s ?s1" by (simp add: quiet_def)
  have q2: "quiet (set (x # fs)) ?s1 s2" by (rule quiet_linked [OF s2(2)])
  have q3: "quiet (set (x # fs)) s2 (s2\<lparr>nb_freel := if fs = [] then 0 else nb_freel s\<rparr>)" by (simp add: quiet_def)
  have q: "quiet (set (x # fs)) s ?s3"
    by (rule quiet_trans [OF quiet_trans [OF quiet_trans [OF q12 q2] q3]
          quiet_trans [OF quiet_set_len quiet_set_qlink]]) simp_all
  have buf: "nb_buf ?s3 y = (if y = x then (nb_buf s2 x)\<lparr>b_len := 0, b_qlink := x\<rparr> else nb_buf s2 y)" for y
    by (simp add: set_qlink_def set_len_def upd_nb_def schar_def)
  have x: "x \<notin> set fs" using poolD(5) [OF p] by simp
  have w: "nb_freel ?s3 = (if fs = [] then 0 else nb_freel s)" "nb_freect ?s3 = nb_freect ?s1"
      "nb_kb ?s3 = nb_kb s" "nb_cntfree ?s3 = nb_cntfree s - 1" "nb_rbuf ?s3 = nb_rbuf s"
    using s2(2) by (simp_all add: linkedD set_len_def upd_nb_def)
  have res: "b_resv (nb_buf ?s3 y) = b_resv (nb_buf s y)" for y
    using linkedD(14) [OF s2(2), of y] buf [of y] by (cases "y = x") auto
  have gs: "good ?s3 y = good s y" for y by (rule quiet_good [OF q])
  have "pool ?s3 fs"
    unfolding pool_def
  proof (intro conjI ballI allI impI)
    show "msgq (qlink ?s3) (nb_freel ?s3) fs"
    proof -
      have "qlink ?s3 y = qlink s2 y" if "y \<in> set fs" for y using that x buf [of y] by auto
      then have "msgq (qlink ?s3) (nb_freel ?s3) fs = msgq (qlink s2) (nb_freel ?s3) fs" by (rule msgq_frame)
      then show ?thesis using s2(4) w(1) by simp
    qed
    show "sysbufs ?s3" using quiet_sysbufs [OF q] poolD(4) [OF p] by simp
    show "good ?s3 y" if "y \<in> set fs" for y using that gs poolD(2) [OF p] by auto
    show "b_resv (nb_buf ?s3 y) = of_nat (kb_of y)" if "y \<in> set fs" for y
      using that res poolD(3) [OF p] by auto
    show "nb_freect ?s3 c = int (card {y \<in> set fs. kb_of y = i})" if i: "i < 4" "nb_kb ?s3 i = Some c" for i c
    proof -
      have c: "nb_kb s i = Some c" using i(2) w(3) by simp
      note old = poolD(6) [OF p i(1) c]
      show ?thesis
      proof (cases "i = kb_of x")
        case True
        then have "{y \<in> set (x # fs). kb_of y = i} = insert x {y \<in> set fs. kb_of y = i}" by auto
        moreover have "c = b" using b c True by simp
        ultimately show ?thesis using old x w(2) by simp
      next
        case False
        then have e: "{y \<in> set (x # fs). kb_of y = i} = {y \<in> set fs. kb_of y = i}" by auto
        have "sysbufs s" by (rule poolD(4) [OF p])
        then have "c \<noteq> b" using c b False i(1) good_lt(1) [OF g] unfolding sysbufs_def by metis
        then show ?thesis using old e w(2) by simp
      qed
    qed
  qed
  then show ?thesis using t q w(4,5) buf [of x] res [of x] rs by (intro exI [of _ ?s3]) auto
qed

section \<open>Giving system buffers back\<close>

text \<open>States that differ in the headers only.\<close>

definition bufonly :: "'a nk_scheme \<Rightarrow> 'a nk_scheme \<Rightarrow> bool" where
  "bufonly s s' \<longleftrightarrow> s' = s\<lparr>nb_buf := nb_buf s'\<rparr> \<and> (\<forall>x. b_resv (nb_buf s' x) = b_resv (nb_buf s x))"

lemma bufonly_refl: "bufonly s s"
  by (simp add: bufonly_def)

lemma bufonly_trans: "bufonly s s' \<Longrightarrow> bufonly s' s'' \<Longrightarrow> bufonly s s''"
  unfolding bufonly_def by (metis nk.surjective nk.update_convs(1))

lemma bufonly_linked: "linked A s s' \<Longrightarrow> bufonly s s'"
  by (simp add: bufonly_def linked_def)

lemma bufonly_set_len: "bufonly s (set_len p n s)"
  by (simp add: bufonly_def upd_nb_def set_len_def)

lemma bufonlyD:
  assumes "bufonly s s'"
  shows "nb_freect s' = nb_freect s" "nb_cntfree s' = nb_cntfree s" "nb_freel s' = nb_freel s"
    "nb_rbuf s' = nb_rbuf s" "nb_need s' = nb_need s" "b_resv (nb_buf s' x) = b_resv (nb_buf s x)"
proof -
  show "b_resv (nb_buf s' x) = b_resv (nb_buf s x)" using assms by (simp add: bufonly_def)
  have e: "s' = s\<lparr>nb_buf := nb_buf s'\<rparr>" using assms by (simp add: bufonly_def)
  show "nb_freect s' = nb_freect s" by (subst e) simp
  show "nb_cntfree s' = nb_cntfree s" by (subst e) simp
  show "nb_freel s' = nb_freel s" by (subst e) simp
  show "nb_rbuf s' = nb_rbuf s" by (subst e) simp
  show "nb_need s' = nb_need s" by (subst e) simp
qed

lemma freekb_take_ring:
  assumes "ring (qlink s) prev (us @ vs)"
    and "\<forall>x\<in>set (us @ vs). (b_resv (nb_buf s x) AND b_memberof = of_nat i) = (kb_of x = i)"
    and "\<forall>x\<in>set vs. kb_of x \<noteq> i" "found = length (filter (\<lambda>x. kb_of x = i) us)"
    and "length us \<le> f" "found = 0 \<Longrightarrow> fl = prev"
  shows "\<exists>fl' s' ws. freekb_take f i found prev fl s = Inr (fl', s') \<and> msgq (qlink s') fl' ws \<and>
    set ws = {x \<in> set (us @ vs). kb_of x \<noteq> i} \<and> quiet (set (us @ vs)) s s' \<and> bufonly s s'"
  using assms
proof (induction us arbitrary: f prev vs found fl s)
  case Nil
  then have "freekb_take f i found prev fl s = Inr (prev, s)" by (cases f) auto
  moreover have "msgq (qlink s) prev vs" using Nil.prems(1) by (simp add: ring_msgq)
  ultimately show ?case using Nil.prems(3) quiet_refl bufonly_refl by fastforce
next
  case (Cons x us)
  obtain g where f: "f = Suc g" using Cons.prems(5) by (cases f) auto
  have hd: "qlink s prev = x" using Cons.prems(1) by (auto dest: ring_hd)
  show ?case
  proof (cases "found = 0")
    case True
    then have "freekb_take f i found prev fl s = Inr (prev, s)" using f Cons.prems(6) by simp
    moreover have "\<forall>y\<in>set (x # us). kb_of y \<noteq> i" using True Cons.prems(4) by (auto simp: filter_empty_conv split: if_splits)
    ultimately show ?thesis using Cons.prems(1,3) quiet_refl bufonly_refl by (fastforce intro: ring_msgq)
  next
    case f0: False
    show ?thesis
    proof (cases "kb_of x = i")
      case True
      let ?s1 = "set_len x 0 s"
      have l1: "qlink ?s1 = qlink s" by (rule ext) (simp add: set_len_def upd_nb_def)
      obtain s2 where s2: "ifreebuf prev ?s1 = (if us @ vs = [] then 0 else prev, s2)"
          "linked (set (x # us @ vs)) ?s1 s2" "msgq (qlink s2) (if us @ vs = [] then 0 else prev) (us @ vs)"
        using ifreebuf_ring [of ?s1 prev x "us @ vs"] Cons.prems(1) l1 by auto
      have q: "quiet (set (x # us @ vs)) s s2"
        by (rule quiet_trans [OF quiet_set_len quiet_linked [OF s2(2)]]) simp
      have bo: "bufonly s s2" by (rule bufonly_trans [OF bufonly_set_len bufonly_linked [OF s2(2)]])
      have dist: "x \<notin> set (us @ vs)" using Cons.prems(1) by (auto simp: ring_def)
      have step: "freekb_take f i found prev fl s = freekb_take g i (found - 1) prev (if us @ vs = [] then 0 else prev) s2"
        using f f0 hd True Cons.prems(2) s2(1) by (simp add: Let_def)
      have sets: "{y \<in> set ((x # us) @ vs). kb_of y \<noteq> i} = {y \<in> set (us @ vs). kb_of y \<noteq> i}" using True by auto
      show ?thesis
      proof (cases "us @ vs = []")
        case e: True
        then have "found = 1" using Cons.prems(4) True by simp
        then have "freekb_take f i found prev fl s = Inr (0, s2)" using step e by (cases g) auto
        then show ?thesis using e q bo True by auto
      next
        case ne: False
        have r2: "ring (qlink s2) prev (us @ vs)" using s2(3) ne by (simp only: msgq_def) simp
        have res: "\<forall>y\<in>set (us @ vs). (b_resv (nb_buf s2 y) AND b_memberof = of_nat i) = (kb_of y = i)"
          using Cons.prems(2) q by (simp add: quiet_def)
        have "found - 1 = length (filter (\<lambda>x. kb_of x = i) us)" using Cons.prems(4) True by simp
        from Cons.IH [OF r2 res Cons.prems(3) this, of g "if us @ vs = [] then 0 else prev"]
        obtain fl' s' ws where ih: "freekb_take g i (found - 1) prev (if us @ vs = [] then 0 else prev) s2 = Inr (fl', s')"
            "msgq (qlink s') fl' ws" "set ws = {y \<in> set (us @ vs). kb_of y \<noteq> i}" "quiet (set (us @ vs)) s2 s'" "bufonly s2 s'"
          using Cons.prems(5) f ne by auto
        have "quiet (set ((x # us) @ vs)) s s'"
          by (rule quiet_trans [OF _ quiet_mono [OF ih(4)]]) (use q in auto)
        then show ?thesis using step ih sets bufonly_trans [OF bo ih(5)] by auto
      qed
    next
      case False
      have r2: "ring (qlink s) x (us @ (vs @ [x]))" using ring_rotate [of "qlink s" prev x "us @ vs"] Cons.prems(1) by simp
      have step: "freekb_take f i found prev fl s = freekb_take g i found x fl s"
        using f f0 hd False Cons.prems(2) by (simp add: Let_def)
      have "found = length (filter (\<lambda>x. kb_of x = i) us)" using Cons.prems(4) False by simp
      from Cons.IH [OF r2 _ _ this, of g fl]
      show ?thesis using step Cons.prems(2,3,5) f f0 False by (auto simp: insert_commute)
    qed
  qed
qed

definition kbs :: "'a nk_scheme \<Rightarrow> nat" where
  "kbs s = card {i. i < 4 \<and> nb_kb s i \<noteq> None}"

definition shrunk :: "nat set \<Rightarrow> 'a nk_scheme \<Rightarrow> 'a nk_scheme \<Rightarrow> bool" where
  "shrunk F s s' \<longleftrightarrow> nk.more s' = nk.more s \<and> nb_mem s' = nb_mem s \<and> nb_hyster s' = nb_hyster s \<and>
     sb_paddr s' = sb_paddr s \<and> nb_rbuf s' = nb_rbuf s \<and>
     nb_alloc s' - int (kbs s') = nb_alloc s - int (kbs s) \<and> nb_alloc s' \<le> nb_alloc s \<and>
     (\<forall>x. x \<notin> F \<longrightarrow> nb_buf s' x = nb_buf s x \<and> (good s x \<longrightarrow> good s' x))"

lemma shrunk_refl: "shrunk F s s"
  by (simp add: shrunk_def)

lemma shrunk_trans: "shrunk F s s' \<Longrightarrow> shrunk F s' s'' \<Longrightarrow> shrunk F s s''"
  by (simp add: shrunk_def)

lemma shrunk_mono: "shrunk F s s' \<Longrightarrow> F \<subseteq> G \<Longrightarrow> shrunk G s s'"
  unfolding shrunk_def by blast

lemma kbs_le: "kbs s \<le> 4"
proof -
  have "kbs s \<le> card {..<4::nat}" unfolding kbs_def by (rule card_mono) auto
  then show ?thesis by simp
qed

lemma pool_length: "pool s fs \<Longrightarrow> length fs \<le> 32"
proof -
  assume p: "pool s fs"
  then have "set fs \<subseteq> {1..32}" using poolD(2) good_lt(2,3) by fastforce
  then have "card (set fs) \<le> card {1..32::nat}" by (rule card_mono [rotated]) simp
  then show ?thesis using poolD(5) [OF p] by (simp add: distinct_card)
qed

lemma all_free:
  assumes "distinct fs" "0 \<notin> set fs" "card {x \<in> set fs. kb_of x = i} = 8" "y \<noteq> 0" "kb_of y = i"
  shows "y \<in> set fs"
proof -
  have "x \<noteq> 0" if "x \<in> set fs" for x using assms(2) that by metis
  then have "{x \<in> set fs. kb_of x = i} \<subseteq> {x. x \<noteq> 0 \<and> kb_of x = i}" by blast
  then have "{x \<in> set fs. kb_of x = i} = {x. x \<noteq> 0 \<and> kb_of x = i}"
    by (rule card_subset_eq [OF finite_kb_of]) (simp only: card_kb_of assms(3))
  then show ?thesis using assms(4,5) by blast
qed

lemma released_sysbufs:
  assumes "sysbufs s" "i < 4" "nb_kb s i = Some b" "sb_paddr s' = sb_paddr s" "nb_kb s' = (nb_kb s)(i := None)"
    "sb_free s' = sb_free s @ [b]"
  shows "sysbufs s'"
proof -
  have inj: "j = k" if "j < 4" "k < 4" "nb_kb s j = Some c" "nb_kb s k = Some c" for j k c
    using assms(1) that unfolding sysbufs_def by metis
  have fr: "c \<notin> set (sb_free s)" if "j < 4" "nb_kb s j = Some c" for j c
    using assms(1) that by (simp add: sysbufs_def)
  have "b \<notin> set (sb_free s)" by (rule fr [OF assms(2,3)])
  moreover have "c \<notin> set (sb_free s')" if "j < 4" "nb_kb s' j = Some c" for j c
    using that fr inj [OF _ assms(2) _ assms(3)] by (auto simp: assms(5,6) split: if_splits)
  moreover have "j = k" if "j < 4" "k < 4" "nb_kb s' j = Some c" "nb_kb s' k = Some c" for j k c
    using inj [OF that(1,2), of c] that(3,4) by (simp add: assms(5) split: if_splits)
  ultimately show ?thesis using assms(1) unfolding sysbufs_def by (auto simp: assms(4,6))
qed

lemma release_kb:
  assumes p: "pool s fs" and c: "nb_cntfree s = int (length fs)" and i: "i < 4" "nb_kb s i = Some b"
    and full: "nb_freect s b = 8"
  shows "\<exists>fl s1 ws. freekb_take ring_fuel i net_b_per_k_b (nb_freel s) 0 s = Inr (fl, s1) \<and>
    (let s' = s1\<lparr>nb_freel := fl, sb_free := sb_free s1 @ [b], nb_kb := (nb_kb s1)(i := None),
             nb_alloc := nb_alloc s1 - 1, nb_cntfree := nb_cntfree s1 - int net_b_per_k_b\<rparr>
     in pool s' ws \<and> nb_cntfree s' = int (length ws) \<and> set ws \<subseteq> set fs \<and> shrunk (set fs) s s')"
proof -
  note d = poolD(5) [OF p] and m = poolD(1) [OF p]
  have z: "0 \<notin> set fs" using msgq_distinct [OF m] by simp
  have cd: "card {x \<in> set fs. kb_of x = i} = 8" using poolD(6) [OF p i] full by simp
  have ln: "length (filter (\<lambda>x. kb_of x = i) fs) = 8"
    using distinct_card [OF distinct_filter [OF d, of "\<lambda>x. kb_of x = i"]] cd by simp
  have "fs \<noteq> []" using cd by auto
  then have r: "ring (qlink s) (nb_freel s) (fs @ [])" using m by (simp add: msgq_def)
  have res: "(b_resv (nb_buf s x) AND b_memberof = of_nat i) = (kb_of x = i)" if "x \<in> set fs" for x
  proof -
    have g: "unat (b_resv (nb_buf s x) AND 15) = kb_of x" using poolD(2) [OF p that] by (simp add: good_def)
    show ?thesis unfolding b_memberof_def using word_memberof [OF g] g unat_small [OF i(1)] by metis
  qed
  have fuel: "length fs \<le> ring_fuel" using pool_length [OF p] by (simp add: ring_fuel_def)
  from freekb_take_ring [OF r, of i net_b_per_k_b ring_fuel 0]
  obtain fl s1 ws where t: "freekb_take ring_fuel i net_b_per_k_b (nb_freel s) 0 s = Inr (fl, s1)"
      "msgq (qlink s1) fl ws" "set ws = {x \<in> set fs. kb_of x \<noteq> i}" "quiet (set fs) s s1" "bufonly s s1"
    using res ln fuel by auto
  let ?s' = "s1\<lparr>nb_freel := fl, sb_free := sb_free s1 @ [b], nb_kb := (nb_kb s1)(i := None),
             nb_alloc := nb_alloc s1 - 1, nb_cntfree := nb_cntfree s1 - int net_b_per_k_b\<rparr>"
  note q = t(4) [unfolded quiet_def] and bo = bufonlyD [OF t(5)]
  have kb: "nb_kb ?s' = (nb_kb s)(i := None)" using q by simp
  have gd: "good ?s' y" if "good s y" "kb_of y \<noteq> i" for y
    using that q unfolding good_def by (auto split: option.splits)
  have sb: "sysbufs s" by (rule poolD(4) [OF p])
  have dw: "distinct ws" using msgq_distinct [OF t(2)] by simp
  have "pool ?s' ws"
    unfolding pool_def
  proof (intro conjI ballI allI impI)
    show "msgq (qlink ?s') (nb_freel ?s') ws" using t(2) by simp
    show "good ?s' x" if "x \<in> set ws" for x using that t(3) gd poolD(2) [OF p] by auto
    show "b_resv (nb_buf ?s' x) = of_nat (kb_of x)" if "x \<in> set ws" for x
      using that t(3) poolD(3) [OF p, of x] bo(6) [of x] by simp
    show "sysbufs ?s'" by (rule released_sysbufs [OF sb i]) (use q kb in simp_all)
    show "nb_freect ?s' c = int (card {x \<in> set ws. kb_of x = j})" if "j < 4" "nb_kb ?s' j = Some c" for j c
    proof -
      have "nb_kb s1 = nb_kb s" using q by simp
      then have "j \<noteq> i" and "nb_kb s j = Some c" using that(2) by (auto split: if_splits)
      then have "nb_freect s c = int (card {x \<in> set fs. kb_of x = j})" using poolD(6) [OF p that(1)] by simp
      moreover have "{x \<in> set ws. kb_of x = j} = {x \<in> set fs. kb_of x = j}" using t(3) \<open>j \<noteq> i\<close> by auto
      ultimately show ?thesis using bo by simp
    qed
  qed
  moreover have "nb_cntfree ?s' = int (length ws)"
  proof -
    have "card {x \<in> set fs. kb_of x \<noteq> i} = card (set fs - {x \<in> set fs. kb_of x = i})"
      by (rule arg_cong [of _ _ card]) auto
    also have "\<dots> = card (set fs) - 8" by (subst card_Diff_subset) (simp_all add: cd)
    finally have "length ws = length fs - 8" using dw d t(3) by (metis distinct_card)
    moreover have "8 \<le> length fs" using length_filter_le [of "\<lambda>x. kb_of x = i" fs] ln by simp
    ultimately show ?thesis using bo(2) c by simp
  qed
  moreover have "shrunk (set fs) s ?s'"
  proof -
    have "{j. j < 4 \<and> nb_kb ?s' j \<noteq> None} = {j. j < 4 \<and> nb_kb s j \<noteq> None} - {i}" using kb i by auto
    moreover have "card ({j. j < 4 \<and> nb_kb s j \<noteq> None} - {i}) = kbs s - 1"
      unfolding kbs_def by (rule card_Diff_singleton) (use i in auto)
    moreover have "0 < kbs s" unfolding kbs_def by (rule card_gt_0_iff [THEN iffD2]) (use i in auto)
    ultimately have "int (kbs ?s') = int (kbs s) - 1" by (simp add: kbs_def)
    moreover have "good ?s' x" if "x \<notin> set fs" "good s x" for x
    proof -
      have "kb_of x \<noteq> i" using all_free [OF d z cd good_lt(2) [OF that(2)]] that(1) by blast
      then show ?thesis using gd that(2) by blast
    qed
    ultimately show ?thesis using q bo by (simp add: shrunk_def)
  qed
  moreover have "set ws \<subseteq> set fs" using t(3) by auto
  ultimately show ?thesis using t(1) by (metis (no_types, lifting))
qed

lemma freekb_slots_pool:
  assumes "pool s fs" "nb_cntfree s = int (length fs)" "\<forall>i\<in>set is. i < 4"
  shows "\<exists>s' fs'. freekb_slots is s = Inr s' \<and> pool s' fs' \<and> nb_cntfree s' = int (length fs') \<and>
    set fs' \<subseteq> set fs \<and> shrunk (set fs) s s'"
  using assms
proof (induction "is" arbitrary: s fs)
  case Nil
  then show ?case using shrunk_refl by auto
next
  case (Cons i "is")
  have i: "i < 4" "\<forall>i\<in>set is. i < 4" using Cons.prems(3) by auto
  show ?case
  proof (cases "\<exists>b. nb_kb s i = Some b \<and> nb_freect s b = 8")
    case True
    then obtain b where b: "nb_kb s i = Some b" "nb_freect s b = 8" by blast
    obtain fl s1 ws where t: "freekb_take ring_fuel i net_b_per_k_b (nb_freel s) 0 s = Inr (fl, s1)"
      and r: "let s' = s1\<lparr>nb_freel := fl, sb_free := sb_free s1 @ [b], nb_kb := (nb_kb s1)(i := None),
             nb_alloc := nb_alloc s1 - 1, nb_cntfree := nb_cntfree s1 - int net_b_per_k_b\<rparr>
       in pool s' ws \<and> nb_cntfree s' = int (length ws) \<and> set ws \<subseteq> set fs \<and> shrunk (set fs) s s'"
      using release_kb [OF Cons.prems(1,2) i(1) b] by blast
    note r = r [unfolded Let_def]
    from Cons.IH [OF conjunct1 [OF r] conjunct1 [OF conjunct2 [OF r]] i(2)]
    obtain s' fs' where ih: "freekb_slots is (s1\<lparr>nb_freel := fl, sb_free := sb_free s1 @ [b], nb_kb := (nb_kb s1)(i := None),
             nb_alloc := nb_alloc s1 - 1, nb_cntfree := nb_cntfree s1 - int net_b_per_k_b\<rparr>) = Inr s'"
        "pool s' fs'" "nb_cntfree s' = int (length fs')" "set fs' \<subseteq> set ws"
        "shrunk (set ws) (s1\<lparr>nb_freel := fl, sb_free := sb_free s1 @ [b], nb_kb := (nb_kb s1)(i := None),
             nb_alloc := nb_alloc s1 - 1, nb_cntfree := nb_cntfree s1 - int net_b_per_k_b\<rparr>) s'"
      by blast
    have "freekb_slots (i # is) s = Inr s'" using b t ih(1) by simp
    moreover have "shrunk (set fs) s s'" using shrunk_trans shrunk_mono ih(5) r by blast
    ultimately show ?thesis using ih r by blast
  next
    case False
    then have "freekb_slots (i # is) s = freekb_slots is s" by (auto split: option.splits)
    then show ?thesis using Cons.IH [OF Cons.prems(1,2) i(2)] by simp
  qed
qed

lemma freekb_pool:
  assumes "pool s fs" "nb_cntfree s = int (length fs)"
  shows "\<exists>s' fs'. freekb s = Inr s' \<and> pool s' fs' \<and> nb_cntfree s' = int (length fs') \<and>
    set fs' \<subseteq> set fs \<and> shrunk (set fs) s s'"
  using freekb_slots_pool [OF assms, of "[0..<4]"] assms shrunk_refl by (auto simp: freekb_def)

end
