(* ===== verification/Ncp_Alloc.thy ===== *)
theory Ncp_Alloc
  imports Ncp_Pool
begin

text \<open>
  The allocator seen by one process.  \<open>kok held p own s\<close>: the process owns the buffers \<open>own\<close>, the
  rest of the kernel holds the buffers \<open>held s\<close>, both are disjoint from the free list and from
  each other, and the number of system buffers taken (nb_alloc, which getkb counts before it
  sleeps) covers those in use and the \<open>p\<close> ones that are on their way.  The locale
  \<open>buffer_users\<close> asks of \<open>held\<close> only that it depends on nothing but the rest of the state and the
  buffers it contains; \<open>rely\<close> is what a process may assume of the others while it sleeps.
\<close>

definition same :: "nat set \<Rightarrow> 'a nk_scheme \<Rightarrow> 'a nk_scheme \<Rightarrow> bool" where
  "same F s s' \<longleftrightarrow> (\<forall>x\<in>F. nb_buf s' x = nb_buf s x \<and>
     (\<forall>d<64. fbbyte (b_loc (nb_buf s x)) d s' = fbbyte (b_loc (nb_buf s x)) d s))"

definition samedata :: "nat set \<Rightarrow> 'a nk_scheme \<Rightarrow> 'a nk_scheme \<Rightarrow> bool" where
  "samedata F s s' \<longleftrightarrow> (\<forall>x\<in>F. b_len (nb_buf s' x) = b_len (nb_buf s x) \<and> b_resv (nb_buf s' x) = b_resv (nb_buf s x) \<and>
     b_loc (nb_buf s' x) = b_loc (nb_buf s x) \<and>
     (\<forall>d<64. fbbyte (b_loc (nb_buf s x)) d s' = fbbyte (b_loc (nb_buf s x)) d s))"

definition kok :: "('a nk_scheme \<Rightarrow> nat set) \<Rightarrow> nat \<Rightarrow> nat set \<Rightarrow> 'a nk_scheme \<Rightarrow> bool" where
  "kok held p own s \<longleftrightarrow> (\<exists>fs. pool s fs \<and> nb_cntfree s = int (length fs) \<and>
       set fs \<inter> (own \<union> held s) = {}) \<and>
     (\<forall>x\<in>own \<union> held s. good s x) \<and> own \<inter> held s = {} \<and>
     int (kbs s) + int p \<le> nb_alloc s \<and> nb_alloc s \<le> 4"

definition rely :: "('a nk_scheme \<Rightarrow> nat set) \<Rightarrow> ('a nk_scheme \<Rightarrow> 'a nk_scheme) \<Rightarrow> bool" where
  "rely held e \<longleftrightarrow> (\<forall>s own p. kok held p own s \<longrightarrow> kok held p own (e s) \<and> same own s (e s))"

lemma relyD: "rely held e \<Longrightarrow> kok held p own s \<Longrightarrow> kok held p own (e s)"
  "rely held e \<Longrightarrow> kok held p own s \<Longrightarrow> same own s (e s)"
  by (simp_all add: rely_def)

lemma same_refl: "same F s s"
  by (simp add: same_def)

lemma same_trans: "same F s s' \<Longrightarrow> same F s' s'' \<Longrightarrow> same F s s''"
  by (simp add: same_def)

lemma same_mono: "same F s s' \<Longrightarrow> G \<subseteq> F \<Longrightarrow> same G s s'"
  by (auto simp: same_def)

lemma same_Un: "same (F \<union> G) s s' \<longleftrightarrow> same F s s' \<and> same G s s'"
  by (auto simp: same_def)

lemma sameI: "nb_mem s' = nb_mem s \<Longrightarrow> (\<And>x. x \<in> F \<Longrightarrow> nb_buf s' x = nb_buf s x) \<Longrightarrow> same F s s'"
  by (simp add: same_def fbbyte_def)

lemma same_buf: "same F s s' \<Longrightarrow> x \<in> F \<Longrightarrow> nb_buf s' x = nb_buf s x"
  by (simp add: same_def)

lemma same_samedata: "same F s s' \<Longrightarrow> samedata F s s'"
  by (simp add: same_def samedata_def)

lemma samedata_refl: "samedata F s s"
  by (simp add: samedata_def)

lemma samedata_trans: "samedata F s s' \<Longrightarrow> samedata F s' s'' \<Longrightarrow> samedata F s s''"
  by (simp add: samedata_def)

lemma samedata_mono: "samedata F s s' \<Longrightarrow> G \<subseteq> F \<Longrightarrow> samedata G s s'"
  by (auto simp: samedata_def)

lemma samedataI: "nb_mem s' = nb_mem s \<Longrightarrow> (\<And>x. x \<in> F \<Longrightarrow> b_len (nb_buf s' x) = b_len (nb_buf s x) \<and>
    b_resv (nb_buf s' x) = b_resv (nb_buf s x) \<and> b_loc (nb_buf s' x) = b_loc (nb_buf s x)) \<Longrightarrow> samedata F s s'"
  by (simp add: samedata_def fbbyte_def)

lemma same_msgq: "same F s s' \<Longrightarrow> set xs \<subseteq> F \<Longrightarrow> msgq (qlink s') p xs = msgq (qlink s) p xs"
  by (rule msgq_frame) (auto dest: same_buf)

lemma same_ring: "same F s s' \<Longrightarrow> set xs \<subseteq> F \<Longrightarrow> ring (qlink s') p xs = ring (qlink s) p xs"
  by (rule ring_frame) (auto dest: same_buf)

lemma kokE:
  assumes "kok held p own s"
  obtains fs where "pool s fs" "nb_cntfree s = int (length fs)" "set fs \<inter> (own \<union> held s) = {}"
    "\<And>x. x \<in> own \<union> held s \<Longrightarrow> good s x" "own \<inter> held s = {}"
    "int (kbs s) + int p \<le> nb_alloc s" "nb_alloc s \<le> 4"
  using assms by (auto simp: kok_def)

lemma kokI:
  assumes "pool s fs" "nb_cntfree s = int (length fs)" "set fs \<inter> (own \<union> held s) = {}"
    "\<And>x. x \<in> own \<union> held s \<Longrightarrow> good s x" "own \<inter> held s = {}"
    "int (kbs s) + int p \<le> nb_alloc s" "nb_alloc s \<le> 4"
  shows "kok held p own s"
  using assms unfolding kok_def by blast

lemma kok_good: "kok held p own s \<Longrightarrow> x \<in> own \<Longrightarrow> good s x"
  by (simp add: kok_def)

lemma kok_sysbufs: "kok held p own s \<Longrightarrow> sysbufs s"
  by (auto simp: kok_def dest: poolD(4))

lemma kok_sub: "kok held p own s \<Longrightarrow> own' \<subseteq> own \<Longrightarrow> kok held p own' s"
  unfolding kok_def by blast

text \<open>Two buffers of the process never share a data block.\<close>

lemma kok_loc:
  "kok held p own s \<Longrightarrow> x \<in> own \<Longrightarrow> y \<in> own \<Longrightarrow> x \<noteq> y \<Longrightarrow> b_loc (nb_buf s x) \<noteq> b_loc (nb_buf s y)"
  using good_loc kok_good kok_sysbufs by metis

lemma good_cong: "nb_buf s' x = nb_buf s x \<Longrightarrow> nb_kb s' = nb_kb s \<Longrightarrow> sb_paddr s' = sb_paddr s \<Longrightarrow> good s' x = good s x"
  by (simp add: good_def cong: option.case_cong)

lemma sysbufs_sub: "sysbufs s \<Longrightarrow> nb_kb s' = nb_kb s \<Longrightarrow> sb_paddr s' = sb_paddr s \<Longrightarrow> distinct (sb_free s') \<Longrightarrow>
    set (sb_free s') \<subseteq> set (sb_free s) \<Longrightarrow> sysbufs s'"
  unfolding sysbufs_def by auto

lemma pool_cong:
  assumes "pool s fs" "\<And>x. x \<in> set fs \<Longrightarrow> nb_buf s' x = nb_buf s x" "nb_kb s' = nb_kb s" "sb_paddr s' = sb_paddr s"
    "nb_freel s' = nb_freel s" "nb_freect s' = nb_freect s" "sysbufs s'"
  shows "pool s' fs"
proof -
  have "msgq (qlink s') (nb_freel s') fs = msgq (qlink s) (nb_freel s) fs"
    unfolding assms(5) by (rule msgq_frame) (simp add: assms(2))
  then show ?thesis using assms good_cong [of s' _ s] unfolding pool_def by auto
qed

lemma pool_quiet:
  assumes "pool s fs" "quiet A s s'" "A \<inter> set fs = {}" "nb_freel s' = nb_freel s" "nb_freect s' = nb_freect s"
  shows "pool s' fs"
proof -
  have b: "nb_buf s' x = nb_buf s x" if "x \<in> set fs" for x using quiet_buf [OF assms(2)] assms(3) that by blast
  then have "msgq (qlink s') (nb_freel s') fs = msgq (qlink s) (nb_freel s) fs"
    unfolding assms(4) by (intro msgq_frame) simp
  then show ?thesis using assms(1,2,5) b quiet_good [OF assms(2)] quiet_sysbufs [OF assms(2)]
    by (auto simp: pool_def quiet_def)
qed

locale buffer_users =
  fixes held :: "'a nk_scheme \<Rightarrow> nat set"
  assumes held_local: "nk.more s' = nk.more s \<Longrightarrow> same (held s) s s' \<Longrightarrow> held s' = held s"
begin

text \<open>Changes to the process's own buffers.\<close>

lemma kok_quiet:
  assumes k: "kok held p own s" and q: "quiet A s s'" and a: "A \<subseteq> own"
    and w: "nb_freel s' = nb_freel s" "nb_freect s' = nb_freect s" "nb_cntfree s' = nb_cntfree s"
  shows "kok held p own s' \<and> held s' = held s"
proof -
  obtain fs where f: "pool s fs" "nb_cntfree s = int (length fs)" "set fs \<inter> (own \<union> held s) = {}"
    "\<And>x. x \<in> own \<union> held s \<Longrightarrow> good s x" "own \<inter> held s = {}" "int (kbs s) + int p \<le> nb_alloc s" "nb_alloc s \<le> 4"
    using k by (rule kokE) blast
  have "same (held s) s s'" by (rule sameI) (use q a f(5) quiet_buf [OF q] in \<open>auto simp: quiet_def\<close>)
  then have h: "held s' = held s" using q by (intro held_local) (simp_all add: quiet_def)
  have "pool s' fs" by (rule pool_quiet [OF f(1) q _ w(1,2)]) (use a f(3) in auto)
  then have "kok held p own s'"
  proof (rule kokI)
    show "int (kbs s') + int p \<le> nb_alloc s'" "nb_alloc s' \<le> 4" using f q by (simp_all add: quiet_def kbs_def)
  qed (use f q w h quiet_good [OF q] in auto)
  then show ?thesis using h by simp
qed

text \<open>freebuf drops the first buffer of a message.\<close>

lemma freebuf_ok:
  assumes k: "kok held p own s" and r: "ring (qlink s) prev (x # xs)" and o: "set (x # xs) \<subseteq> own"
  shows "\<exists>s'. freebuf prev s = Inr (if xs = [] then 0 else prev, s') \<and>
    msgq (qlink s') (if xs = [] then 0 else prev) xs \<and> kok held p (own - {x}) s' \<and> nk.more s' = nk.more s \<and>
    held s' = held s \<and> samedata (set xs) s s' \<and> same (own - set (x # xs)) s s'"
proof -
  obtain fs where f: "pool s fs" "nb_cntfree s = int (length fs)" "set fs \<inter> (own \<union> held s) = {}"
    "\<And>x. x \<in> own \<union> held s \<Longrightarrow> good s x" "own \<inter> held s = {}" "int (kbs s) + int p \<le> nb_alloc s" "nb_alloc s \<le> 4"
    using k by (rule kokE) blast
  have hd: "qlink s prev = x" by (rule ring_hd [OF r])
  have xo: "x \<in> own" using o by simp
  let ?raw = "b_resv (nb_buf s x) AND b_raw \<noteq> 0"
  define s1 where "s1 = (if ?raw then (set_resv x (b_resv (nb_buf s x) AND NOT b_raw) s)\<lparr>nb_rbuf := nb_rbuf s - 1\<rparr> else s)"
  have q1: "quiet {x} s s1"
    by (auto simp: s1_def quiet_def set_resv_def upd_nb_def and.assoc)
  have l1: "qlink s1 = qlink s" by (rule ext) (simp add: s1_def set_resv_def upd_nb_def)
  have w1: "nb_freel s1 = nb_freel s" "nb_freect s1 = nb_freect s" "nb_cntfree s1 = nb_cntfree s"
    by (simp_all add: s1_def set_resv_def upd_nb_def)
  obtain s2 where s2: "ifreebuf prev s1 = (if xs = [] then 0 else prev, s2)" "linked (set (x # xs)) s1 s2"
      "qlink s2 x = x" "msgq (qlink s2) (if xs = [] then 0 else prev) xs"
    using ifreebuf_ring [of s1 prev x xs] r l1 by auto
  have q2: "quiet (set (x # xs)) s s2"
    by (rule quiet_trans [OF quiet_mono [OF q1] quiet_linked [OF s2(2)]]) simp
  have p2: "pool s2 fs"
    by (rule pool_quiet [OF f(1) q2]) (use o f(3) s2(2) w1 in \<open>auto simp: linkedD\<close>)
  have g2: "good s2 x" using quiet_good [OF q2] f(4) xo by simp
  have xf: "x \<notin> set fs" using f(3) xo by auto
  obtain n s3 where s3: "freeb x s2 = Inr (n, s3)" "pool s3 (fs @ [x])" "quiet (insert x (set fs)) s2 s3"
      "nb_cntfree s3 = nb_cntfree s2"
    using freeb_pool [OF p2 g2 xf] by blast
  let ?s3 = "s3\<lparr>nb_cntfree := nb_cntfree s3 + 1\<rparr>"
  have q3: "quiet (insert x (set fs)) s2 ?s3" using s3(3) by (simp add: quiet_def)
  have p3: "pool ?s3 (fs @ [x])" by (rule pool_quiet [OF s3(2), of "{}"]) (simp_all add: quiet_def)
  have c3: "nb_cntfree ?s3 = int (length (fs @ [x]))" using s3(4) s2(2) w1 f(2) by (simp add: linkedD)
  obtain s4 fs4 where s4: "freekb ?s3 = Inr s4" "pool s4 fs4" "nb_cntfree s4 = int (length fs4)"
      "set fs4 \<subseteq> set (fs @ [x])" "shrunk (set (fs @ [x])) ?s3 s4"
    using freekb_pool [OF p3 c3] by blast
  have "freebuf prev s = (let (prevbp, s) = ifreebuf prev s1 in kbind (freeb x s) (\<lambda>(_, s).
      kbind (freekb (s\<lparr>nb_cntfree := nb_cntfree s + 1\<rparr>)) (\<lambda>s. Inr (prevbp, s))))"
    unfolding freebuf_def Let_def hd s1_def ..
  then have run: "freebuf prev s = Inr (if xs = [] then 0 else prev, s4)"
    using s2(1) s3(1) s4(1) by simp
  have b3: "nb_buf s4 y = nb_buf s2 y" "good s2 y \<Longrightarrow> good s4 y" if "y \<notin> insert x (set fs)" for y
  proof -
    have "nb_buf ?s3 y = nb_buf s2 y" by (rule quiet_buf [OF q3 that])
    then show "nb_buf s4 y = nb_buf s2 y" using s4(5) that unfolding shrunk_def by auto
    show "good s4 y" if "good s2 y" using that s4(5) \<open>y \<notin> insert x (set fs)\<close> quiet_good [OF q3] unfolding shrunk_def by auto
  qed
  have b4: "nb_buf s4 y = nb_buf s y" if "y \<notin> set (x # xs)" "y \<notin> set fs" for y
    using b3 [of y] quiet_buf [OF q2 that(1)] that by auto
  have mem: "nb_mem s4 = nb_mem s" "nk.more s4 = nk.more s" "sb_paddr s4 = sb_paddr s"
    using s4(5) q3 q2 by (simp_all add: shrunk_def quiet_def)
  have "same (held s) s s4"
  proof (rule sameI [OF mem(1)])
    fix y assume "y \<in> held s"
    then have "y \<notin> set (x # xs)" "y \<notin> set fs" using f(3,5) o by blast+
    then show "nb_buf s4 y = nb_buf s y" by (rule b4)
  qed
  then have h: "held s4 = held s" by (rule held_local [OF mem(2)])
  have gd: "good s4 y" if "y \<in> (own - {x}) \<union> held s" for y
  proof -
    have "y \<notin> insert x (set fs)" using that f(3,5) xo by blast
    moreover have "good s2 y" using quiet_good [OF q2] f(4) that by auto
    ultimately show ?thesis by (rule b3(2))
  qed
  have "kok held p (own - {x}) s4"
  proof (rule kokI [OF s4(2,3)])
    show "set fs4 \<inter> (own - {x} \<union> held s4) = {}" using s4(4) f(3,5) xo h by auto
    have "kbs ?s3 = kbs s" "nb_alloc ?s3 = nb_alloc s" using q3 q2 by (simp_all add: kbs_def quiet_def)
    then have "nb_alloc s4 - int (kbs s4) = nb_alloc s - int (kbs s)" "nb_alloc s4 \<le> nb_alloc s"
      using s4(5) unfolding shrunk_def by simp_all
    then show "int (kbs s4) + int p \<le> nb_alloc s4" "nb_alloc s4 \<le> 4" using f(6,7) by auto
  qed (use gd f(5) h in auto)
  moreover have "samedata (set xs) s s4"
  proof (rule samedataI [OF mem(1)])
    fix y assume y: "y \<in> set xs"
    then have yx: "y \<noteq> x" "y \<notin> set fs" using r o f(3) by (auto simp: ring_def)
    then have "nb_buf s4 y = nb_buf s2 y" using b3 by simp
    moreover have "nb_buf s1 y = nb_buf s y" by (rule quiet_buf [OF q1]) (use yx in simp)
    ultimately show "b_len (nb_buf s4 y) = b_len (nb_buf s y) \<and> b_resv (nb_buf s4 y) = b_resv (nb_buf s y) \<and>
        b_loc (nb_buf s4 y) = b_loc (nb_buf s y)" using s2(2) by (simp add: linkedD)
  qed
  moreover have "same (own - set (x # xs)) s s4"
  proof (rule sameI [OF mem(1)])
    fix y assume "y \<in> own - set (x # xs)"
    then have "y \<notin> set (x # xs)" "y \<notin> set fs" using f(3) by blast+
    then show "nb_buf s4 y = nb_buf s y" by (rule b4)
  qed
  moreover have "msgq (qlink s4) (if xs = [] then 0 else prev) xs"
  proof -
    have "qlink s4 y = qlink s2 y" if "y \<in> set xs" for y
    proof -
      have "y \<notin> insert x (set fs)" using that r o f(3) by (auto simp: ring_def)
      then show ?thesis using b3(1) by simp
    qed
    then have "msgq (qlink s4) (if xs = [] then 0 else prev) xs = msgq (qlink s2) (if xs = [] then 0 else prev) xs"
      by (rule msgq_frame)
    then show ?thesis using s2(4) by simp
  qed
  ultimately show ?thesis using run mem h by blast
qed

lemma own_length:
  assumes "kok held p own s" "msgq nx m xs" "set xs \<subseteq> own"
  shows "length xs \<le> 32"
proof -
  have "set xs \<subseteq> {1..32}" using assms(3) kok_good [OF assms(1)] good_lt(2,3) by fastforce
  then have "card (set xs) \<le> card {1..32::nat}" by (rule card_mono [rotated]) simp
  then show ?thesis using msgq_distinct [OF assms(2)] by (simp add: distinct_card)
qed

lemma freemsg_loop_ok:
  assumes "kok held p own s" "msgq (qlink s) m xs" "set xs \<subseteq> own" "length xs \<le> f"
  shows "\<exists>s'. freemsg_loop f m s = Inr s' \<and> kok held p (own - set xs) s' \<and> nk.more s' = nk.more s \<and>
    held s' = held s \<and> same (own - set xs) s s'"
  using assms
proof (induction xs arbitrary: f m s own)
  case Nil
  then have "freemsg_loop f m s = Inr s" by (cases f) auto
  then show ?case using Nil same_refl by auto
next
  case (Cons x xs)
  obtain g where f: "f = Suc g" using Cons.prems(4) by (cases f) auto
  have r: "ring (qlink s) m (x # xs)" using Cons.prems(2) by (simp add: msgq_def)
  note d = msgq_distinct [OF Cons.prems(2)]
  let ?m = "if xs = [] then 0 else m"
  obtain s1 where s1: "freebuf m s = Inr (?m, s1)" "msgq (qlink s1) ?m xs" "kok held p (own - {x}) s1"
      "nk.more s1 = nk.more s" "held s1 = held s" "same (own - set (x # xs)) s s1"
    using freebuf_ok [OF Cons.prems(1) r Cons.prems(3)] by blast
  have "set xs \<subseteq> own - {x}" using Cons.prems(3) d by auto
  from Cons.IH [OF s1(3,2) this] obtain s' where s': "freemsg_loop g ?m s1 = Inr s'"
      "kok held p (own - {x} - set xs) s'" "nk.more s' = nk.more s1" "held s' = held s1" "same (own - {x} - set xs) s1 s'"
    using Cons.prems(4) f by auto
  have e: "own - {x} - set xs = own - set (x # xs)" by auto
  have "freemsg_loop f m s = Inr s'" using f s1(1) s'(1) ring_nonzero [OF r] by simp
  then show ?case using s' s1 same_trans e by metis
qed

lemma freemsg_ok:
  assumes "kok held p own s" "msgq (qlink s) m xs" "set xs \<subseteq> own"
  shows "\<exists>s'. freemsg m s = Inr s' \<and> kok held p (own - set xs) s' \<and> nk.more s' = nk.more s \<and>
    held s' = held s \<and> same (own - set xs) s s'"
  unfolding freemsg_def
  by (rule freemsg_loop_ok [OF assms]) (use own_length [OF assms] in \<open>simp add: ring_fuel_def\<close>)

text \<open>Getting a system buffer.\<close>

lemma kok_words:
  assumes k: "kok held p own s" and e: "nk.more s' = nk.more s" "nb_buf s' = nb_buf s" "nb_mem s' = nb_mem s"
    "nb_kb s' = nb_kb s" "nb_freect s' = nb_freect s" "nb_cntfree s' = nb_cntfree s" "nb_freel s' = nb_freel s"
    "sb_paddr s' = sb_paddr s" "distinct (sb_free s')" "set (sb_free s') \<subseteq> set (sb_free s)"
    "int (kbs s) + int q \<le> nb_alloc s'" "nb_alloc s' \<le> 4"
  shows "kok held q own s' \<and> same own s s' \<and> held s' = held s"
proof -
  obtain fs where f: "pool s fs" "nb_cntfree s = int (length fs)" "set fs \<inter> (own \<union> held s) = {}"
    "\<And>x. x \<in> own \<union> held s \<Longrightarrow> good s x" "own \<inter> held s = {}" "int (kbs s) + int p \<le> nb_alloc s" "nb_alloc s \<le> 4"
    using k by (rule kokE) blast
  have sm: "same F s s'" for F by (rule sameI) (simp_all add: e)
  have h: "held s' = held s" by (rule held_local [OF e(1) sm])
  have g: "good s' x = good s x" for x by (rule good_cong) (simp_all add: e)
  have "sysbufs s'" by (rule sysbufs_sub [OF poolD(4) [OF f(1)]]) (use e in simp_all)
  then have "pool s' fs" by (intro pool_cong [OF f(1)]) (simp_all add: e)
  then have "kok held q own s'" by (rule kokI) (use f h g e in \<open>auto simp: kbs_def\<close>)
  then show ?thesis using sm h by simp
qed

lemma getsblk_ok:
  assumes "kok held p own s" "\<forall>e\<in>set env. rely held e"
  shows "getsblk env s = Inl Asleep \<or> (\<exists>b env' s'. getsblk env s = Inr (b, env', s') \<and> set env' \<subseteq> set env \<and>
    kok held p own s' \<and> same own s s' \<and> (\<forall>i<4. nb_kb s' i \<noteq> Some b) \<and> b \<notin> set (sb_free s'))"
  using assms
proof (induction env arbitrary: s)
  have now: "\<exists>s'. s' = s\<lparr>sb_free := bs\<rparr> \<and> kok held p own s' \<and> same own s s' \<and> (\<forall>i<4. nb_kb s' i \<noteq> Some b) \<and>
      b \<notin> set (sb_free s')" if k: "kok held p own s" and b: "sb_free s = b # bs" for s :: "'a nk_scheme" and b bs
  proof -
    have sb: "sysbufs s" by (rule kok_sysbufs [OF k])
    have "kok held p own (s\<lparr>sb_free := bs\<rparr>) \<and> same own s (s\<lparr>sb_free := bs\<rparr>) \<and> held (s\<lparr>sb_free := bs\<rparr>) = held s"
      by (rule kok_words [OF k]) (use sb b k in \<open>auto simp: sysbufs_def kok_def\<close>)
    then show ?thesis using sb b by (auto simp: sysbufs_def)
  qed
  {
    case Nil
    then show ?case using now by (auto split: list.splits)
  next
    case (Cons e env)
    show ?case
    proof (cases "sb_free s")
      case Nil
      have e: "kok held p own (e s)" "same own s (e s)" using relyD Cons.prems by auto
      show ?thesis using Cons.IH [OF e(1)] Cons.prems(2) Nil same_trans [OF e(2)] by (auto; blast)
    next
      case (Cons b bs)
      then show ?thesis using now [OF Cons.prems(1) Cons] by auto
    qed
  }
qed

lemma carve_pool:
  assumes "pool s fs" "i < 4" "nb_kb s i = Some b" "\<forall>k\<in>set ks. k < 8 \<and> bufhead i k \<notin> set fs" "distinct ks"
  shows "\<exists>s'. carve i b ks s = Inr s' \<and> pool s' (fs @ map (bufhead i) ks) \<and> nk.more s' = nk.more s \<and>
    nb_mem s' = nb_mem s \<and> nb_kb s' = nb_kb s \<and> nb_alloc s' = nb_alloc s \<and> sb_paddr s' = sb_paddr s \<and>
    nb_cntfree s' = nb_cntfree s \<and>
    (\<forall>x. x \<notin> set fs \<union> bufhead i ` set ks \<longrightarrow> nb_buf s' x = nb_buf s x)"
  using assms
proof (induction ks arbitrary: fs s)
  case Nil
  then show ?case by simp
next
  case (Cons k ks)
  let ?x = "bufhead i k"
  let ?s1 = "upd_nb ?x (\<lambda>h. h\<lparr>b_resv := of_nat i, b_loc := sb_paddr s b + k\<rparr>) s"
  have k: "k < 8" "?x \<notin> set fs" using Cons.prems(4) by auto
  have b1: "nb_buf ?s1 y = (if y = ?x then (nb_buf s y)\<lparr>b_resv := of_nat i, b_loc := sb_paddr s b + k\<rparr> else nb_buf s y)" for y
    by (simp add: upd_nb_def)
  have w1: "nk.more ?s1 = nk.more s" "nb_mem ?s1 = nb_mem s" "nb_kb ?s1 = nb_kb s" "nb_alloc ?s1 = nb_alloc s"
      "sb_paddr ?s1 = sb_paddr s" "nb_cntfree ?s1 = nb_cntfree s" "nb_freel ?s1 = nb_freel s" "nb_freect ?s1 = nb_freect s"
      "sb_free ?s1 = sb_free s"
    by (simp_all add: upd_nb_def)
  have fr: "nb_buf ?s1 y = nb_buf s y" if "y \<in> set fs" for y using that k(2) b1 by auto
  have p1: "pool ?s1 fs"
    by (rule pool_cong [OF Cons.prems(1)]) (use fr w1 poolD(4) [OF Cons.prems(1)] in \<open>simp_all add: sysbufs_def\<close>)
  have small: "(of_nat i :: byte) AND 0xF = of_nat i"
  proof -
    have "i = 0 \<or> i = 1 \<or> i = 2 \<or> i = 3" using Cons.prems(2) by auto
    then show ?thesis by auto
  qed
  have g1: "good ?s1 ?x" using k Cons.prems(2,3) w1 b1 small unat_small by (simp add: good_def)
  obtain n s2 where s2: "freeb ?x ?s1 = Inr (n, s2)" "pool s2 (fs @ [?x])" "quiet (insert ?x (set fs)) ?s1 s2"
      "nb_cntfree s2 = nb_cntfree ?s1"
    using freeb_pool [OF p1 g1 k(2)] by blast
  have nx: "\<forall>k'\<in>set ks. k' < 8 \<and> bufhead i k' \<notin> set (fs @ [?x])"
    using Cons.prems(4,5) by (auto simp: bufhead_def)
  have kb2: "nb_kb s2 i = Some b" using s2(3) w1 Cons.prems(3) by (simp add: quiet_def)
  obtain s' where s': "carve i b ks s2 = Inr s'" "pool s' ((fs @ [?x]) @ map (bufhead i) ks)" "nk.more s' = nk.more s2"
      "nb_mem s' = nb_mem s2" "nb_kb s' = nb_kb s2" "nb_alloc s' = nb_alloc s2" "sb_paddr s' = sb_paddr s2"
      "nb_cntfree s' = nb_cntfree s2"
      "\<forall>x. x \<notin> set (fs @ [?x]) \<union> bufhead i ` set ks \<longrightarrow> nb_buf s' x = nb_buf s2 x"
    using Cons.IH [OF s2(2) Cons.prems(2) kb2 nx] Cons.prems(5) by auto
  have "carve i b (k # ks) s = Inr s'" using s2(1) s'(1) by simp
  moreover have "nb_buf s' y = nb_buf s y" if "y \<notin> set fs \<union> bufhead i ` set (k # ks)" for y
    using s'(9) quiet_buf [OF s2(3), of y] b1 [of y] that by auto
  ultimately show ?case using s' s2(3,4) w1 unfolding quiet_def by auto
qed

lemma getkb_ok:
  assumes k: "kok held p own s" and e: "\<forall>e\<in>set env. rely held e"
  shows "getkb env s = Inl Asleep \<or> (\<exists>r env' s'. getkb env s = Inr (r, env', s') \<and> set env' \<subseteq> set env \<and>
    kok held p own s' \<and> same own s s')"
proof (cases "nb_alloc s \<ge> 4")
  case True
  then show ?thesis using k same_refl by (auto simp: getkb_def)
next
  case False
  let ?s1 = "s\<lparr>nb_alloc := nb_alloc s + 1\<rparr>"
  have s1: "kok held (Suc p) own ?s1 \<and> same own s ?s1 \<and> held ?s1 = held s"
    by (rule kok_words [OF k]) (use k False kok_sysbufs [OF k] in \<open>auto simp: kok_def sysbufs_def\<close>)
  from getsblk_ok [OF conjunct1 [OF s1] e] show ?thesis
  proof (elim disjE exE conjE)
    assume "getsblk env ?s1 = Inl Asleep"
    then show ?thesis using False by (simp add: getkb_def)
  next
    fix b env' s2
    assume s2: "getsblk env ?s1 = Inr (b, env', s2)" "set env' \<subseteq> set env" "kok held (Suc p) own s2" "same own ?s1 s2"
      "\<forall>i<4. nb_kb s2 i \<noteq> Some b" "b \<notin> set (sb_free s2)"
    obtain fs where f: "pool s2 fs" "nb_cntfree s2 = int (length fs)" "set fs \<inter> (own \<union> held s2) = {}"
      "\<And>x. x \<in> own \<union> held s2 \<Longrightarrow> good s2 x" "own \<inter> held s2 = {}" "int (kbs s2) + int (Suc p) \<le> nb_alloc s2" "nb_alloc s2 \<le> 4"
      using s2(3) by (rule kokE) blast
    have "\<exists>i<4. nb_kb s2 i = None"
    proof (rule ccontr)
      assume "\<not> ?thesis"
      then have "{i. i < 4 \<and> nb_kb s2 i \<noteq> None} = {..<4}" by auto
      then show False using f(6,7) by (simp add: kbs_def)
    qed
    then obtain i where fi: "List.find (\<lambda>i. nb_kb s2 i = None) [0..<4] = Some i" and i: "i < 4" "nb_kb s2 i = None"
      by (cases "List.find (\<lambda>i. nb_kb s2 i = None) [0..<4]") (auto simp: find_None_iff find_Some_iff)
    let ?s3 = "s2\<lparr>nb_freect := (nb_freect s2)(b := 0), nb_kb := (nb_kb s2)(i := Some b)\<rparr>"
    have g3: "good s2 x \<Longrightarrow> good ?s3 x \<and> kb_of x \<noteq> i" for x
      using i(2) by (auto simp: good_def split: option.splits)
    have p3: "pool ?s3 fs"
      unfolding pool_def
    proof (intro conjI ballI allI impI)
      show "msgq (qlink ?s3) (nb_freel ?s3) fs" using poolD(1) [OF f(1)] by simp
      show "good ?s3 x" if "x \<in> set fs" for x using g3 poolD(2) [OF f(1) that] by simp
      show "b_resv (nb_buf ?s3 x) = of_nat (kb_of x)" if "x \<in> set fs" for x using poolD(3) [OF f(1) that] by simp
      show "sysbufs ?s3" using poolD(4) [OF f(1)] s2(5,6) unfolding sysbufs_def by auto
      show "nb_freect ?s3 c = int (card {x \<in> set fs. kb_of x = j})" if j: "j < 4" "nb_kb ?s3 j = Some c" for j c
      proof (cases "j = i")
        case True
        then have "{x \<in> set fs. kb_of x = j} = {}" using g3 poolD(2) [OF f(1)] by auto
        then show ?thesis using True j by simp
      next
        case False
        then have c: "nb_kb s2 j = Some c" using j by simp
        then have "c \<noteq> b" using s2(5) j(1) by auto
        then show ?thesis using poolD(6) [OF f(1) j(1) c] by simp
      qed
    qed
    have new: "bufhead i j \<notin> set fs" "bufhead i j \<notin> own \<union> held s2" if "j < 8" for j
      using g3 [of "bufhead i j"] poolD(2) [OF f(1), of "bufhead i j"] f(4) [of "bufhead i j"] that by auto
    obtain s4 where s4: "carve i b [0..<8] ?s3 = Inr s4" "pool s4 (fs @ map (bufhead i) [0..<8])"
        "nk.more s4 = nk.more ?s3" "nb_mem s4 = nb_mem ?s3" "nb_kb s4 = nb_kb ?s3" "nb_alloc s4 = nb_alloc ?s3"
        "sb_paddr s4 = sb_paddr ?s3" "nb_cntfree s4 = nb_cntfree ?s3"
        "\<forall>x. x \<notin> set fs \<union> bufhead i ` set [0..<8] \<longrightarrow> nb_buf s4 x = nb_buf ?s3 x"
      using carve_pool [OF p3 i(1), of b "[0..<8]"] new(1) by auto
    let ?s5 = "s4\<lparr>nb_cntfree := nb_cntfree s4 + 8\<rparr>"
    have run: "getkb env s = Inr (-1, env', ?s5)"
      using False s2(1) fi s4(1) by (simp add: getkb_def)
    have b5: "nb_buf ?s5 x = nb_buf s2 x" if "x \<in> own \<union> held s2" for x
    proof -
      have "x \<notin> bufhead i ` set [0..<8]" using new(2) that by auto
      then show ?thesis using s4(9) f(3) that by auto
    qed
    have "same (own \<union> held s2) s2 ?s5" by (rule sameI) (use b5 s4(4) in auto)
    then have sm: "same own s2 ?s5" "same (held s2) s2 ?s5" by (simp_all add: same_Un)
    have h: "held ?s5 = held s2" by (rule held_local [OF _ sm(2)]) (use s4(3) in simp)
    have "pool ?s5 (fs @ map (bufhead i) [0..<8])"
      by (rule pool_quiet [OF s4(2), of "{}"]) (simp_all add: quiet_def)
    then have "kok held p own ?s5"
    proof (rule kokI)
      show "nb_cntfree ?s5 = int (length (fs @ map (bufhead i) [0..<8]))" using s4(8) f(2) by simp
      show "set (fs @ map (bufhead i) [0..<8]) \<inter> (own \<union> held ?s5) = {}" using f(3) new(2) h by auto
      show "own \<inter> held ?s5 = {}" using f(5) h by simp
      show "good ?s5 x" if "x \<in> own \<union> held ?s5" for x
      proof -
        have x: "x \<in> own \<union> held s2" using that h by simp
        have "good ?s5 x = good ?s3 x" by (rule good_cong) (use b5 [OF x] s4(5,7) in simp_all)
        then show ?thesis using g3 f(4) [OF x] by simp
      qed
      have "{j. j < 4 \<and> nb_kb ?s5 j \<noteq> None} = insert i {j. j < 4 \<and> nb_kb s2 j \<noteq> None}" using s4(5) i by auto
      then have "kbs ?s5 = Suc (kbs s2)" unfolding kbs_def using i(2) by simp
      then show "int (kbs ?s5) + int p \<le> nb_alloc ?s5" using f(6) s4(6) by simp
      show "nb_alloc ?s5 \<le> 4" using f(7) s4(6) by simp
    qed
    moreover have "same own s ?s5" using same_trans [OF same_trans [OF _ s2(4)] sm(1)] s1 by blast
    ultimately show ?thesis using run s2(2) by blast
  qed
qed

lemma take_free_ok:
  assumes k: "kok held p own s" and n: "nb_freel s \<noteq> 0"
  shows "\<exists>b s'. take_free s = Inr (b, s') \<and> b \<notin> own \<and> kok held p (insert b own) s' \<and> same own s s' \<and>
    qlink s' b = b \<and> b_len (nb_buf s' b) = 0 \<and> b_resv (nb_buf s' b) AND b_raw = 0 \<and>
    b_resv (nb_buf s' b) AND b_eom = 0 \<and> nk.more s' = nk.more s \<and> held s' = held s"
proof -
  obtain fs where f: "pool s fs" "nb_cntfree s = int (length fs)" "set fs \<inter> (own \<union> held s) = {}"
    "\<And>x. x \<in> own \<union> held s \<Longrightarrow> good s x" "own \<inter> held s = {}" "int (kbs s) + int p \<le> nb_alloc s" "nb_alloc s \<le> 4"
    using k by (rule kokE) blast
  obtain x gs where fs: "fs = x # gs" using poolD(1) [OF f(1)] n by (cases fs) auto
  obtain s' where t: "take_free s = Inr (x, s')" "pool s' gs" "quiet (set (x # gs)) s s'" "nb_cntfree s' = nb_cntfree s - 1"
      "qlink s' x = x" "b_len (nb_buf s' x) = 0" "b_resv (nb_buf s' x) = of_nat (kb_of x)"
    using take_free_pool [of s x gs] f(1) fs by blast
  have d: "x \<notin> set gs" using poolD(5) [OF f(1)] fs by simp
  have xo: "x \<notin> own \<union> held s" using f(3) fs by auto
  have b: "nb_buf s' y = nb_buf s y" if "y \<in> own \<union> held s" for y
    by (rule quiet_buf [OF t(3)]) (use that f(3) fs in auto)
  have m: "nk.more s' = nk.more s" "nb_mem s' = nb_mem s" using t(3) by (simp_all add: quiet_def)
  have sm: "same (own \<union> held s) s s'" by (rule sameI [OF m(2)]) (rule b)
  then have h: "held s' = held s" by (intro held_local [OF m(1)]) (simp add: same_Un)
  have gx: "good s x" using poolD(2) [OF f(1)] fs by simp
  have "kok held p (insert x own) s'"
  proof (rule kokI [OF t(2)])
    show "nb_cntfree s' = int (length gs)" using t(4) f(2) fs by simp
    show "set gs \<inter> (insert x own \<union> held s') = {}" using f(3) fs d h by auto
    show "good s' y" if "y \<in> insert x own \<union> held s'" for y
      using that quiet_good [OF t(3)] f(4) gx h by auto
    show "insert x own \<inter> held s' = {}" using f(5) xo h by auto
    show "int (kbs s') + int p \<le> nb_alloc s'" "nb_alloc s' \<le> 4" using f(6,7) t(3) by (simp_all add: quiet_def kbs_def)
  qed
  moreover have "b_resv (nb_buf s' x) AND b_raw = 0 \<and> b_resv (nb_buf s' x) AND b_eom = 0"
  proof -
    have "kb_of x = 0 \<or> kb_of x = 1 \<or> kb_of x = 2 \<or> kb_of x = 3" using good_lt(1) [OF gx] by auto
    then show ?thesis unfolding t(7) by auto
  qed
  ultimately show ?thesis using t xo sm m h by (auto simp: same_Un)
qed

lemma getbuf_ok:
  assumes "kok held p own s" "\<forall>e\<in>set env. rely held e"
  shows "getbuf env s = Inl Asleep \<or> (\<exists>b env' s'. getbuf env s = Inr (b, env', s') \<and> set env' \<subseteq> set env \<and>
    b \<notin> own \<and> kok held p (insert b own) s' \<and> same own s s' \<and> qlink s' b = b \<and> b_len (nb_buf s' b) = 0 \<and>
    b_resv (nb_buf s' b) AND b_raw = 0 \<and> b_resv (nb_buf s' b) AND b_eom = 0)"
  using assms
proof (induction "length env" arbitrary: env s rule: less_induct)
  case less
  note k = less.prems(1) and e = less.prems(2)
  show ?case
  proof (cases "nb_freel s = 0")
    case False
    then have "getbuf env s = kbind (take_free s) (\<lambda>(b, s). Inr (b, env, s))" by (simp add: getbuf.simps)
    then show ?thesis using take_free_ok [OF k False] by auto
  next
    case True
    from getkb_ok [OF k e] show ?thesis
    proof (elim disjE exE conjE)
      assume "getkb env s = Inl Asleep"
      then show ?thesis using True by (simp add: getbuf.simps)
    next
      fix r env1 s1
      assume g: "getkb env s = Inr (r, env1, s1)" "set env1 \<subseteq> set env" "kok held p own s1" "same own s s1"
      show ?thesis
      proof (cases "nb_freel s1 = 0")
        case False
        then have "getbuf env s = kbind (take_free s1) (\<lambda>(b, s). Inr (b, env1, s))"
          using True g(1) by (simp add: getbuf.simps)
        then show ?thesis using take_free_ok [OF g(3) False] g(2) same_trans [OF g(4)] by auto
      next
        case zero: True
        let ?s2 = "s1\<lparr>nb_need := nb_need s1 OR proc_need\<rparr>"
        have s2: "kok held p own ?s2 \<and> same own s1 ?s2 \<and> held ?s2 = held s1"
          by (rule kok_words [OF g(3)]) (use g(3) kok_sysbufs [OF g(3)] in \<open>auto simp: kok_def sysbufs_def\<close>)
        show ?thesis
        proof (cases env1)
          case Nil
          then show ?thesis using True g(1) zero by (simp add: getbuf.simps)
        next
          case (Cons a env2)
          have a: "rely held a" using Cons g(2) e by auto
          have run: "getbuf env s = getbuf env2 (a ?s2)" using True g(1) zero Cons by (simp add: getbuf.simps)
          have len: "length env2 < length env" using getkb_env [OF g(1)] Cons by simp
          have e2: "\<forall>e\<in>set env2. rely held e" using Cons g(2) e by auto
          have ka: "kok held p own (a ?s2)" and sa: "same own ?s2 (a ?s2)" using relyD [OF a] s2 by blast+
          have sm: "same own s (a ?s2)" using same_trans g(4) s2 sa by blast
          show ?thesis using less.hyps [OF len ka e2] run g(2) Cons same_trans [OF sm] by auto
        qed
      qed
    qed
  qed
qed

lemma set_resv_ok:
  assumes "kok held p own s" "x \<in> own" "v AND b_memberof = b_resv (nb_buf s x) AND b_memberof"
  shows "kok held p own (set_resv x v s) \<and> held (set_resv x v s) = held s"
  by (rule kok_quiet [OF assms(1), of "{x}"]) (use assms in \<open>simp_all add: quiet_set_resv, simp_all add: set_resv_def upd_nb_def\<close>)

lemma rawbuf_ok:
  assumes k: "kok held p own s" and e: "\<forall>e\<in>set env. rely held e"
  shows "rawbuf env s = Inl Asleep \<or> (\<exists>b env' s'. rawbuf env s = Inr (b, env', s') \<and> set env' \<subseteq> set env \<and> same own s s' \<and>
    (if b = 0 then kok held p own s'
     else b \<notin> own \<and> kok held p (insert b own) s' \<and> qlink s' b = b \<and> b_len (nb_buf s' b) = 0))"
proof (cases "nb_rbuf s \<ge> rbuf_max")
  case True
  then show ?thesis using k same_refl by (auto simp: rawbuf_def)
next
  case False
  from getbuf_ok [OF k e] show ?thesis
  proof (elim disjE exE conjE)
    assume "getbuf env s = Inl Asleep"
    then show ?thesis using False by (simp add: rawbuf_def)
  next
    fix b env' s1
    assume g: "getbuf env s = Inr (b, env', s1)" "set env' \<subseteq> set env" "b \<notin> own" "kok held p (insert b own) s1"
      "same own s s1" "qlink s1 b = b" "b_len (nb_buf s1 b) = 0"
    have b0: "b \<noteq> 0" using kok_good [OF g(4)] good_lt(2) by auto
    show ?thesis
    proof (cases "nb_rbuf s1 \<ge> rbuf_max")
      case True
      have r: "ring (qlink s1) b [b]" using b0 g(6) by (simp add: ring_single)
      obtain s2 where s2: "freebuf b s1 = Inr (0, s2)" "kok held p (insert b own - {b}) s2" "same (insert b own - {b}) s1 s2"
        using freebuf_ok [OF g(4) r] by auto
      have e: "insert b own - {b} = own" using g(3) by auto
      have "rawbuf env s = Inr (0, env', s2)" using False g(1) b0 True s2(1) by (simp add: rawbuf_def)
      then show ?thesis using g(2) s2(2,3) e same_trans [OF g(5)] by auto
    next
      case room: False
      let ?s1 = "s1\<lparr>nb_rbuf := nb_rbuf s1 + 1\<rparr>"
      let ?s2 = "set_resv b (b_resv (nb_buf s1 b) OR b_raw) ?s1"
      have k1: "kok held p (insert b own) ?s1 \<and> same (insert b own) s1 ?s1 \<and> held ?s1 = held s1"
        by (rule kok_words [OF g(4)]) (use g(4) kok_sysbufs [OF g(4)] in \<open>auto simp: kok_def sysbufs_def\<close>)
      have "kok held p (insert b own) ?s2 \<and> held ?s2 = held ?s1"
        by (rule set_resv_ok [OF conjunct1 [OF k1]]) (simp_all add: bit.conj_disj_distrib2)
      moreover have "same own ?s1 ?s2" by (rule sameI) (use g(3) in \<open>auto simp: set_resv_def upd_nb_def\<close>)
      moreover have "qlink ?s2 b = b" "b_len (nb_buf ?s2 b) = 0" using g(6,7) by (simp_all add: set_resv_def upd_nb_def)
      moreover have "rawbuf env s = Inr (b, env', ?s2)" using False g(1) b0 room by (simp add: rawbuf_def)
      moreover have "same own s ?s1" using g(5) k1 same_mono [of "insert b own"] same_trans by blast
      ultimately show ?thesis using g(2,3) same_trans by (auto simp: b0)
    qed
  qed
qed

end

end
