(* ===== verification/Ncp_Stream.thy ===== *)
theory Ncp_Stream
  imports Ncp_Alloc
begin

text \<open>
  Messages as byte strings: appending (vectomsg) writes at the end, taking out (bytesout) removes
  from the front, joining (catmsg) concatenates.  All buffers stay accounted for.
\<close>

section \<open>Bytes of a message\<close>

definition cell :: "'a nk_scheme \<Rightarrow> nat \<Rightarrow> byte list" where
  "cell s x = fb_bytes (b_loc (nb_buf s x)) 0 (nat (b_len (nb_buf s x))) s"

definition nb_bytes :: "'a nk_scheme \<Rightarrow> nat list \<Rightarrow> byte list" where
  "nb_bytes s xs = concat (map (cell s) xs)"

definition message :: "'a nk_scheme \<Rightarrow> nat \<Rightarrow> nat list \<Rightarrow> bool" where
  "message s m xs \<longleftrightarrow> msgq (qlink s) m xs \<and> (\<forall>x\<in>set xs. 0 \<le> b_len (nb_buf s x) \<and> b_len (nb_buf s x) \<le> 64)"

text \<open>Every buffer but the last one is full.\<close>

definition full :: "'a nk_scheme \<Rightarrow> nat list \<Rightarrow> bool" where
  "full s xs \<longleftrightarrow> (\<forall>x\<in>set (butlast xs). b_len (nb_buf s x) = 64)"

text \<open>No buffer is marked as the last one of a message.\<close>

definition plain :: "'a nk_scheme \<Rightarrow> nat list \<Rightarrow> bool" where
  "plain s xs \<longleftrightarrow> (\<forall>x\<in>set xs. b_resv (nb_buf s x) AND b_eom = 0)"

lemma nb_bytes_simps [simp]: "nb_bytes s [] = []" "nb_bytes s (x # xs) = cell s x @ nb_bytes s xs"
  "nb_bytes s (xs @ ys) = nb_bytes s xs @ nb_bytes s ys"
  by (simp_all add: nb_bytes_def)

lemma length_cell: "length (cell s x) = nat (b_len (nb_buf s x))"
  by (simp add: cell_def fb_bytes_def)

lemma fb_bytes_cong: "(\<And>i. d \<le> i \<Longrightarrow> i < d + n \<Longrightarrow> fbbyte loc i s' = fbbyte loc i s) \<Longrightarrow> fb_bytes loc d n s' = fb_bytes loc d n s"
  by (simp add: fb_bytes_def)

lemma samedata_cell:
  assumes "samedata F s s'" "x \<in> F" "b_len (nb_buf s x) \<le> 64"
  shows "cell s' x = cell s x"
proof -
  have "fb_bytes (b_loc (nb_buf s x)) 0 (nat (b_len (nb_buf s x))) s' = fb_bytes (b_loc (nb_buf s x)) 0 (nat (b_len (nb_buf s x))) s"
    by (rule fb_bytes_cong) (use assms in \<open>auto simp: samedata_def\<close>)
  then show ?thesis using assms(1,2) by (simp add: cell_def samedata_def)
qed

lemma samedata_bytes:
  assumes "samedata F s s'" "set xs \<subseteq> F" "\<forall>x\<in>set xs. b_len (nb_buf s x) \<le> 64"
  shows "nb_bytes s' xs = nb_bytes s xs"
  using assms(2,3) samedata_cell [OF assms(1)] by (induction xs) auto

lemma same_message: "same F s s' \<Longrightarrow> set xs \<subseteq> F \<Longrightarrow> message s m xs \<Longrightarrow> message s' m xs \<and> nb_bytes s' xs = nb_bytes s xs"
  using samedata_bytes [OF same_samedata, of F s s' xs] same_msgq [of F s s' xs m]
  by (auto simp: message_def dest: same_buf)

lemma message_distinct: "message s m xs \<Longrightarrow> distinct xs \<and> 0 \<notin> set xs"
  by (auto simp: message_def dest: msgq_distinct)

lemma message_len: "message s m xs \<Longrightarrow> x \<in> set xs \<Longrightarrow> 0 \<le> b_len (nb_buf s x) \<and> b_len (nb_buf s x) \<le> 64"
  by (simp add: message_def)

lemma message_zero [simp]: "message s 0 xs \<longleftrightarrow> xs = []" "message s m [] \<longleftrightarrow> m = 0"
  by (auto simp: message_def)

lemma message_ring: "m \<noteq> 0 \<Longrightarrow> message s m xs \<Longrightarrow> ring (qlink s) m xs"
  by (simp add: message_def msgq_ring)

section \<open>Writing into one buffer\<close>

text \<open>Only the header of \<open>b\<close> and the bytes of its block change.\<close>

definition touched :: "nat \<Rightarrow> 'a nk_scheme \<Rightarrow> 'a nk_scheme \<Rightarrow> bool" where
  "touched b s s' \<longleftrightarrow> nk.more s' = nk.more s \<and> nb_kb s' = nb_kb s \<and> nb_alloc s' = nb_alloc s \<and> nb_freel s' = nb_freel s \<and>
     nb_freect s' = nb_freect s \<and> nb_cntfree s' = nb_cntfree s \<and> sb_free s' = sb_free s \<and> sb_paddr s' = sb_paddr s \<and>
     (\<forall>x. x \<noteq> b \<longrightarrow> nb_buf s' x = nb_buf s x) \<and> b_loc (nb_buf s' b) = b_loc (nb_buf s b) \<and>
     b_resv (nb_buf s' b) = b_resv (nb_buf s b) \<and> qlink s' b = qlink s b \<and>
     (\<forall>a. a div 64 \<noteq> b_loc (nb_buf s b) \<longrightarrow> nb_mem s' a = nb_mem s a)"

lemma touched_refl: "touched b s s"
  by (simp add: touched_def)

lemma touched_trans: "touched b s s' \<Longrightarrow> touched b s' s'' \<Longrightarrow> touched b s s''"
  by (simp add: touched_def)

lemma touched_set_len: "touched b s (set_len b n s)"
  by (simp add: touched_def set_len_def upd_nb_def)

lemma touched_sbbyte: "d < 64 \<Longrightarrow> loc = b_loc (nb_buf s b) \<Longrightarrow> touched b s (sbbyte loc d c s)"
  by (auto simp: touched_def sbbyte_def)

lemma touched_link: "touched b s s' \<Longrightarrow> qlink s' = qlink s"
  by (rule ext) (metis touched_def)

lemma touched_fbbyte:
  "touched b s s' \<Longrightarrow> loc \<noteq> b_loc (nb_buf s b) \<Longrightarrow> d < 64 \<Longrightarrow> fbbyte loc d s' = fbbyte loc d s"
  by (simp add: touched_def fbbyte_def)

lemma touched_good: "touched b s s' \<Longrightarrow> good s' x = good s x"
  unfolding touched_def good_def by (cases "x = b") (simp_all cong: option.case_cong)

section \<open>Byte copies\<close>

lemma fbbyte_sbbyte: "d < 64 \<Longrightarrow> e < 64 \<Longrightarrow> fbbyte loc e (sbbyte loc d c s) = (if e = d then c else fbbyte loc e s)"
  by (simp add: fbbyte_def sbbyte_def)

lemma nb_buf_sbbyte [simp]: "nb_buf (sbbyte loc d c s) = nb_buf s"
  by (simp add: sbbyte_def)

lemma sb_bytes_touched:
  "d + length cs \<le> 64 \<Longrightarrow> loc = b_loc (nb_buf s b) \<Longrightarrow> touched b s (sb_bytes loc d cs s) \<and>
    nb_buf (sb_bytes loc d cs s) = nb_buf s \<and>
    (\<forall>e<64. fbbyte loc e (sb_bytes loc d cs s) = (if d \<le> e \<and> e < d + length cs then cs ! (e - d) else fbbyte loc e s))"
proof (induction cs arbitrary: d s)
  case (Cons c cs)
  let ?s1 = "sbbyte loc d c s"
  have ih: "touched b ?s1 (sb_bytes loc (Suc d) cs ?s1) \<and> nb_buf (sb_bytes loc (Suc d) cs ?s1) = nb_buf ?s1 \<and>
     (\<forall>e<64. fbbyte loc e (sb_bytes loc (Suc d) cs ?s1) =
       (if Suc d \<le> e \<and> e < Suc d + length cs then cs ! (e - Suc d) else fbbyte loc e ?s1))"
    using Cons.prems by (intro Cons.IH) simp_all
  have "touched b s ?s1" using Cons.prems by (intro touched_sbbyte) simp_all
  then have "touched b s (sb_bytes loc (Suc d) cs ?s1)" using ih touched_trans by blast
  moreover have "fbbyte loc e (sb_bytes loc (Suc d) cs ?s1) =
      (if d \<le> e \<and> e < d + Suc (length cs) then (c # cs) ! (e - d) else fbbyte loc e s)" if "e < 64" for e
    using ih that Cons.prems(1) fbbyte_sbbyte [of d e loc c s] by (auto simp: nth_Cons' not_less_eq_eq Suc_diff_Suc)
  ultimately show ?case using ih by simp
qed (auto simp: touched_refl)

lemma sb_shift_touched:
  "off + n \<le> d + n \<Longrightarrow> d + n \<le> 64 \<Longrightarrow> loc = b_loc (nb_buf s b) \<Longrightarrow> touched b s (sb_shift loc off d n s) \<and>
    nb_buf (sb_shift loc off d n s) = nb_buf s \<and>
    (\<forall>e<64. fbbyte loc e (sb_shift loc off d n s) =
       (if off \<le> e \<and> e < off + n then fbbyte loc (e - off + d) s else fbbyte loc e s))"
proof (induction n arbitrary: off d s)
  case (Suc n)
  let ?s1 = "sbbyte loc off (fbbyte loc d s) s"
  have ih: "touched b ?s1 (sb_shift loc (Suc off) (Suc d) n ?s1) \<and> nb_buf (sb_shift loc (Suc off) (Suc d) n ?s1) = nb_buf ?s1 \<and>
     (\<forall>e<64. fbbyte loc e (sb_shift loc (Suc off) (Suc d) n ?s1) =
       (if Suc off \<le> e \<and> e < Suc off + n then fbbyte loc (e - Suc off + Suc d) ?s1 else fbbyte loc e ?s1))"
    using Suc.prems by (intro Suc.IH) simp_all
  have t: "touched b s ?s1" using Suc.prems by (intro touched_sbbyte) simp_all
  have "fbbyte loc e (sb_shift loc (Suc off) (Suc d) n ?s1) =
      (if off \<le> e \<and> e < off + Suc n then fbbyte loc (e - off + d) s else fbbyte loc e s)" if e: "e < 64" for e
  proof (cases "Suc off \<le> e \<and> e < Suc off + n")
    case True
    then have "e - Suc off + Suc d < 64" "e - Suc off + Suc d \<noteq> off" "e - Suc off + Suc d = e - off + d"
      using Suc.prems by auto
    then show ?thesis using ih e True fbbyte_sbbyte [of off "e - Suc off + Suc d" loc "fbbyte loc d s" s] Suc.prems by auto
  next
    case False
    then show ?thesis using ih e fbbyte_sbbyte [of off e loc "fbbyte loc d s" s] Suc.prems by auto
  qed
  then show ?case using ih touched_trans [OF t] by simp
qed (auto simp: touched_refl)

lemma cat_copy_touched:
  assumes "q \<noteq> m" "b_loc (nb_buf s q) \<noteq> b_loc (nb_buf s m)" "0 \<le> b_len (nb_buf s m)"
    "b_len (nb_buf s m) + int n \<le> 64" "p + n \<le> 64"
  shows "touched m s (cat_copy m q p n s) \<and> b_len (nb_buf (cat_copy m q p n s) m) = b_len (nb_buf s m) + int n \<and>
    (\<forall>e<64. fbbyte (b_loc (nb_buf s m)) e (cat_copy m q p n s) =
       (if nat (b_len (nb_buf s m)) \<le> e \<and> e < nat (b_len (nb_buf s m)) + n
        then fbbyte (b_loc (nb_buf s q)) (e - nat (b_len (nb_buf s m)) + p) s
        else fbbyte (b_loc (nb_buf s m)) e s))"
  using assms
proof (induction n arbitrary: p s)
  case 0
  then show ?case by (auto simp: touched_refl)
next
  case (Suc n)
  let ?l = "b_len (nb_buf s m)"
  let ?c = "fbbyte (b_loc (nb_buf s q)) p s"
  let ?s1 = "sbbyte (b_loc (nb_buf s m)) (nat ?l) ?c (set_len m (?l + 1) s)"
  have b1: "nb_buf (set_len m (?l + 1) s) x = (if x = m then (nb_buf s m)\<lparr>b_len := ?l + 1\<rparr> else nb_buf s x)" for x
    using Suc.prems by (simp add: set_len_def upd_nb_def schar_def)
  have fb: "fbbyte l e (set_len m (?l + 1) s) = fbbyte l e s" for l e by (simp add: fbbyte_def set_len_def upd_nb_def)
  have t1: "touched m s ?s1"
    by (rule touched_trans [OF touched_set_len touched_sbbyte]) (use Suc.prems in \<open>simp_all add: set_len_def upd_nb_def\<close>)
  have f1: "fbbyte (b_loc (nb_buf s m)) e ?s1 = (if e = nat ?l then ?c else fbbyte (b_loc (nb_buf s m)) e s)" if "e < 64" for e
  proof -
    have nl: "nat ?l < 64" using Suc.prems by simp
    show ?thesis using fb by (simp add: fbbyte_sbbyte [OF nl that])
  qed
  have fq: "fbbyte (b_loc (nb_buf s q)) e ?s1 = fbbyte (b_loc (nb_buf s q)) e s" if "e < 64" for e
    by (rule touched_fbbyte [OF t1]) (use that Suc.prems in auto)
  have step: "cat_copy m q p (Suc n) s = cat_copy m q (Suc p) n ?s1" by (simp add: Let_def)
  have ih: "touched m ?s1 (cat_copy m q (Suc p) n ?s1) \<and>
    b_len (nb_buf (cat_copy m q (Suc p) n ?s1) m) = b_len (nb_buf ?s1 m) + int n \<and>
    (\<forall>e<64. fbbyte (b_loc (nb_buf ?s1 m)) e (cat_copy m q (Suc p) n ?s1) =
       (if nat (b_len (nb_buf ?s1 m)) \<le> e \<and> e < nat (b_len (nb_buf ?s1 m)) + n
        then fbbyte (b_loc (nb_buf ?s1 q)) (e - nat (b_len (nb_buf ?s1 m)) + Suc p) ?s1
        else fbbyte (b_loc (nb_buf ?s1 m)) e ?s1))"
    by (rule Suc.IH) (use Suc.prems b1 in \<open>simp_all\<close>)
  have n1: "nat (b_len (nb_buf ?s1 m)) = Suc (nat ?l)" using Suc.prems by (simp add: b1)
  have lm: "b_loc (nb_buf ?s1 m) = b_loc (nb_buf s m)" "b_loc (nb_buf ?s1 q) = b_loc (nb_buf s q)" using Suc.prems b1 by auto
  have "fbbyte (b_loc (nb_buf s m)) e (cat_copy m q (Suc p) n ?s1) =
       (if nat ?l \<le> e \<and> e < nat ?l + Suc n then fbbyte (b_loc (nb_buf s q)) (e - nat ?l + p) s
        else fbbyte (b_loc (nb_buf s m)) e s)" if e: "e < 64" for e
  proof -
    have r: "fbbyte (b_loc (nb_buf s m)) e (cat_copy m q (Suc p) n ?s1) =
       (if Suc (nat ?l) \<le> e \<and> e < Suc (nat ?l) + n
        then fbbyte (b_loc (nb_buf s q)) (e - Suc (nat ?l) + Suc p) ?s1 else fbbyte (b_loc (nb_buf s m)) e ?s1)"
      using ih e unfolding lm n1 by blast
    show ?thesis
    proof (cases "Suc (nat ?l) \<le> e \<and> e < Suc (nat ?l) + n")
      case True
      then have "e - Suc (nat ?l) + Suc p = e - nat ?l + p" "e - nat ?l + p < 64" using Suc.prems by auto
      then show ?thesis unfolding r using True fq by auto
    next
      case False
      then show ?thesis unfolding r using f1 [OF e] by auto
    qed
  qed
  then show ?case unfolding step using ih touched_trans [OF t1] b1 by simp
qed

section \<open>Messages of one process\<close>

context buffer_users begin

lemma kok_touched:
  assumes k: "kok held p own s" and b: "b \<in> own" and t: "touched b s s'"
  shows "kok held p own s' \<and> same (own - {b}) s s' \<and> held s' = held s"
proof -
  obtain fs where f: "pool s fs" "nb_cntfree s = int (length fs)" "set fs \<inter> (own \<union> held s) = {}"
    "\<And>x. x \<in> own \<union> held s \<Longrightarrow> good s x" "own \<inter> held s = {}" "int (kbs s) + int p \<le> nb_alloc s" "nb_alloc s \<le> 4"
    using k by (rule kokE) blast
  note td = t [unfolded touched_def]
  have sb: "sysbufs s" by (rule poolD(4) [OF f(1)])
  have sm: "same (own \<union> held s - {b}) s s'"
    unfolding same_def
  proof (intro ballI conjI allI impI)
    fix x assume x: "x \<in> own \<union> held s - {b}"
    show "nb_buf s' x = nb_buf s x" using td x by simp
    have "b_loc (nb_buf s x) \<noteq> b_loc (nb_buf s b)" using good_loc [OF sb, of x b] f(4) [of x] f(4) [of b] x b by auto
    then show "fbbyte (b_loc (nb_buf s x)) d s' = fbbyte (b_loc (nb_buf s x)) d s" if "d < 64" for d
      using touched_fbbyte [OF t] that by blast
  qed
  have "held s \<subseteq> own \<union> held s - {b}" using f(5) b by auto
  then have h: "held s' = held s" using td by (intro held_local same_mono [OF sm]) simp
  have "sysbufs s'" by (rule sysbufs_sub [OF sb]) (use td sb in \<open>simp_all add: sysbufs_def\<close>)
  moreover have "nb_buf s' x = nb_buf s x" if "x \<in> set fs" for x using td that f(3) b by auto
  ultimately have "pool s' fs" by (intro pool_cong [OF f(1)]) (use td in simp_all)
  then have "kok held p own s'"
    by (rule kokI) (use f td h touched_good [OF t] in \<open>auto simp: kbs_def\<close>)
  moreover have "same (own - {b}) s s'" by (rule same_mono [OF sm]) auto
  ultimately show ?thesis using h by simp
qed

end

context buffer_users begin

lemma appendb_ok:
  assumes k: "kok held p own s" and m: "message s m xs" and o: "set xs \<subseteq> own" and e: "\<forall>e\<in>set env. rely held e"
  shows "appendb m env s = Inl Asleep \<or> (\<exists>q env' s'. appendb m env s = Inr (q, env', s') \<and> set env' \<subseteq> set env \<and>
    (if q = 0 then m \<noteq> 0 \<and> b_resv (nb_buf s m) AND b_raw \<noteq> 0 \<and> kok held p own s' \<and> same own s s'
     else \<exists>ys. message s' q (xs @ ys) \<and> set ys \<inter> own = {} \<and> kok held p (own \<union> set ys) s' \<and>
       nb_bytes s' (xs @ ys) = nb_bytes s xs \<and> same (own - set xs) s s' \<and> b_len (nb_buf s' q) < 64 \<and>
       (m = 0 \<or> b_resv (nb_buf s m) AND b_raw = 0 \<longrightarrow> b_resv (nb_buf s' q) AND b_raw = 0 \<and> (plain s xs \<longrightarrow> plain s' (xs @ ys))) \<and>
       (full s xs \<longrightarrow> full s' (xs @ ys))))"
proof (cases "m \<noteq> 0 \<and> b_len (nb_buf s m) < 64")
  case True
  then have "appendb m env s = Inr (m, env, s)" by (simp add: appendb_def)
  moreover have "message s m (xs @ []) \<and> set [] \<inter> own = {} \<and> kok held p (own \<union> set []) s \<and>
       nb_bytes s (xs @ []) = nb_bytes s xs \<and> same (own - set xs) s s" using k m same_refl by simp
  ultimately show ?thesis using True by (auto intro!: exI [of _ "[]"])
next
  case False
  let ?raw = "m \<noteq> 0 \<and> b_resv (nb_buf s m) AND b_raw \<noteq> 0"
  let ?get = "if ?raw then rawbuf env s else getbuf env s"
  have a: "appendb m env s = kbind ?get (\<lambda>(bp, env, s). if bp = 0 then Inr (0, env, s)
           else (let (p, s) = linkbuf bp m s in Inr (p, env, s)))" using False by (auto simp: appendb_def)
  have g: "?get = Inl Asleep \<or> (\<exists>b env' s'. ?get = Inr (b, env', s') \<and> set env' \<subseteq> set env \<and> same own s s' \<and>
      (if b = 0 then ?raw \<and> kok held p own s' else b \<notin> own \<and> kok held p (insert b own) s' \<and> qlink s' b = b \<and>
         b_len (nb_buf s' b) = 0 \<and> (\<not> ?raw \<longrightarrow> b_resv (nb_buf s' b) AND b_raw = 0 \<and> b_resv (nb_buf s' b) AND b_eom = 0)))"
  proof (cases ?raw)
    case True
    then show ?thesis using rawbuf_ok [OF k e] by (elim disjE exE conjE) auto
  next
    case nraw: False
    have "b \<noteq> 0" if "kok held p (insert b own) s'" for b s' using kok_good [OF that] good_lt(2) by auto
    then show ?thesis using nraw getbuf_ok [OF k e] by (elim disjE exE conjE) auto
  qed
  then show ?thesis
  proof (elim disjE exE conjE)
    assume "?get = Inl Asleep"
    then show ?thesis unfolding a by simp
  next
    fix b env' s1
    assume b: "?get = Inr (b, env', s1)" "set env' \<subseteq> set env" "same own s s1"
      and r: "if b = 0 then ?raw \<and> kok held p own s1 else b \<notin> own \<and> kok held p (insert b own) s1 \<and> qlink s1 b = b \<and>
         b_len (nb_buf s1 b) = 0 \<and> (\<not> ?raw \<longrightarrow> b_resv (nb_buf s1 b) AND b_raw = 0 \<and> b_resv (nb_buf s1 b) AND b_eom = 0)"
    show ?thesis
    proof (cases "b = 0")
      case True
      then have "appendb m env s = Inr (0, env', s1)" unfolding a b(1) by simp
      then show ?thesis using True r b(2,3) by auto
    next
      case b0: False
      then have nb: "b \<notin> own" "kok held p (insert b own) s1" "b_len (nb_buf s1 b) = 0"
        "\<not> ?raw \<longrightarrow> b_resv (nb_buf s1 b) AND b_raw = 0 \<and> b_resv (nb_buf s1 b) AND b_eom = 0" using r by auto
      have m1: "message s1 m xs" "nb_bytes s1 xs = nb_bytes s xs" using same_message [OF b(3) o m] by auto
      obtain s2 where s2: "linkbuf b m s1 = (b, s2)" "linked (insert b (set xs)) s1 s2" "ring (qlink s2) b (xs @ [b])"
        using linkbuf_ring [of s1 m xs b] m1(1) nb(1) o b0 by (auto simp: message_def)
      have run: "appendb m env s = Inr (b, env', s2)" unfolding a b(1) using b0 s2(1) by simp
      have k2: "kok held p (insert b own) s2 \<and> held s2 = held s1"
        by (rule kok_quiet [OF nb(2) quiet_linked [OF s2(2)]]) (use o s2(2) in \<open>auto simp: linkedD\<close>)
      have sd: "samedata F s1 s2" for F by (rule samedataI) (simp_all add: linkedD [OF s2(2)])
      have l2: "b_len (nb_buf s2 x) = b_len (nb_buf s1 x)" for x by (simp add: linkedD [OF s2(2)])
      have "same (own - set xs) s1 s2"
      proof (rule sameI)
        show "nb_mem s2 = nb_mem s1" by (rule linkedD(2) [OF s2(2)])
        show "nb_buf s2 x = nb_buf s1 x" if "x \<in> own - set xs" for x
          by (rule linkedD(16) [OF s2(2)]) (use that nb(1) in auto)
      qed
      then have sm: "same (own - set xs) s s2" using same_trans [OF same_mono [OF b(3)]] by blast
      have ms: "message s2 b (xs @ [b])" using ring_msgq [OF s2(3)] m1(1) nb(3) by (auto simp: message_def l2)
      have by2: "nb_bytes s2 (xs @ [b]) = nb_bytes s xs"
        using samedata_bytes [OF sd [of "set xs"]] m1 l2 nb(3) message_len [OF m1(1)]
        by (simp add: cell_def fb_bytes_def)
      have fl: "full s2 (xs @ [b])" if "full s xs"
      proof -
        have "b_len (nb_buf s x) = 64" if x: "x \<in> set xs" for x
        proof (cases "x = m")
          case True
          then show ?thesis using False message_len [OF m x] message_distinct [OF m] x by force
        next
          case nm: False
          have "m \<noteq> 0" using x m by (cases "m = 0") auto
          then have "m = last xs" using message_ring [OF _ m] by (simp add: ring_def)
          then have "x \<in> set (butlast xs)" using x nm by (metis append_butlast_last_id empty_iff empty_set in_set_conv_decomp
              rotate1.simps(2) set_ConsD set_rotate1)
          then show ?thesis using \<open>full s xs\<close> by (simp add: full_def)
        qed
        then show ?thesis using same_buf [OF b(3)] o l2 by (auto simp: full_def)
      qed
      have pl: "plain s2 (xs @ [b])" if "plain s xs" "\<not> ?raw"
      proof -
        have "b_resv (nb_buf s2 x) = b_resv (nb_buf s x)" if "x \<in> set xs" for x
          using same_buf [OF b(3)] that o linkedD(14) [OF s2(2)] by auto
        then show ?thesis using that nb(4) linkedD(14) [OF s2(2)] by (auto simp: plain_def)
      qed
      have "b_resv (nb_buf s2 b) = b_resv (nb_buf s1 b)" by (simp add: linkedD [OF s2(2)])
      then have "message s2 b (xs @ [b]) \<and> set [b] \<inter> own = {} \<and> kok held p (own \<union> set [b]) s2 \<and>
        nb_bytes s2 (xs @ [b]) = nb_bytes s xs \<and> same (own - set xs) s s2 \<and> b_len (nb_buf s2 b) < 64 \<and>
        (m = 0 \<or> b_resv (nb_buf s m) AND b_raw = 0 \<longrightarrow> b_resv (nb_buf s2 b) AND b_raw = 0 \<and> (plain s xs \<longrightarrow> plain s2 (xs @ [b]))) \<and>
        (full s xs \<longrightarrow> full s2 (xs @ [b]))"
        using ms nb by2 sm fl k2 l2 pl by auto
      then show ?thesis using run b(2) b0 by auto
    qed
  qed
qed

text \<open>Writing a chunk at the end of the last buffer.\<close>

lemma put_ok:
  assumes k: "kok held p own s" and m: "message s q zs" and q: "q \<noteq> 0" and o: "set zs \<subseteq> own"
    and n: "b_len (nb_buf s q) + int (length cs) \<le> 64"
  defines "s' \<equiv> sb_bytes (b_loc (nb_buf s q)) (nat (b_len (nb_buf s q))) cs (set_len q (b_len (nb_buf s q) + int (length cs)) s)"
  shows "message s' q zs \<and> kok held p own s' \<and> same (own - set zs) s s' \<and> nb_bytes s' zs = nb_bytes s zs @ cs \<and>
    b_resv (nb_buf s' q) = b_resv (nb_buf s q) \<and> (full s zs \<longrightarrow> full s' zs) \<and> (plain s zs \<longrightarrow> plain s' zs) \<and>
    b_len (nb_buf s' q) = b_len (nb_buf s q) + int (length cs) \<and> held s' = held s"
proof -
  let ?d = "b_len (nb_buf s q)"
  let ?s1 = "set_len q (?d + int (length cs)) s"
  have r: "ring (qlink s) q zs" by (rule message_ring [OF q m])
  have qz: "q \<in> set zs" and ql: "q = last zs" using r by (auto simp: ring_def)
  have d: "0 \<le> ?d" "?d \<le> 64" using message_len [OF m qz] by auto
  have b1: "nb_buf ?s1 x = (if x = q then (nb_buf s q)\<lparr>b_len := ?d + int (length cs)\<rparr> else nb_buf s x)" for x
    using d n by (simp add: set_len_def upd_nb_def schar_def)
  have t1: "touched q s ?s1" by (rule touched_set_len)
  have nd: "nat ?d + length cs \<le> 64" using d n by simp
  have sb: "touched q ?s1 s' \<and> nb_buf s' = nb_buf ?s1 \<and>
    (\<forall>e<64. fbbyte (b_loc (nb_buf s q)) e s' = (if nat ?d \<le> e \<and> e < nat ?d + length cs then cs ! (e - nat ?d)
       else fbbyte (b_loc (nb_buf s q)) e ?s1))"
    unfolding s'_def by (rule sb_bytes_touched [OF nd]) (simp add: b1)
  have t: "touched q s s'" by (rule touched_trans [OF t1 conjunct1 [OF sb]])
  have k': "kok held p own s' \<and> same (own - {q}) s s' \<and> held s' = held s"
    by (rule kok_touched [OF k _ t]) (use qz o in auto)
  have bq: "nb_buf s' x = (if x = q then (nb_buf s q)\<lparr>b_len := ?d + int (length cs)\<rparr> else nb_buf s x)" for x
    using sb b1 by simp
  have cq: "cell s' q = cell s q @ cs"
  proof (rule nth_equalityI)
    show "length (cell s' q) = length (cell s q @ cs)" using d by (simp add: length_cell bq nat_add_distrib)
    fix i assume i: "i < length (cell s' q)"
    then have i64: "i < 64" "i < nat ?d + length cs" using d n by (simp_all add: length_cell bq)
    have "cell s' q ! i = fbbyte (b_loc (nb_buf s q)) i s'" using i by (simp add: cell_def fb_bytes_def bq)
    also have "\<dots> = (if nat ?d \<le> i then cs ! (i - nat ?d) else fbbyte (b_loc (nb_buf s q)) i s)"
      using sb i64 by (simp add: fbbyte_def set_len_def upd_nb_def)
    also have "\<dots> = (cell s q @ cs) ! i"
      by (simp add: nth_append length_cell) (simp add: cell_def fb_bytes_def)
    finally show "cell s' q ! i = (cell s q @ cs) ! i" .
  qed
  obtain us where us: "zs = us @ [q]" using r ql by (metis append_butlast_last_id ring_def)
  have qu: "q \<notin> set us" using r us by (simp add: ring_def)
  have "nb_bytes s' us = nb_bytes s us"
    by (rule samedata_bytes [OF same_samedata [OF conjunct1 [OF conjunct2 [OF k']]]])
      (use us qu o message_len [OF m] in auto)
  then have by': "nb_bytes s' zs = nb_bytes s zs @ cs" using cq us by simp
  have "message s' q zs" using m touched_link [OF t] d n by (auto simp: message_def bq)
  moreover have "same (own - set zs) s s'" by (rule same_mono [of "own - {q}"]) (use k' qz in auto)
  moreover have "full s' zs" if "full s zs" using that us qu by (auto simp: full_def bq)
  moreover have "plain s' zs" if "plain s zs" using that by (auto simp: plain_def bq)
  ultimately show ?thesis using k' by' by (simp add: bq)
qed

lemma vectomsg_ok:
  assumes "kok held p own s" "message s m xs" "set xs \<subseteq> own" "\<forall>e\<in>set env. rely held e"
  shows "vectomsg vec m env s = Inl Asleep \<or> (\<exists>left m' env' s' ys. vectomsg vec m env s = Inr (left, m', env', s') \<and>
    set env' \<subseteq> set env \<and> message s' m' (xs @ ys) \<and> set ys \<inter> own = {} \<and> kok held p (own \<union> set ys) s' \<and>
    left \<le> length vec \<and> nb_bytes s' (xs @ ys) = nb_bytes s xs @ take (length vec - left) vec \<and> same (own - set xs) s s' \<and>
    (m = 0 \<or> b_resv (nb_buf s m) AND b_raw = 0 \<longrightarrow> left = 0 \<and> (m' = 0 \<or> b_resv (nb_buf s' m') AND b_raw = 0) \<and>
       (vec \<noteq> [] \<longrightarrow> m' \<noteq> 0 \<and> 0 < b_len (nb_buf s' m')) \<and> (plain s xs \<longrightarrow> plain s' (xs @ ys))) \<and>
    (full s xs \<longrightarrow> full s' (xs @ ys)))"
  using assms
proof (induction "length vec" arbitrary: vec m xs own env s rule: less_induct)
  case less
  show ?case
  proof (cases "vec = []")
    case True
    have "vectomsg vec m env s = Inr (0, m, env, s)" using True by (simp add: vectomsg.simps)
    moreover have "message s m (xs @ []) \<and> set [] \<inter> own = {} \<and> kok held p (own \<union> set []) s" using less.prems by simp
    ultimately show ?thesis using True same_refl by (intro disjI2 exI [of _ 0] exI [of _ m] exI [of _ env] exI [of _ s] exI [of _ "[]"]) auto
  next
    case ne: False
    from appendb_ok [OF less.prems] show ?thesis
    proof (elim disjE exE conjE)
      assume "appendb m env s = Inl Asleep"
      then show ?thesis using ne by (simp add: vectomsg.simps)
    next
      fix q env1 s1
      assume a: "appendb m env s = Inr (q, env1, s1)" "set env1 \<subseteq> set env"
        and r: "if q = 0 then m \<noteq> 0 \<and> b_resv (nb_buf s m) AND b_raw \<noteq> 0 \<and> kok held p own s1 \<and> same own s s1
         else \<exists>ys. message s1 q (xs @ ys) \<and> set ys \<inter> own = {} \<and> kok held p (own \<union> set ys) s1 \<and>
         nb_bytes s1 (xs @ ys) = nb_bytes s xs \<and> same (own - set xs) s s1 \<and> b_len (nb_buf s1 q) < 64 \<and>
         (m = 0 \<or> b_resv (nb_buf s m) AND b_raw = 0 \<longrightarrow> b_resv (nb_buf s1 q) AND b_raw = 0 \<and> (plain s xs \<longrightarrow> plain s1 (xs @ ys))) \<and>
         (full s xs \<longrightarrow> full s1 (xs @ ys))"
      show ?thesis
      proof (cases "q = 0")
        case True
        then have r: "m \<noteq> 0" "b_resv (nb_buf s m) AND b_raw \<noteq> 0" "kok held p own s1" "same own s s1" using r by auto
        have "vectomsg vec m env s = Inr (length vec, m, env1, s1)" using ne a(1) True by (simp add: vectomsg.simps)
        moreover have "message s1 m (xs @ [])" "nb_bytes s1 (xs @ []) = nb_bytes s xs"
          using same_message [OF r(4) less.prems(3,2)] by simp_all
        moreover have "full s xs \<longrightarrow> full s1 xs" using same_buf [OF r(4)] less.prems(3) in_set_butlastD
          unfolding full_def by (metis subsetD)
        ultimately show ?thesis using r a(2) same_mono [OF r(4), of "own - set xs"]
          by (intro disjI2 exI [of _ "length vec"] exI [of _ m] exI [of _ env1] exI [of _ s1] exI [of _ "[]"]) auto
      next
        case q0: False
        obtain ys where y: "message s1 q (xs @ ys)" "set ys \<inter> own = {}" "kok held p (own \<union> set ys) s1"
          "nb_bytes s1 (xs @ ys) = nb_bytes s xs" "same (own - set xs) s s1" "b_len (nb_buf s1 q) < 64"
          "m = 0 \<or> b_resv (nb_buf s m) AND b_raw = 0 \<Longrightarrow> b_resv (nb_buf s1 q) AND b_raw = 0 \<and> (plain s xs \<longrightarrow> plain s1 (xs @ ys))"
          "full s xs \<Longrightarrow> full s1 (xs @ ys)" using r q0 by auto
        let ?d = "b_len (nb_buf s1 q)"
        let ?n = "min (64 - ?d) (int (length vec))"
        let ?cs = "take (nat ?n) vec"
        have qz: "q \<in> set (xs @ ys)" using message_ring [OF q0 y(1)] by (rule ring_set_last)
        have d: "0 \<le> ?d" "?d \<le> 64" using message_len [OF y(1) qz] by auto
        have n: "0 < ?n" "int (length ?cs) = ?n" using ne y(6) by auto
        have lm: "?d mod 256 = ?d" using d by simp
        let ?s2 = "sb_bytes (b_loc (nb_buf s1 q)) (nat ?d) ?cs (set_len q (?d + ?n) s1)"
        have locq: "b_loc (nb_buf (set_len q (?d + ?n) s1) q) = b_loc (nb_buf s1 q)" by (simp add: set_len_def upd_nb_def)
        have run: "vectomsg vec m env s = vectomsg (drop (nat ?n) vec) q env1 ?s2"
        proof -
          have nw: "(?n \<le> 0) = False" using n(1) by (metis not_le)
          show ?thesis unfolding vectomsg.simps [of vec m env s] using ne a(1) q0 lm locq by (simp add: Let_def nw)
        qed
        have oz: "set (xs @ ys) \<subseteq> own \<union> set ys" using less.prems(3) by auto
        have pt: "message ?s2 q (xs @ ys) \<and> kok held p (own \<union> set ys) ?s2 \<and> same (own \<union> set ys - set (xs @ ys)) s1 ?s2 \<and>
          nb_bytes ?s2 (xs @ ys) = nb_bytes s1 (xs @ ys) @ ?cs \<and> b_resv (nb_buf ?s2 q) = b_resv (nb_buf s1 q) \<and>
          (full s1 (xs @ ys) \<longrightarrow> full ?s2 (xs @ ys)) \<and> (plain s1 (xs @ ys) \<longrightarrow> plain ?s2 (xs @ ys)) \<and>
          b_len (nb_buf ?s2 q) = ?d + ?n \<and> held ?s2 = held s1"
          using put_ok [OF y(3,1) q0 oz, of ?cs] n(2) by simp
        have len: "length (drop (nat ?n) vec) < length vec" using n by simp
        have e1: "\<forall>e\<in>set env1. rely held e" using a(2) less.prems(4) by auto
        have kp: "kok held p (own \<union> set ys) ?s2" and mp: "message ?s2 q (xs @ ys)" using pt by blast+
        have sm2: "same (own - set xs) s ?s2"
        proof -
          have "own - set xs \<subseteq> own \<union> set ys - set (xs @ ys)" using y(2) by auto
          then show ?thesis using same_trans [OF y(5)] same_mono pt by blast
        qed
        from less.hyps [OF len kp mp oz e1] show ?thesis
        proof (elim disjE exE conjE)
          assume "vectomsg (drop (nat ?n) vec) q env1 ?s2 = Inl Asleep"
          then show ?thesis using run by simp
        next
          fix left m' env' s' ys'
          assume v: "vectomsg (drop (nat ?n) vec) q env1 ?s2 = Inr (left, m', env', s')" "set env' \<subseteq> set env1"
            "message s' m' ((xs @ ys) @ ys')" "set ys' \<inter> (own \<union> set ys) = {}" "kok held p (own \<union> set ys \<union> set ys') s'"
            "left \<le> length (drop (nat ?n) vec)"
            "nb_bytes s' ((xs @ ys) @ ys') = nb_bytes ?s2 (xs @ ys) @ take (length (drop (nat ?n) vec) - left) (drop (nat ?n) vec)"
            "same (own \<union> set ys - set (xs @ ys)) ?s2 s'"
            "q = 0 \<or> b_resv (nb_buf ?s2 q) AND b_raw = 0 \<longrightarrow> left = 0 \<and> (m' = 0 \<or> b_resv (nb_buf s' m') AND b_raw = 0) \<and>
              (drop (nat ?n) vec \<noteq> [] \<longrightarrow> m' \<noteq> 0 \<and> 0 < b_len (nb_buf s' m')) \<and> (plain ?s2 (xs @ ys) \<longrightarrow> plain s' ((xs @ ys) @ ys'))"
            "full ?s2 (xs @ ys) \<longrightarrow> full s' ((xs @ ys) @ ys')"
          have tk: "?cs @ take (length (drop (nat ?n) vec) - left) (drop (nat ?n) vec) = take (length vec - left) vec"
          proof -
            have "length vec - left = nat ?n + (length (drop (nat ?n) vec) - left)" using v(6) n by simp
            then show ?thesis by (simp only: take_add)
          qed
          have "own - set xs \<subseteq> own \<union> set ys - set (xs @ ys)" using y(2) by auto
          then have "same (own - set xs) s s'" using same_trans [OF sm2] same_mono v(8) by blast
          moreover have "nb_bytes s' (xs @ (ys @ ys')) = nb_bytes s xs @ take (length vec - left) vec"
            using v(7) pt y(4) tk by (simp only: append_assoc [symmetric]) simp
          moreover have "left \<le> length vec" using v(6) by simp
          moreover have "message s' m' (xs @ (ys @ ys'))" using v(3) by simp
          moreover have "kok held p (own \<union> set (ys @ ys')) s'" using v(5) by (simp add: Un_assoc)
          moreover have "set (ys @ ys') \<inter> own = {}" using v(4) y(2) by auto
          moreover have "full s xs \<longrightarrow> full s' (xs @ (ys @ ys'))" using v(10) pt y(8) by simp
          moreover have "m = 0 \<or> b_resv (nb_buf s m) AND b_raw = 0 \<longrightarrow> left = 0 \<and> (m' = 0 \<or> b_resv (nb_buf s' m') AND b_raw = 0) \<and>
              (vec \<noteq> [] \<longrightarrow> m' \<noteq> 0 \<and> 0 < b_len (nb_buf s' m')) \<and> (plain s xs \<longrightarrow> plain s' (xs @ (ys @ ys')))"
          proof (cases "drop (nat ?n) vec = []")
            case True
            have "vectomsg [] q env1 ?s2 = Inr (0, q, env1, ?s2)" by (simp add: vectomsg.simps)
            then have e: "m' = q" "s' = ?s2" using v(1) unfolding True by (simp_all only: sum.inject prod.inject)
            have "0 < ?d + ?n" using n(1) d(1) by linarith
            moreover have "b_len (nb_buf s' m') = ?d + ?n" unfolding e using pt by blast
            ultimately have pos: "0 < b_len (nb_buf s' m')" by (simp only:)
            have "m = 0 \<or> b_resv (nb_buf s m) AND b_raw = 0 \<longrightarrow> left = 0 \<and> (m' = 0 \<or> b_resv (nb_buf s' m') AND b_raw = 0) \<and>
              (plain s xs \<longrightarrow> plain s' (xs @ (ys @ ys')))"
              using v(9) pt y(7) by simp
            moreover have "m' \<noteq> 0" using e(1) q0 by simp
            ultimately show ?thesis using pos by blast
          next
            case False
            then show ?thesis using v(9) pt y(7) by simp
          qed
          moreover have "set env' \<subseteq> set env" using v(2) a(2) by auto
          ultimately show ?thesis using run v(1) by (intro disjI2 exI [of _ left] exI [of _ m'] exI [of _ env'] exI [of _ s']
              exI [of _ "ys @ ys'"]) simp
        qed
      qed
    qed
  qed
qed

end

context buffer_users begin

lemma bytesout_loop_ok:
  assumes "kok held p own s" "message s m xs" "set xs \<subseteq> own" "length xs \<le> f"
  shows "\<exists>m' s' k. bytesout_loop f m count out s =
      Inr (count - length (nb_bytes s xs), m', out @ take count (nb_bytes s xs), s') \<and> message s' m' (drop k xs) \<and>
    kok held p (own - set (take k xs)) s' \<and> nb_bytes s' (drop k xs) = drop count (nb_bytes s xs) \<and>
    same (own - set xs) s s' \<and> nk.more s' = nk.more s \<and> held s' = held s \<and>
    ((\<forall>x\<in>set xs. 0 < b_len (nb_buf s x)) \<longrightarrow> (\<forall>x\<in>set (drop k xs). 0 < b_len (nb_buf s' x)))"
  using assms
proof (induction xs arbitrary: f m s own count out)
  case Nil
  then have "bytesout_loop f m count out s = Inr (count, m, out, s)" by (cases f) auto
  then show ?case using Nil same_refl by auto
next
  case (Cons x xs)
  obtain g where f: "f = Suc g" using Cons.prems(4) by (cases f) auto
  have m0: "m \<noteq> 0" using Cons.prems(2) by (cases "m = 0") auto
  have r: "ring (qlink s) m (x # xs)" by (rule message_ring [OF m0 Cons.prems(2)])
  have hd: "qlink s m = x" by (rule ring_hd [OF r])
  have len: "0 \<le> b_len (nb_buf s x)" "b_len (nb_buf s x) \<le> 64" using message_len [OF Cons.prems(2)] by auto
  have xo: "x \<in> own" using Cons.prems(3) by simp
  have dist: "x \<notin> set xs" using message_distinct [OF Cons.prems(2)] by simp
  let ?l = "nat (b_len (nb_buf s x))"
  have lm: "b_len (nb_buf s x) mod 256 = b_len (nb_buf s x)" using len by simp
  let ?loc = "b_loc (nb_buf s x)"
  have fb: "fb_bytes ?loc 0 n s = take n (cell s x)" if "n \<le> ?l" for n
    using that by (simp add: cell_def fb_bytes_def take_map)
  show ?case
  proof (cases "count = 0")
    case True
    then have "bytesout_loop f m count out s = Inr (0, m, out, s)" using f by simp
    then show ?thesis using True Cons.prems(1,2) same_refl by (intro exI [of _ m] exI [of _ s] exI [of _ 0]) simp
  next
    case c0: False
    show ?thesis
    proof (cases "count < ?l")
      case True
      let ?rest = "b_len (nb_buf s x) - int count"
      let ?s1 = "set_len x ?rest s"
      let ?s2 = "sb_shift ?loc 0 count (nat ?rest) ?s1"
      have run: "bytesout_loop f m count out s = Inr (0, m, out @ take count (cell s x), ?s2)"
      proof -
        have "min count ?l = count" "0 < ?rest" using True by auto
        then have "bytesout_loop f m count out s = bytesout_loop g m 0 (out @ fb_bytes ?loc 0 count s) ?s2"
          using f m0 c0 hd lm by (simp add: Let_def)
        then show ?thesis using fb [of count] True by (cases g) auto
      qed
      have b1: "nb_buf ?s1 z = (if z = x then (nb_buf s x)\<lparr>b_len := ?rest\<rparr> else nb_buf s z)" for z
        using len True by (simp add: set_len_def upd_nb_def schar_def)
      have sh: "touched x ?s1 ?s2 \<and> nb_buf ?s2 = nb_buf ?s1 \<and> (\<forall>e<64. fbbyte ?loc e ?s2 =
          (if 0 \<le> e \<and> e < 0 + nat ?rest then fbbyte ?loc (e - 0 + count) ?s1 else fbbyte ?loc e ?s1))"
        by (rule sb_shift_touched) (use len True b1 in auto)
      have t: "touched x s ?s2" using touched_trans [OF touched_set_len] sh by blast
      have k: "kok held p own ?s2 \<and> same (own - {x}) s ?s2 \<and> held ?s2 = held s"
        by (rule kok_touched [OF Cons.prems(1) xo t])
      have cx: "cell ?s2 x = drop count (cell s x)"
      proof (rule nth_equalityI)
        show "length (cell ?s2 x) = length (drop count (cell s x))" using sh b1 by (simp add: length_cell)
        fix i assume i: "i < length (cell ?s2 x)"
        then have i2: "i < nat ?rest" using sh b1 by (simp add: length_cell)
        then have "cell ?s2 x ! i = fbbyte ?loc i ?s2" using sh b1 by (simp add: cell_def fb_bytes_def)
        also have "\<dots> = fbbyte ?loc (i + count) s" using sh i2 len by (simp add: fbbyte_def set_len_def upd_nb_def)
        also have "\<dots> = drop count (cell s x) ! i"
        proof -
          have "count + i < ?l" using i2 by linarith
          then show ?thesis by (simp add: cell_def fb_bytes_def add.commute)
        qed
        finally show "cell ?s2 x ! i = drop count (cell s x) ! i" .
      qed
      have "set xs \<subseteq> own - {x}" using Cons.prems(3) dist by auto
      then have "nb_bytes ?s2 xs = nb_bytes s xs"
        by (rule samedata_bytes [OF same_samedata [OF conjunct1 [OF conjunct2 [OF k]]]]) (use message_len [OF Cons.prems(2)] in auto)
      then have by2: "nb_bytes ?s2 (x # xs) = drop count (nb_bytes s (x # xs))" using cx True by (simp add: length_cell)
      have "message ?s2 m (x # xs)" using Cons.prems(2) touched_link [OF t] sh b1 len True by (auto simp: message_def)
      moreover have "same (own - set (x # xs)) s ?s2" by (rule same_mono [of "own - {x}"]) (use k in auto)
      moreover have "0 < b_len (nb_buf ?s2 z)" if "\<forall>z\<in>set (x # xs). 0 < b_len (nb_buf s z)" "z \<in> set (x # xs)" for z
        using that sh b1 True by auto
      ultimately show ?thesis using run k by2 True t
        by (intro exI [of _ m] exI [of _ ?s2] exI [of _ 0]) (simp add: length_cell touched_def)
    next
      case False
      let ?m = "if xs = [] then 0 else m"
      obtain s1 where s1: "freebuf m s = Inr (?m, s1)" "msgq (qlink s1) ?m xs" "kok held p (own - {x}) s1"
          "nk.more s1 = nk.more s" "held s1 = held s" "samedata (set xs) s s1" "same (own - set (x # xs)) s s1"
        using freebuf_ok [OF Cons.prems(1) r Cons.prems(3)] by blast
      have run: "bytesout_loop f m count out s = bytesout_loop g ?m (count - ?l) (out @ cell s x) s1"
        using f m0 c0 hd lm False len s1(1) fb [of ?l] by (simp add: Let_def min_absorb2 length_cell)
      have m1: "message s1 ?m xs" using s1(2,6) message_len [OF Cons.prems(2)] by (auto simp: message_def samedata_def)
      have "set xs \<subseteq> own - {x}" using Cons.prems(3) dist by auto
      from Cons.IH [OF s1(3) m1 this, of g "count - ?l" "out @ cell s x"]
      obtain m' s' k where ih: "bytesout_loop g ?m (count - ?l) (out @ cell s x) s1 =
          Inr (count - ?l - length (nb_bytes s1 xs), m', (out @ cell s x) @ take (count - ?l) (nb_bytes s1 xs), s')"
          "message s' m' (drop k xs)" "kok held p (own - {x} - set (take k xs)) s'"
          "nb_bytes s' (drop k xs) = drop (count - ?l) (nb_bytes s1 xs)" "same (own - {x} - set xs) s1 s'"
          "nk.more s' = nk.more s1" "held s' = held s1"
          "(\<forall>x\<in>set xs. 0 < b_len (nb_buf s1 x)) \<Longrightarrow> \<forall>x\<in>set (drop k xs). 0 < b_len (nb_buf s' x)"
        using Cons.prems(4) f by auto
      have b1: "nb_bytes s1 xs = nb_bytes s xs"
        by (rule samedata_bytes [OF s1(6)]) (use message_len [OF Cons.prems(2)] in auto)
      have e: "own - {x} - set (take k xs) = own - set (take (Suc k) (x # xs))" "own - {x} - set xs = own - set (x # xs)" by auto
      have "same (own - set (x # xs)) s s'" using same_trans [OF s1(7)] ih(5) e by simp
      moreover have "\<forall>z\<in>set (drop k xs). 0 < b_len (nb_buf s' z)" if "\<forall>z\<in>set (x # xs). 0 < b_len (nb_buf s z)"
        by (rule ih(8)) (use that s1(6) in \<open>simp add: samedata_def\<close>)
      ultimately show ?thesis using ih s1 run b1 e False
        by (intro exI [of _ m'] exI [of _ s'] exI [of _ "Suc k"]) (simp add: length_cell)
    qed
  qed
qed

lemma bytesout_ok:
  assumes "kok held p own s" "message s m xs" "set xs \<subseteq> own"
  shows "\<exists>m' s' k. bytesout m count s = Inr (count - length (nb_bytes s xs), m', take count (nb_bytes s xs), s') \<and>
    message s' m' (drop k xs) \<and> kok held p (own - set (take k xs)) s' \<and>
    nb_bytes s' (drop k xs) = drop count (nb_bytes s xs) \<and>
    same (own - set xs) s s' \<and> nk.more s' = nk.more s \<and> held s' = held s \<and>
    ((\<forall>x\<in>set xs. 0 < b_len (nb_buf s x)) \<longrightarrow> (\<forall>x\<in>set (drop k xs). 0 < b_len (nb_buf s' x)))"
proof -
  have "length xs \<le> ring_fuel"
    using own_length [OF assms(1) _ assms(3)] assms(2) by (fastforce simp: message_def ring_fuel_def)
  from bytesout_loop_ok [OF assms this, of count "[]"] show ?thesis by (simp add: bytesout_def)
qed

lemma cat_loop_ok:
  assumes "kok held p own s" "message s m1 xs" "message s m2 ys" "m1 \<noteq> 0" "m2 \<noteq> 0" "set xs \<subseteq> own" "set ys \<subseteq> own"
    "set xs \<inter> set ys = {}" "length ys \<le> f"
  shows "\<exists>m s' k. cat_loop f m1 m2 s = Inr (m, s') \<and> m \<noteq> 0 \<and> message s' m (xs @ drop k ys) \<and>
    kok held p (own - set (take k ys)) s' \<and> nb_bytes s' (xs @ drop k ys) = nb_bytes s xs @ nb_bytes s ys \<and>
    same (own - set xs - set ys) s s' \<and> nk.more s' = nk.more s \<and> held s' = held s"
  using assms
proof (induction ys arbitrary: f m2 s own)
  case Nil
  then show ?case by simp
next
  case (Cons y ys)
  obtain g where f: "f = Suc g" using Cons.prems(9) by (cases f) auto
  have r1: "ring (qlink s) m1 xs" by (rule message_ring [OF Cons.prems(4,2)])
  have r2: "ring (qlink s) m2 (y # ys)" by (rule message_ring [OF Cons.prems(5,3)])
  have hd: "qlink s m2 = y" by (rule ring_hd [OF r2])
  have m1: "m1 \<in> set xs" "m1 \<in> own" "m1 \<noteq> y" using ring_set_last [OF r1] Cons.prems(6,8) by auto
  have l1: "0 \<le> b_len (nb_buf s m1)" "b_len (nb_buf s m1) \<le> 64" using message_len [OF Cons.prems(2) m1(1)] by auto
  have ly: "0 \<le> b_len (nb_buf s y)" "b_len (nb_buf s y) \<le> 64" using message_len [OF Cons.prems(3)] by auto
  have yo: "y \<in> own" using Cons.prems(7) by simp
  have dy: "y \<notin> set ys" using message_distinct [OF Cons.prems(3)] by simp
  show ?case
  proof (cases "64 - b_len (nb_buf s m1) \<ge> b_len (nb_buf s y)")
    case True
    let ?n = "nat (b_len (nb_buf s y))" and ?l = "nat (b_len (nb_buf s m1))"
    let ?s1 = "cat_copy m1 y 0 ?n s"
    have cc: "touched m1 s ?s1 \<and> b_len (nb_buf ?s1 m1) = b_len (nb_buf s m1) + int ?n \<and>
      (\<forall>e<64. fbbyte (b_loc (nb_buf s m1)) e ?s1 = (if ?l \<le> e \<and> e < ?l + ?n
          then fbbyte (b_loc (nb_buf s y)) (e - ?l + 0) s else fbbyte (b_loc (nb_buf s m1)) e s))"
      by (rule cat_copy_touched) (use m1 l1 ly True kok_loc [OF Cons.prems(1) yo m1(2)] in auto)
    then have t: "touched m1 s ?s1" by blast
    have k1: "kok held p own ?s1 \<and> same (own - {m1}) s ?s1 \<and> held ?s1 = held s"
      by (rule kok_touched [OF Cons.prems(1) m1(2) t])
    have cm: "cell ?s1 m1 = cell s m1 @ cell s y"
    proof (rule nth_equalityI)
      show "length (cell ?s1 m1) = length (cell s m1 @ cell s y)" using cc l1 ly by (simp add: length_cell nat_add_distrib)
      fix i assume i: "i < length (cell ?s1 m1)"
      then have i2: "i < ?l + ?n" "i < 64" using cc l1 ly True by (simp_all add: length_cell)
      have loc: "b_loc (nb_buf ?s1 m1) = b_loc (nb_buf s m1)" using t by (simp add: touched_def)
      have "cell ?s1 m1 ! i = fbbyte (b_loc (nb_buf s m1)) i ?s1" using i loc by (simp add: cell_def fb_bytes_def)
      also have "\<dots> = (if ?l \<le> i then fbbyte (b_loc (nb_buf s y)) (i - ?l) s else fbbyte (b_loc (nb_buf s m1)) i s)"
        using cc i2 by simp
      also have "\<dots> = (cell s m1 @ cell s y) ! i"
        using i2 by (simp add: nth_append length_cell) (auto simp: cell_def fb_bytes_def)
      finally show "cell ?s1 m1 ! i = (cell s m1 @ cell s y) ! i" .
    qed
    obtain us where us: "xs = us @ [m1]" using r1 by (metis append_butlast_last_id ring_def)
    have mu: "m1 \<notin> set us" using r1 us by (simp add: ring_def)
    note sd1 = samedata_bytes [OF same_samedata [OF conjunct1 [OF conjunct2 [OF k1]]]]
    have "nb_bytes ?s1 us = nb_bytes s us"
      by (rule sd1) (use us mu Cons.prems(6) message_len [OF Cons.prems(2)] in auto)
    then have bx: "nb_bytes ?s1 xs = nb_bytes s xs @ cell s y" using cm us by simp
    have ysub: "set (y # ys) \<subseteq> own - {m1}" using Cons.prems(7,8) m1 by auto
    have bys: "nb_bytes ?s1 ys = nb_bytes s ys" by (rule sd1) (use ysub message_len [OF Cons.prems(3)] in auto)
    have "0 \<le> b_len (nb_buf ?s1 x) \<and> b_len (nb_buf ?s1 x) \<le> 64" if "x \<in> set xs" for x
    proof (cases "x = m1")
      case x: True
      then show ?thesis using conjunct1 [OF conjunct2 [OF cc]] l1 ly True by simp
    next
      case x: False
      then have "nb_buf ?s1 x = nb_buf s x" using t by (simp add: touched_def)
      then show ?thesis using message_len [OF Cons.prems(2) that] by simp
    qed
    then have mx: "message ?s1 m1 xs" using Cons.prems(2) touched_link [OF t] by (simp add: message_def)
    have r2': "ring (qlink ?s1) m2 (y # ys)" using r2 touched_link [OF t] by simp
    let ?m = "if ys = [] then 0 else m2"
    obtain s2 where s2: "freebuf m2 ?s1 = Inr (?m, s2)" "msgq (qlink s2) ?m ys" "kok held p (own - {y}) s2"
          "nk.more s2 = nk.more ?s1" "held s2 = held ?s1" "samedata (set ys) ?s1 s2" "same (own - set (y # ys)) ?s1 s2"
      using freebuf_ok [OF conjunct1 [OF k1] r2' Cons.prems(7)] by blast
    have step: "cat_loop f m1 m2 s = (if ?m = 0 then Inr (m1, s2) else cat_loop g m1 ?m s2)"
      using f hd True ly l1 s2(1) by (simp add: Let_def)
    have mx2: "message s2 m1 xs \<and> nb_bytes s2 xs = nb_bytes ?s1 xs"
      by (rule same_message [OF s2(7) _ mx]) (use Cons.prems(6,8) in auto)
    have lys: "b_len (nb_buf ?s1 z) = b_len (nb_buf s z)" if "z \<in> set ys" for z
    proof -
      have "z \<in> own - {m1}" using ysub that by auto
      then show ?thesis using same_buf [OF conjunct1 [OF conjunct2 [OF k1]]] by simp
    qed
    have my2: "message s2 ?m ys" using s2(2,6) lys message_len [OF Cons.prems(3)] by (auto simp: message_def samedata_def)
    have by2: "nb_bytes s2 ys = nb_bytes s ys"
      using samedata_bytes [OF s2(6), of ys] lys message_len [OF Cons.prems(3)] bys by auto
    have sm: "same (own - set xs - set (y # ys)) s s2"
    proof (rule same_trans [of _ s ?s1])
      show "same (own - set xs - set (y # ys)) s ?s1" by (rule same_mono [of "own - {m1}"]) (use k1 m1 in auto)
      show "same (own - set xs - set (y # ys)) ?s1 s2" by (rule same_mono [OF s2(7)]) auto
    qed
    have mo: "nk.more ?s1 = nk.more s" using t by (simp add: touched_def)
    show ?thesis
    proof (cases "ys = []")
      case True
      then show ?thesis using step s2 mx2 bx k1 mo sm Cons.prems(4)
        by (intro exI [of _ m1] exI [of _ s2] exI [of _ 1]) simp
    next
      case False
      have "\<exists>m s' k. cat_loop g m1 ?m s2 = Inr (m, s') \<and> m \<noteq> 0 \<and> message s' m (xs @ drop k ys) \<and>
        kok held p (own - {y} - set (take k ys)) s' \<and> nb_bytes s' (xs @ drop k ys) = nb_bytes s2 xs @ nb_bytes s2 ys \<and>
        same (own - {y} - set xs - set ys) s2 s' \<and> nk.more s' = nk.more s2 \<and> held s' = held s2"
        by (rule Cons.IH [OF s2(3)]) (use mx2 my2 Cons.prems dy False f in auto)
      then obtain m s' k where ih: "cat_loop g m1 ?m s2 = Inr (m, s')" "m \<noteq> 0" "message s' m (xs @ drop k ys)"
        "kok held p (own - {y} - set (take k ys)) s'" "nb_bytes s' (xs @ drop k ys) = nb_bytes s2 xs @ nb_bytes s2 ys"
        "same (own - {y} - set xs - set ys) s2 s'" "nk.more s' = nk.more s2" "held s' = held s2" by blast
      have e: "own - {y} - set (take k ys) = own - set (take (Suc k) (y # ys))"
        "own - {y} - set xs - set ys = own - set xs - set (y # ys)" by auto
      have "same (own - set xs - set (y # ys)) s s'" using same_trans [OF sm] ih(6) e by simp
      then show ?thesis using step ih s2 mx2 bx by2 k1 mo e False Cons.prems(5)
        by (intro exI [of _ m] exI [of _ s'] exI [of _ "Suc k"]) simp
    qed
  next
    case False
    let ?s1 = "set_qlink m1 (qlink s m2) s"
    let ?s2 = "set_qlink m2 (qlink s m1) ?s1"
    have m12: "m1 \<noteq> m2" using ring_set_last [OF r1] ring_set_last [OF r2] Cons.prems(8) by auto
    have run: "cat_loop f m1 m2 s = Inr (m2, ?s2)" using f hd False by (simp add: Let_def)
    have m2: "m2 \<in> set (y # ys)" by (rule ring_set_last [OF r2])
    have l: "linked {m1, m2} s ?s2" by (rule linked_trans [OF linked_set_qlink linked_set_qlink]) auto
    have ks: "kok held p own ?s2 \<and> held ?s2 = held s"
      by (rule kok_quiet [OF Cons.prems(1) quiet_linked [OF l]]) (use m1 m2 Cons.prems(7) l in \<open>auto simp: linkedD\<close>)
    have "qlink ?s2 = (qlink s)(m1 := qlink s m2, m2 := qlink s m1)" by (simp only: qlink_set_qlink)
    then have "ring (qlink ?s2) m2 (xs @ y # ys)" using ring_cat [OF r1 r2 Cons.prems(8)] by simp
    then have ms: "message ?s2 m2 (xs @ drop 0 (y # ys))"
      using message_len [OF Cons.prems(2)] message_len [OF Cons.prems(3)] unfolding message_def
      by (auto simp: linkedD [OF l] intro: ring_msgq)
    have sd: "samedata F s ?s2" for F by (rule samedataI) (simp_all add: linkedD [OF l])
    have "nb_bytes ?s2 xs = nb_bytes s xs" by (rule samedata_bytes [OF sd [of "set xs"]]) (use message_len [OF Cons.prems(2)] in auto)
    moreover have "nb_bytes ?s2 (y # ys) = nb_bytes s (y # ys)"
      by (rule samedata_bytes [OF sd [of "set (y # ys)"]]) (use message_len [OF Cons.prems(3)] in auto)
    moreover have "same (own - set xs - set (y # ys)) s ?s2"
    proof (rule sameI)
      show "nb_buf ?s2 x = nb_buf s x" if "x \<in> own - set xs - set (y # ys)" for x
        by (rule linkedD(16) [OF l]) (use that m1 m2 in auto)
    qed simp
    ultimately show ?thesis using run ks ms Cons.prems(5) by (intro exI [of _ m2] exI [of _ ?s2] exI [of _ 0]) simp
  qed
qed

lemma catmsg_ok:
  assumes "kok held p own s" "message s m1 xs" "message s m2 ys" "set xs \<subseteq> own" "set ys \<subseteq> own" "set xs \<inter> set ys = {}"
  shows "\<exists>m s' k. catmsg m1 m2 s = Inr (m, s') \<and> message s' m (xs @ drop k ys) \<and>
    kok held p (own - set (take k ys)) s' \<and> nb_bytes s' (xs @ drop k ys) = nb_bytes s xs @ nb_bytes s ys \<and>
    same (own - set xs - set ys) s s' \<and> nk.more s' = nk.more s \<and> held s' = held s"
proof -
  have "length ys \<le> ring_fuel"
    using own_length [OF assms(1) _ assms(5)] assms(3) by (fastforce simp: message_def ring_fuel_def)
  note c = cat_loop_ok [OF assms(1-3) _ _ assms(4-6) this]
  show ?thesis
  proof (cases "m1 = 0 \<or> m2 = 0")
    case True
    then have e: "catmsg m1 m2 s = Inr (if m2 = 0 then m1 else m2, s)" by (auto simp: catmsg_def)
    have "ys = []" if "m2 = 0" using assms(3) that by simp
    moreover have "xs = []" if "m1 = 0" using assms(2) that by simp
    ultimately show ?thesis using e True assms(1-3) same_refl
      by (intro exI [of _ "if m2 = 0 then m1 else m2"] exI [of _ s] exI [of _ 0]) auto
  next
    case False
    then show ?thesis using c unfolding catmsg_def by auto
  qed
qed

end

end
