(* ===== verification/Ncp_State.thy ===== *)
theory Ncp_State
  imports Ncp_Stream
begin

text \<open>
  The state of the NCP kernel (src/jnc_bbn-files: h/net.h, h/contab.h, h/imp.h, h/ncp.h, h/rawnet.h,
  h/file.h), on top of the message buffers, and the routines every part of it uses: the host bit
  map and host numbers (btest.c), the connection tables (contab.c).

  Pointers are numbers: the inode of the network i is the socket pointer i + 1, the file structure
  i the pointer i + 1, 0 is the null pointer.  The two connection tables of CONSIZE entries are one
  array, the entries of r_contab at 1 to 32 and those of w_contab at 33 to 64.  A socket is nine
  words laid over i_addr and i_lastr of its inode; the structures rdskt and wrtskt name the same
  words differently, so the model has one record for both.  The leader read from the IMP is the
  array of its 16 bytes, from imp.nff on.
\<close>

section \<open>Constants\<close>

definition CONSIZE :: nat where "CONSIZE = 32"
definition FILSIZE :: nat where "FILSIZE = 18"
definition NINODE :: nat where "NINODE = 200"
definition NOMMSG :: u16 where "NOMMSG = 10"
definition LIMPS :: nat where "LIMPS = 85"
definition LHOI :: nat where "LHOI = 16"

definition n_allocwt :: u16 where "n_allocwt = 0x1"
definition n_rfnmwt :: u16 where "n_rfnmwt = 0x2"
definition n_eof :: u16 where "n_eof = 0x4"
definition n_ncpiu :: u16 where "n_ncpiu = 0x8"
definition n_usriu :: u16 where "n_usriu = 0x10"
definition n_toncp :: u16 where "n_toncp = 0x20"
definition n_open :: u16 where "n_open = 0x40"
definition n_xmterr :: u16 where "n_xmterr = 0x80"
definition n_allwt :: u16 where "n_allwt = 0x200"
definition n_sendwt :: u16 where "n_sendwt = 0x400"
definition n_prevmerr :: u16 where "n_prevmerr = 0x800"
definition n_rcvwt :: u16 where "n_rcvwt = 0x1000"
definition n_hhchanwt :: u16 where "n_hhchanwt = 0x2000"
definition n_raw :: u16 where "n_raw = 0x4000"

lemmas n_flags = n_allocwt_def n_rfnmwt_def n_eof_def n_ncpiu_def n_usriu_def n_toncp_def n_open_def n_xmterr_def
  n_allwt_def n_sendwt_def n_prevmerr_def n_rcvwt_def n_hhchanwt_def n_raw_def

definition FNET :: u16 where "FNET = 0x20"
definition FOPEN :: u16 where "FOPEN = 0x40"
definition FERR :: u16 where "FERR = 0x80"
definition FRAW :: u16 where "FRAW = 0x200"

definition f_rdnode :: nat where "f_rdnode = 0"
definition f_wrtnode :: nat where "f_wrtnode = 1"

text \<open>Command codes to the NCP daemon, message types of the IMP, host to host operations.\<close>

definition ncp_open :: byte where "ncp_open = 0"
definition ncp_rcv :: byte where "ncp_rcv = 1"
definition ncp_close :: byte where "ncp_close = 2"
definition ncp_timo :: byte where "ncp_timo = 3"
definition ncp_rreset :: byte where "ncp_rreset = 4"
definition ncp_rlog :: byte where "ncp_rlog = 5"

definition ih_nop :: byte where "ih_nop = 4"
definition ih_rfnm :: byte where "ih_rfnm = 5"
definition ih_edata :: byte where "ih_edata = 8"
definition ih_ictrans :: byte where "ih_ictrans = 9"

definition hhnop :: byte where "hhnop = 0"
definition hhall :: byte where "hhall = 4"
definition hhinr :: byte where "hhinr = 7"
definition hhins :: byte where "hhins = 8"
definition NUMHHOPS :: byte where "NUMHHOPS = 13"

definition hhsize :: "nat list" where
  "hhsize = [1, 10, 10, 9, 8, 4, 8, 2, 2, 2, 2, 12, 1, 1]"

section \<open>Records\<close>

record skt =
  sk_conent :: nat
  sk_bsize :: u16
  sk_flags :: u16
  sk_msgs :: u16
  sk_w4 :: u16
  sk_w5 :: u16
  sk_w6 :: u16
  sk_w7 :: u16
  sk_proc :: nat

text \<open>Words 4 to 7 are w_falloc[0], w_falloc[1], w_fid, w_tty of a write socket and r_bytes,
  r_msgq, r_qtotal, r_hiwat of a read socket.\<close>

abbreviation w_falloc_hi :: "skt \<Rightarrow> u16" where "w_falloc_hi \<equiv> sk_w4"
abbreviation w_falloc_lo :: "skt \<Rightarrow> u16" where "w_falloc_lo \<equiv> sk_w5"
abbreviation r_bytes :: "skt \<Rightarrow> u16" where "r_bytes \<equiv> sk_w4"
abbreviation r_qtotal :: "skt \<Rightarrow> u16" where "r_qtotal \<equiv> sk_w6"
abbreviation r_hiwat :: "skt \<Rightarrow> u16" where "r_hiwat \<equiv> sk_w7"

definition r_msgq :: "skt \<Rightarrow> nat" where "r_msgq k = unat (sk_w5 k)"

definition set_r_msgq :: "nat \<Rightarrow> skt \<Rightarrow> skt" where "set_r_msgq p k = k\<lparr>sk_w5 := of_nat p\<rparr>"

record ninode =
  ni_count :: nat
  ni_skt :: skt

record netfile =
  f_flag :: u16
  f_count :: int
  f_netnode :: "nat \<Rightarrow> nat"

record conentry =
  c_host :: u32
  c_link :: u16
  c_siptr :: nat
  c_skts :: "byte list"

text \<open>An entry of the tables of raw messages; the entries of r_rawtab are 1 to 16, those of
  w_rawtab 17 to 32.\<close>

record rawentry =
  y_host :: u32
  y_lomsg :: int
  y_himsg :: int
  y_rawskt :: nat

text \<open>Where the next input from the IMP goes.\<close>

datatype indest = Leader | Emer | Block nat nat nat

text \<open>Events: printed messages, output started on the interface (block, words, end of message), input started, signals to a
  process, the process of the input daemon told to go down, the timer of the daemon set.\<close>

datatype kev = Printed string | ImpOutput nat int bool | ImpRead indest | SigInr nat | ImpDown | Callout int

record ncp = nk +
  k_openst :: int
  k_lost :: nat
  k_timo :: bool
  k_ncprq :: nat
  k_ncpirq :: nat
  k_spl :: bool
  k_inode :: "nat \<Rightarrow> ninode"
  k_file :: "nat \<Rightarrow> netfile"
  k_filetab :: "nat list"
  k_contab :: "nat \<Rightarrow> conentry"
  k_hostmap :: "nat \<Rightarrow> u16"
  k_localnet :: byte
  k_open_err :: byte
  i_host :: u32
  i_sockt :: nat
  i_con :: nat
  i_msg :: nat
  i_dest :: indest
  i_mlen :: int
  i_flush :: bool
  i_wcnt :: int
  i_inpwcnt :: int
  i_endmsg :: bool
  i_flushes :: nat
  i_leaderr :: nat
  i_leader :: "nat \<Rightarrow> byte"
  i_hhproto :: "byte list"
  i_lhost :: u32
  k_junk :: u16
  o_actf :: nat
  o_actl :: nat
  o_active :: bool
  r_entry :: "nat \<Rightarrow> rawentry"
  k_pstat :: "nat \<Rightarrow> bool"
  r_else :: nat
  r_lomsg :: int
  k_ev :: "kev list"

type_synonym nenv = "(ncp \<Rightarrow> ncp) list"

definition upd_skt :: "nat \<Rightarrow> (skt \<Rightarrow> skt) \<Rightarrow> ncp \<Rightarrow> ncp" where
  "upd_skt ip f s = s\<lparr>k_inode := (k_inode s)(ip := (k_inode s ip)\<lparr>ni_skt := f (ni_skt (k_inode s ip))\<rparr>)\<rparr>"

abbreviation skt_of :: "ncp \<Rightarrow> nat \<Rightarrow> skt" where
  "skt_of s ip \<equiv> ni_skt (k_inode s ip)"

definition upd_file :: "nat \<Rightarrow> (netfile \<Rightarrow> netfile) \<Rightarrow> ncp \<Rightarrow> ncp" where
  "upd_file fp f s = s\<lparr>k_file := (k_file s)(fp := f (k_file s fp))\<rparr>"

definition upd_con :: "nat \<Rightarrow> (conentry \<Rightarrow> conentry) \<Rightarrow> ncp \<Rightarrow> ncp" where
  "upd_con p f s = s\<lparr>k_contab := (k_contab s)(p := f (k_contab s p))\<rparr>"

definition emit :: "kev \<Rightarrow> ncp \<Rightarrow> ncp" where
  "emit e s = s\<lparr>k_ev := k_ev s @ [e]\<rparr>"

definition or_flags :: "u16 \<Rightarrow> skt \<Rightarrow> skt" where "or_flags f k = k\<lparr>sk_flags := sk_flags k OR f\<rparr>"
definition clr_flags :: "u16 \<Rightarrow> skt \<Rightarrow> skt" where "clr_flags f k = k\<lparr>sk_flags := sk_flags k AND NOT f\<rparr>"

section \<open>Host numbers and the host bit map (btest.c)\<close>

text \<open>A long host number has h_hoi, h_net and h_imp in its bytes 2, 3 and its low word.\<close>

definition h_hoi :: "u32 \<Rightarrow> nat" where "h_hoi h = unat ((drop_bit 16 h) AND 0xFF)"
definition h_net :: "u32 \<Rightarrow> byte" where "h_net h = ucast (drop_bit 24 h)"
definition h_imp :: "u32 \<Rightarrow> nat" where "h_imp h = unat (h AND 0xFFFF)"

definition mk_host :: "byte \<Rightarrow> byte \<Rightarrow> u16 \<Rightarrow> u32" where
  "mk_host hoi net imp = push_bit 24 (ucast net) OR push_bit 16 (ucast hoi) OR ucast imp"

text \<open>The map is an array of LIMPS words; what lies behind it is part of the function too, as the
  routines do not check the index.  Addresses are 16 bits, so the index counts modulo 2^15.  The
  shift is the instruction ash, which takes the low six bits of its count as a signed number; a
  shift to the right leaves nothing of the 1.\<close>

definition imp_ix :: "u32 \<Rightarrow> nat" where "imp_ix h = h_imp h mod 2 ^ 15"

definition hoi_bit :: "u32 \<Rightarrow> u16" where
  "hoi_bit h = (let n = h_hoi h mod 64 in if n < 32 then push_bit n 1 else 0)"

definition set_host_map :: "u32 \<Rightarrow> (nat \<Rightarrow> u16) \<Rightarrow> nat \<Rightarrow> u16" where
  "set_host_map h m = m(imp_ix h := m (imp_ix h) OR hoi_bit h)"

definition reset_host :: "u32 \<Rightarrow> (nat \<Rightarrow> u16) \<Rightarrow> nat \<Rightarrow> u16" where
  "reset_host h m = m(imp_ix h := m (imp_ix h) AND NOT (hoi_bit h))"

definition host_on :: "(nat \<Rightarrow> u16) \<Rightarrow> u32 \<Rightarrow> bool" where
  "host_on m h \<longleftrightarrow> m (imp_ix h) AND hoi_bit h \<noteq> 0"

definition host_clean :: "(nat \<Rightarrow> u16) \<Rightarrow> nat \<Rightarrow> u16" where
  "host_clean m = (\<lambda>i. if i < LIMPS then 0 else m i)"

text \<open>The words of the map where host_sleep and host_wakeup wait.\<close>

definition host_chan :: "u32 \<Rightarrow> nat" where
  "host_chan h = (h_imp h) mod 128 + 128 * (h_hoi h mod 16)"

definition good_host :: "byte \<Rightarrow> u32 \<Rightarrow> bool" where
  "good_host localnet h \<longleftrightarrow> h = 0 \<or>
     (h_net h = localnet \<and> h_hoi h < LHOI \<and> 0 < h_imp h \<and> h_imp h < LIMPS)"

text \<open>ltoshost compares signed numbers.\<close>

definition ltoshost :: "byte \<Rightarrow> u32 \<Rightarrow> int" where
  "ltoshost localnet h = (let hoi = sint (of_nat (h_hoi h) :: byte); imp = sint (of_nat (h_imp h) :: u16) in
     if h \<noteq> 0 \<and> (h_net h \<noteq> localnet \<or> imp > 63 \<or> hoi > 3) then -1 else imp OR 64 * hoi)"

definition stolhost :: "byte \<Rightarrow> byte \<Rightarrow> u32" where
  "stolhost localnet c = (if c \<noteq> 0 then mk_host (drop_bit 6 c) localnet (ucast (c AND 0x3F)) else 0)"

section \<open>Connection tables (contab.c)\<close>

definition con_entries :: "u16 \<Rightarrow> nat list" where
  "con_entries link = (if link AND 0x80 \<noteq> 0 then [33..<65] else [1..<33])"

text \<open>incontab returns the first matching entry or 0.\<close>

definition incontab :: "u32 \<Rightarrow> u16 \<Rightarrow> nat \<Rightarrow> ncp \<Rightarrow> nat" where
  "incontab ahost link iptr s = (let link = link AND 0xFF;
       (l, h) = (if link = 0x80 then (0, 0) else (link, ahost))
     in case List.find (\<lambda>p. h = c_host (k_contab s p) \<and> l = c_link (k_contab s p) \<and>
              (iptr = 0 \<or> iptr = c_siptr (k_contab s p))) (con_entries link) of
          None \<Rightarrow> 0 | Some p \<Rightarrow> p)"

definition entcontab :: "u32 \<Rightarrow> u16 \<Rightarrow> nat \<Rightarrow> ncp \<Rightarrow> nat \<times> ncp" where
  "entcontab host link siptr s = (if siptr = 0 then (0, s) else
     let link = link AND 0xFF; p = incontab 0 (link AND 0x80) 0 s in
     if p \<noteq> 0 then
       (p, upd_skt siptr (\<lambda>k. k\<lparr>sk_conent := p\<rparr>)
             (upd_con p (\<lambda>c. c\<lparr>c_host := host, c_link := link, c_siptr := siptr\<rparr>) s))
     else (0, s))"

definition ipcontab :: "nat \<Rightarrow> ncp \<Rightarrow> nat" where
  "ipcontab ip s = (if ip \<noteq> 0 \<and> sk_conent (skt_of s ip) \<noteq> 0 \<and>
       c_siptr (k_contab s (sk_conent (skt_of s ip))) = ip
     then sk_conent (skt_of s ip) else 0)"

definition rmcontab :: "nat \<Rightarrow> ncp \<Rightarrow> ncp" where
  "rmcontab p s = (if p \<noteq> 0 then
     let sp = c_siptr (k_contab s p);
         s = upd_con p (\<lambda>c. c\<lparr>c_host := 0, c_link := 0\<rparr>) s;
         s = (if sp \<noteq> 0 \<and> sk_conent (skt_of s sp) = p then upd_skt sp (\<lambda>k. k\<lparr>sk_conent := 0\<rparr>) s else s)
     in upd_con p (\<lambda>c. c\<lparr>c_siptr := 0\<rparr>) s
     else s)"

text \<open>infiletab returns the position in file_tab, counted from 1, or 0.\<close>

definition infiletab :: "nat \<Rightarrow> ncp \<Rightarrow> nat" where
  "infiletab w s = (case List.find (\<lambda>i. k_filetab s ! i = w) [0..<length (k_filetab s)] of
     None \<Rightarrow> 0 | Some i \<Rightarrow> Suc i)"

section \<open>Messages held by the kernel\<close>

text \<open>The buffers reachable from a message handle, and the handles the kernel keeps: the queues
  to the daemon, the message being read, the output queue and the queues of the sockets of the files
  in use (a raw file keeps the message being written in the same word of its write socket).\<close>

definition reach :: "(nat \<Rightarrow> nat) \<Rightarrow> nat \<Rightarrow> nat set" where
  "reach nx p = (if p = 0 then {} else {(nx ^^ n) p | n. True})"

definition rd_skts :: "ncp \<Rightarrow> nat set" where
  "rd_skts s = {ip. ip \<noteq> 0 \<and> (\<exists>fp. f_count (k_file s fp) \<noteq> 0 \<and> (f_netnode (k_file s fp) f_rdnode = ip \<or>
     (f_flag (k_file s fp) AND FRAW \<noteq> 0 \<and> f_netnode (k_file s fp) f_wrtnode = ip)))}"

definition handles :: "ncp \<Rightarrow> nat set" where
  "handles s = {k_ncprq s, k_ncpirq s, i_msg s, o_actl s} \<union> (\<lambda>ip. r_msgq (skt_of s ip)) ` rd_skts s"

definition held :: "ncp \<Rightarrow> nat set" where
  "held s = (\<Union>p\<in>handles s. reach (qlink s) p)"

lemma reach_cong:
  assumes "\<And>x. x \<in> reach nx p \<Longrightarrow> nx' x = nx x"
  shows "reach nx' p = reach nx p"
proof (cases "p = 0")
  case False
  have "(nx' ^^ n) p = (nx ^^ n) p" for n
  proof (induction n)
    case (Suc n)
    have "(nx ^^ n) p \<in> reach nx p" using False by (auto simp: reach_def)
    then show ?case using assms Suc by simp
  qed simp
  then show ?thesis using False by (simp add: reach_def)
qed (simp add: reach_def)

lemma reach_msgq:
  assumes "msgq nx p xs"
  shows "reach nx p = set xs"
proof (cases "p = 0")
  case True
  then show ?thesis using assms by (simp add: reach_def)
next
  case False
  then have r: "ring nx p xs" using assms by (simp add: msgq_ring)
  have step: "nx x \<in> set xs" if "x \<in> set xs" for x
  proof -
    have "set (map nx xs) = set xs" using r unfolding ring_def by (metis set_rotate1)
    then show ?thesis using that by auto
  qed
  have "(nx ^^ n) p \<in> set xs" for n
    by (induction n) (simp_all add: step ring_set_last [OF r])
  moreover have "(nx ^^ Suc i) p = xs ! i" if "i < length xs" for i
    using that
  proof (induction i)
    case 0
    then show ?case using ring_hd_in [OF r] by (simp add: hd_conv_nth)
  next
    case (Suc i)
    have "nx (xs ! i) = map nx xs ! i" using Suc.prems by simp
    also have "\<dots> = rotate1 xs ! i" using r by (simp add: ring_def)
    also have "\<dots> = xs ! Suc i" using Suc.prems by (simp add: nth_rotate1)
    finally show ?case using Suc by simp
  qed
  then have "\<exists>n. (nx ^^ n) p = y" if "y \<in> set xs" for y
    using that by (metis in_set_conv_nth)
  ultimately show ?thesis using r False by (auto simp: reach_def)
qed

lemma more_eq:
  fixes s s' :: ncp
  assumes "nk.more s' = nk.more s"
  shows "k_ncprq s' = k_ncprq s" "k_ncpirq s' = k_ncpirq s" "i_msg s' = i_msg s" "o_actl s' = o_actl s"
    "k_inode s' = k_inode s" "k_file s' = k_file s" "k_openst s' = k_openst s" "k_lost s' = k_lost s"
    "k_timo s' = k_timo s" "k_spl s' = k_spl s" "k_contab s' = k_contab s" "k_filetab s' = k_filetab s"
    "o_actf s' = o_actf s" "o_active s' = o_active s" "k_ev s' = k_ev s" "k_junk s' = k_junk s"
  using assms by (cases s; cases s'; simp)+

interpretation ncp: buffer_users held
proof
  fix s s' :: ncp
  assume m: "nk.more s' = nk.more s" and sm: "same (held s) s s'"
  have h: "handles s' = handles s" by (simp add: handles_def rd_skts_def more_eq [OF m])
  have "reach (qlink s') p = reach (qlink s) p" if "p \<in> handles s" for p
  proof (rule reach_cong)
    fix x assume "x \<in> reach (qlink s) p"
    then have "x \<in> held s" using that by (auto simp: held_def)
    then show "qlink s' x = qlink s x" using same_buf [OF sm] by simp
  qed
  then show "held s' = held s" by (simp add: held_def h)
qed

end
