(* ===== verification/Ncp_Daemon.thy ===== *)
theory Ncp_Daemon
  imports Ncp_State "HOL-Library.Signed_Division"
begin

text \<open>
  The kernel's side of the NCP daemon (ncpio.c), the output queue of the IMP (sndnetbytes of
  kerbuf.c, impstrat and imp_odone of impio.c) and the release of sockets and files (nopcls.c).

  A user vector is the list of its bytes.  A queue is named by the variable that holds its handle,
  because vectomsg may sleep before the handle is read.  An index of f_netnode outside of 0 to 2 is
  \<open>Wild\<close>.
\<close>

section \<open>Queues\<close>

datatype kqueue = Qnorm | Qint | Qout

definition q_get :: "kqueue \<Rightarrow> ncp \<Rightarrow> nat" where
  "q_get q s = (case q of Qnorm \<Rightarrow> k_ncprq s | Qint \<Rightarrow> k_ncpirq s | Qout \<Rightarrow> o_actl s)"

definition q_set :: "kqueue \<Rightarrow> nat \<Rightarrow> ncp \<Rightarrow> ncp" where
  "q_set q p s = (case q of Qnorm \<Rightarrow> s\<lparr>k_ncprq := p\<rparr> | Qint \<Rightarrow> s\<lparr>k_ncpirq := p\<rparr> | Qout \<Rightarrow> s\<lparr>o_actl := p\<rparr>)"

text \<open>The shift of \<open>n\<close> bytes up by \<open>len\<close>, from the last one on.\<close>

primrec shift_up :: "nat \<Rightarrow> nat \<Rightarrow> nat \<Rightarrow> 'a nk_scheme \<Rightarrow> 'a nk_scheme" where
  "shift_up loc len 0 s = s"
| "shift_up loc len (Suc n) s = shift_up loc len n (sbbyte loc (len + n) (fbbyte loc n s) s)"

definition set_eom :: "nat \<Rightarrow> 'a nk_scheme \<Rightarrow> 'a nk_scheme" where
  "set_eom p s = set_resv p (b_resv (nb_buf s p) OR b_eom) s"

text \<open>The end of msg_q: mark the last buffer and put the message at the end of the queue.\<close>

definition enqueue :: "kqueue \<Rightarrow> nat \<Rightarrow> ncp \<Rightarrow> ncp" where
  "enqueue q msgp s = (let s = set_eom msgp s;
       old = q_get q s;
       s = (if old \<noteq> 0 then
              (let p = qlink s old;
                   s = set_qlink old (qlink s msgp) s
               in set_qlink msgp p s)
            else s)
     in q_set q msgp s)"

definition msg_q :: "kqueue \<Rightarrow> byte list \<Rightarrow> nat \<Rightarrow> nenv \<Rightarrow> ncp \<Rightarrow> stop + bool \<times> nenv \<times> ncp" where
  "msg_q q vec msgp env s =
     (let first = qlink s msgp; old = b_len (nb_buf s first); len = length vec in
      if vec \<noteq> [] \<and> msgp \<noteq> 0 \<and> old + int len \<le> net_b_size then
        (if old < 0 then Inl Wild else
         let s = set_len first (old + int len) s;
             loc = b_loc (nb_buf s first);
             s = shift_up loc len (nat old) s;
             s = sb_bytes loc 0 vec s
         in Inr (False, env, enqueue q msgp s))
      else if vec \<noteq> [] then
        kbind (vectomsg vec 0 env s) (\<lambda>(left, newmsg, env, s).
          if left \<noteq> 0 then kbind (freemsg newmsg s) (\<lambda>s. Inr (True, env, s))
          else kbind (catmsg newmsg msgp s) (\<lambda>(msgp, s).
            if msgp = 0 then Inl Wild else Inr (False, env, enqueue q msgp s)))
      else if msgp = 0 then Inl Wild
      else Inr (False, env, enqueue q msgp s))"

text \<open>to_ncp: 0 is success, 1 no space, -1 the daemon is not there.  The queue depends on the
  processor priority.\<close>

definition to_ncp :: "byte list \<Rightarrow> nat \<Rightarrow> nenv \<Rightarrow> ncp \<Rightarrow> stop + int \<times> nenv \<times> ncp" where
  "to_ncp vec msgpp env s =
     (if k_openst s \<le> 0 then
        kbind (freemsg msgpp (s\<lparr>k_lost := k_lost s + 1\<rparr>)) (\<lambda>s. Inr (-1, env, s))
      else kbind (msg_q (if k_spl s then Qint else Qnorm) vec msgpp env s) (\<lambda>(r, env, s).
        Inr (if r then 1 else 0, env, s)))"

text \<open>log_to_ncp copies the byte in front of the text too and puts the command code over it.\<close>

definition log_to_ncp :: "byte list \<Rightarrow> nenv \<Rightarrow> ncp \<Rightarrow> stop + nenv \<times> ncp" where
  "log_to_ncp txt env s =
     kbind (vectomsg (0 # txt @ [0]) 0 env s) (\<lambda>(left, newmsg, env, s).
       if left \<noteq> 0 then kbind (freemsg newmsg s) (\<lambda>s. Inr (env, s\<lparr>k_lost := k_lost s + 1\<rparr>))
       else
         let s = sbbyte (b_loc (nb_buf s (qlink s newmsg))) 0 ncp_rlog s
         in kbind (to_ncp [] newmsg env s) (\<lambda>(_, env, s). Inr (env, s)))"

section \<open>Reading by the daemon\<close>

text \<open>The loop of ncpread: buffers are moved one by one to a new message until one that carries
  b_eom has been moved.  The flag is looked at after catmsg.\<close>

primrec ncp_gather :: "nat \<Rightarrow> kqueue \<Rightarrow> nat \<Rightarrow> ncp \<Rightarrow> stop + nat \<times> ncp" where
  "ncp_gather 0 q msgptr s = Inl Hang"
| "ncp_gather (Suc f) q msgptr s =
     (let bufptr = qlink s (q_get q s);
          (p, s) = ifreebuf (q_get q s) s;
          s = q_set q p s
      in kbind (catmsg msgptr bufptr s) (\<lambda>(msgptr, s).
         if b_resv (nb_buf s bufptr) AND b_eom = 0 \<and> q_get q s \<noteq> 0 then ncp_gather f q msgptr s
         else Inr (msgptr, s)))"

text \<open>Result: the bytes delivered and whether ENCPIO is set.\<close>

primrec ncpread :: "nat \<Rightarrow> nenv \<Rightarrow> ncp \<Rightarrow> stop + byte list \<times> bool \<times> nenv \<times> ncp" where
  "ncpread count [] s =
     (if k_timo s then Inr ([ncp_timo], False, [], s\<lparr>k_timo := False\<rparr>)
      else if k_ncpirq s \<noteq> 0 \<or> k_ncprq s \<noteq> 0 then
        kbind (ncp_gather ring_fuel (if k_ncpirq s \<noteq> 0 then Qint else Qnorm) 0 s) (\<lambda>(msgptr, s).
        kbind (bytesout msgptr count s) (\<lambda>(left, msgptr, out, s).
        if msgptr \<noteq> 0 then kbind (freemsg msgptr s) (\<lambda>s. Inr (out, True, [], s))
        else Inr (out, False, [], s)))
      else Inl Asleep)"
| "ncpread count (e # env) s =
     (if k_timo s then Inr ([ncp_timo], False, e # env, s\<lparr>k_timo := False\<rparr>)
      else if k_ncpirq s \<noteq> 0 \<or> k_ncprq s \<noteq> 0 then
        kbind (ncp_gather ring_fuel (if k_ncpirq s \<noteq> 0 then Qint else Qnorm) 0 s) (\<lambda>(msgptr, s).
        kbind (bytesout msgptr count s) (\<lambda>(left, msgptr, out, s).
        if msgptr \<noteq> 0 then kbind (freemsg msgptr s) (\<lambda>s. Inr (out, True, e # env, s))
        else Inr (out, False, e # env, s)))
      else ncpread count env (e s))"

section \<open>Output\<close>

text \<open>imp_output (imp11a.c): the first buffer of the queue goes to the interface.\<close>

definition imp_output :: "ncp \<Rightarrow> ncp" where
  "imp_output s = (if o_actf s = 0 then s else
     let b = nb_buf s (o_actf s) in
     emit (ImpOutput (b_loc b) ((b_len b + 1) div 2) (b_resv b AND b_eom \<noteq> 0)) (s\<lparr>o_active := True\<rparr>))"

definition impstrat :: "nat \<Rightarrow> nenv \<Rightarrow> ncp \<Rightarrow> stop + nenv \<times> ncp" where
  "impstrat bp env s = (if bp = 0 then Inl Wild else
     let s = s\<lparr>k_spl := True\<rparr>;
         s = (if o_actf s = 0 then s\<lparr>o_actf := qlink s bp\<rparr> else s)
     in kbind (msg_q Qout [] bp env s) (\<lambda>(_, env, s).
        Inr (env, if o_active s then s else imp_output s)))"

text \<open>The interface has sent the first buffer.\<close>

definition imp_odone :: "ncp \<Rightarrow> stop + ncp" where
  "imp_odone s = (if o_actl s = 0 then Inl Wild else
     kbind (freebuf (o_actl s) s) (\<lambda>(p, s).
       let s = s\<lparr>o_actl := p\<rparr> in
       if p = 0 then Inr (s\<lparr>o_actf := 0, o_active := False\<rparr>)
       else Inr (imp_output (s\<lparr>o_actf := qlink s p\<rparr>))))"

definition swab :: "u16 \<Rightarrow> u16" where
  "swab w = push_bit 8 w OR drop_bit 8 w"

definition lobyte :: "u16 \<Rightarrow> byte" where "lobyte w = ucast w"
definition hibyte :: "u16 \<Rightarrow> byte" where "hibyte w = ucast (drop_bit 8 w)"

text \<open>The leaders of a message on a connection, struct oimp of h/imp.h: 12 bytes for the IMP and 5
  for the other host.  o_mlength is never set, it holds what was on the stack.\<close>

definition net_leader :: "u32 \<Rightarrow> byte \<Rightarrow> byte \<Rightarrow> nat \<Rightarrow> u16 \<Rightarrow> byte list" where
  "net_leader host link bsize ucnt junk =
     (let imp = swab (of_nat (h_imp host)); bcnt = swab (of_int (int ucnt sdiv (sint bsize div 8))) in
      [15, 0, 0, 0, 0, of_nat (h_hoi host), lobyte imp, hibyte imp, link, 0, lobyte junk, hibyte junk,
       0, bsize, lobyte bcnt, hibyte bcnt, 0])"

definition sndnetbytes :: "byte list \<Rightarrow> nat \<Rightarrow> byte \<Rightarrow> nenv \<Rightarrow> ncp \<Rightarrow> stop + nenv \<times> ncp" where
  "sndnetbytes u sktp link env s =
     (let k = skt_of s sktp;
          bsize = (if link \<noteq> 0 then lobyte (sk_bsize k) else 8);
          ldr = (if sktp = 0 then [] else net_leader (c_host (k_contab s (sk_conent k))) link bsize (length u) (k_junk s))
      in kbind (vectomsg ldr 0 env s) (\<lambda>(_, msg, env, s).
         kbind (vectomsg u msg env s) (\<lambda>(_, msg, env, s).
         if msg = 0 then Inl Wild else
         let len = b_len (nb_buf s msg);
             s = (if odd len then set_len msg (len + 1) (sbbyte (b_loc (nb_buf s msg)) (nat len) 0 s) else s)
         in impstrat msg env s)))"

section \<open>Releasing sockets and files (nopcls.c)\<close>

definition net_frlse :: "nat \<Rightarrow> ncp \<Rightarrow> ncp" where
  "net_frlse fp s = (let s = upd_file fp (\<lambda>f. f\<lparr>f_count := f_count f - 1\<rparr>) s in
     if f_count (k_file s fp) = 0 then
       (let p = infiletab fp s;
            s = (if p \<noteq> 0 then s\<lparr>k_filetab := (k_filetab s)[p - 1 := 0]\<rparr> else s)
        in upd_file fp (\<lambda>f. f\<lparr>f_flag := 0\<rparr>) s)
     else s)"

definition daecls :: "nat \<Rightarrow> byte \<Rightarrow> nenv \<Rightarrow> ncp \<Rightarrow> stop + nenv \<times> ncp" where
  "daecls fp off env s =
     kbind (to_ncp [ncp_close, off, lobyte (of_nat fp), hibyte (of_nat fp)] 0 env s) (\<lambda>(_, env, s). Inr (env, s))"

definition daedes :: "nat \<Rightarrow> nat \<Rightarrow> ncp \<Rightarrow> stop + ncp" where
  "daedes fp off s = (let ip = f_netnode (k_file s fp) off in
     if ip = 0 then Inr s else
     kbind (if off = f_rdnode then freemsg (r_msgq (skt_of s ip)) s else Inr s) (\<lambda>s.
       Inr (upd_file fp (\<lambda>f. f\<lparr>f_netnode := (f_netnode f)(off := 0)\<rparr>)
             (s\<lparr>k_inode := (k_inode s)(ip := \<lparr>ni_count = 0, ni_skt = \<lparr>sk_conent = 0, sk_bsize = 0, sk_flags = 0,
                 sk_msgs = 0, sk_w4 = 0, sk_w5 = 0, sk_w6 = 0, sk_w7 = 0, sk_proc = 0\<rparr>\<rparr>)\<rparr>))))"

text \<open>The loop of netclose over the three sockets of a file that its last user closes.\<close>

primrec close_skts :: "nat \<Rightarrow> nat list \<Rightarrow> nenv \<Rightarrow> ncp \<Rightarrow> stop + nenv \<times> ncp" where
  "close_skts fp [] env s = Inr (env, s)"
| "close_skts fp (i # is) env s = (let ip = f_netnode (k_file s fp) i in
     if ip = 0 then close_skts fp is env s else
     kbind (if sk_flags (skt_of s ip) AND n_ncpiu \<noteq> 0 then daecls fp (of_nat i) env s else Inr (env, s)) (\<lambda>(env, s).
     kbind (daedes fp i (rmcontab (ipcontab ip s) s)) (\<lambda>s.
     close_skts fp is env s)))"

definition ncp_netclose :: "nat \<Rightarrow> nenv \<Rightarrow> ncp \<Rightarrow> stop + nenv \<times> ncp" where
  "ncp_netclose fp env s =
     (let rd = f_netnode (k_file s fp) f_rdnode;
          s = (if f_count (k_file s fp) = 3 \<and> rd \<noteq> 0
               then upd_skt rd (\<lambda>k. or_flags n_eof (clr_flags n_open k)) s else s)
      in kbind (if f_count (k_file s fp) \<le> 2 then close_skts fp [0, 1, 2] env s else Inr (env, s)) (\<lambda>(env, s).
         Inr (env, net_frlse fp s)))"

section \<open>Commands of the daemon (ncpwrite)\<close>

record ncprs =
  rs_opcode :: byte
  rs_index :: byte
  rs_id :: nat
  rs_host :: u32
  rs_link :: u16
  rs_status :: byte
  rs_bytesize :: byte

definition word_of :: "byte \<Rightarrow> byte \<Rightarrow> u16" where
  "word_of lo hi = ucast lo OR push_bit 8 (ucast hi)"

definition long_of :: "u16 \<Rightarrow> u16 \<Rightarrow> u32" where
  "long_of hi lo = push_bit 16 (ucast hi) OR ucast lo"

definition parse_ncprs :: "byte list \<Rightarrow> ncprs" where
  "parse_ncprs b = \<lparr>rs_opcode = b ! 0, rs_index = b ! 1, rs_id = unat (word_of (b ! 2) (b ! 3)),
     rs_host = long_of (word_of (b ! 4) (b ! 5)) (word_of (b ! 6) (b ! 7)),
     rs_link = word_of (b ! 8) (b ! 9), rs_status = b ! 10, rs_bytesize = b ! 11\<rparr>"

definition want_id :: nat where "want_id = 1"
definition want_inodep :: nat where "want_inodep = 2"

text \<open>ncpoptable: what an operation wants checked and how many bytes follow the prelude.\<close>

definition ncpopwants :: "nat \<Rightarrow> nat" where
  "ncpopwants i = [0, want_id, want_id + want_inodep, want_id, 0, 0, want_id, 0] ! i"

definition ncpopsizes :: "nat \<Rightarrow> nat" where
  "ncpopsizes i = [12, 6, 6, 0, 0, 0, 0, 2] ! i"

datatype kerr = ENCPINV | ENFILE | ENCPIO | ENCPNO | EBADF | EMNETF | ENOTNET | ERAWMLEN | ENCP2 |
  EMFILE | ERAWINV | ERAWINO | ERAWMDUP | ERAWTAB | EPERM | EINVAL | Open_err byte

text \<open>f_netnode[index] for an index that comes from the daemon.\<close>

definition netnode :: "nat \<Rightarrow> byte \<Rightarrow> ncp \<Rightarrow> stop + nat" where
  "netnode fp idx s = (if unat idx \<le> 2 then Inr (f_netnode (k_file s fp) (unat idx)) else Inl Wild)"

text \<open>cpass delivers the next byte, or -1 when the count is used up.\<close>

definition cpass :: "byte list \<Rightarrow> byte \<times> byte list" where
  "cpass u = (case u of [] \<Rightarrow> (255, []) | c # cs \<Rightarrow> (c, cs))"

primrec cpass_n :: "nat \<Rightarrow> byte list \<Rightarrow> byte list \<times> byte list" where
  "cpass_n 0 u = ([], u)"
| "cpass_n (Suc n) u = (let (c, u) = cpass u; (cs, u) = cpass_n n u in (c # cs, u))"

definition wf_send :: "byte list \<Rightarrow> nenv \<Rightarrow> ncp \<Rightarrow> stop + kerr option \<times> nenv \<times> ncp" where
  "wf_send u env s = kbind (sndnetbytes u 0 0 env s) (\<lambda>(env, s). Inr (None, env, s))"

definition dpadd :: "u16 \<Rightarrow> skt \<Rightarrow> skt" where
  "dpadd n k = (let lo = uint (w_falloc_lo k) + uint n in
     k\<lparr>sk_w5 := of_int lo, sk_w4 := sk_w4 k + (if lo \<ge> 2 ^ 16 then 1 else 0)\<rparr>)"

definition dpsub :: "u16 \<Rightarrow> skt \<Rightarrow> skt" where
  "dpsub n k = k\<lparr>sk_w5 := w_falloc_lo k - n, sk_w4 := sk_w4 k - (if w_falloc_lo k < n then 1 else 0)\<rparr>"

definition wf_inc_alloc :: "nat \<Rightarrow> u16 \<Rightarrow> byte list \<Rightarrow> ncp \<Rightarrow> byte list \<times> ncp" where
  "wf_inc_alloc ip link u s = (let (b, u) = cpass_n 6 u;
       a0 = word_of (b ! 0) (b ! 1); a1 = word_of (b ! 2) (b ! 3); a2 = word_of (b ! 4) (b ! 5);
       s = upd_skt ip (\<lambda>k. k\<lparr>sk_msgs := sk_msgs k + a0\<rparr>) s
     in (u, if link AND 0x80 \<noteq> 0 then upd_skt ip (\<lambda>k. dpadd a2 (k\<lparr>sk_w4 := sk_w4 k + a1\<rparr>)) s
            else upd_skt ip (\<lambda>k. k\<lparr>sk_w4 := sk_w4 k + of_int (sint a2 div 8)\<rparr>) s))"

text \<open>wf_update_skt stores six bytes through its argument, which the callers do not test.\<close>

definition wf_update_skt :: "nat \<Rightarrow> byte list \<Rightarrow> ncp \<Rightarrow> stop + ncp" where
  "wf_update_skt con u s = (let (b, u) = cpass_n 6 u in
     if con = 0 then Inl Wild else Inr (upd_con con (\<lambda>c. c\<lparr>c_skts := b\<rparr>) s))"

definition wf_mod :: "ncprs \<Rightarrow> nat \<Rightarrow> byte list \<Rightarrow> nenv \<Rightarrow> ncp \<Rightarrow> stop + kerr option \<times> nenv \<times> ncp" where
  "wf_mod r ip u env s =
     (let s = upd_skt ip (\<lambda>k. or_flags (scast (rs_status r) AND (n_toncp OR n_open))
                (clr_flags (n_toncp OR n_open) k)) s;
          p = ipcontab ip s;
          s = (if p \<noteq> 0 then upd_con p (\<lambda>c. c\<lparr>c_host := rs_host r, c_link := rs_link r\<rparr>) s else s);
          s = upd_skt ip (\<lambda>k. k\<lparr>sk_bsize := scast (rs_bytesize r)\<rparr>) s;
          (u, s) = wf_inc_alloc ip (rs_link r) u s
      in kbind (wf_update_skt p u s) (\<lambda>s. Inr (None, env, s)))"

definition txt_nofree :: "byte list" where
  "txt_nofree = map of_char ''Ncp Setup: No free inodes'' @ [10]"

definition wf_setup :: "ncprs \<Rightarrow> byte list \<Rightarrow> nenv \<Rightarrow> ncp \<Rightarrow> stop + kerr option \<times> nenv \<times> ncp" where
  "wf_setup r u env s =
     (case List.find (\<lambda>ip. ni_count (k_inode s ip) = 0) [1..<NINODE + 1] of
        None \<Rightarrow> kbind (log_to_ncp txt_nofree env s) (\<lambda>(env, s). Inr (Some ENFILE, env, s))
      | Some ip \<Rightarrow> if unat (rs_index r) > 2 then Inl Wild else
          let s = s\<lparr>k_inode := (k_inode s)(ip := (k_inode s ip)\<lparr>ni_count := 2\<rparr>)\<rparr>;
              s = upd_file (rs_id r) (\<lambda>f. f\<lparr>f_netnode := (f_netnode f)(unat (rs_index r) := ip)\<rparr>) s;
              s = upd_skt ip (\<lambda>k. k\<lparr>sk_flags := (scast (rs_status r) AND (n_open OR n_toncp)) OR n_ncpiu,
                    sk_bsize := scast (rs_bytesize r), sk_msgs := 0, sk_w4 := 0, sk_w5 := 0, sk_w6 := 0, sk_w7 := 0\<rparr>) s;
              (con, s) = entcontab (rs_host r) (rs_link r) ip s
          in kbind (if con = 0 then log_to_ncp (map of_char ''wf_setup: no connection entries'' @ [10]) env s else Inr (env, s))
               (\<lambda>(env, s). let (u, s) = wf_inc_alloc ip (rs_link r) u s in
                 kbind (wf_update_skt con u s) (\<lambda>s. Inr (None, env, s))))"

definition wf_ready :: "ncprs \<Rightarrow> ncp \<Rightarrow> kerr option \<times> ncp" where
  "wf_ready r s = (let fp = rs_id r in
     if rs_status r \<noteq> 0 then
       (let s = upd_file fp (\<lambda>f. f\<lparr>f_flag := f_flag f OR FERR\<rparr>) s in
        if f_netnode (k_file s fp) f_rdnode \<noteq> 0 then (Some ENCPINV, s)
        else (None, s\<lparr>k_open_err := rs_status r\<rparr>))
     else (None, upd_file fp (\<lambda>f. f\<lparr>f_flag := f_flag f OR FOPEN\<rparr>) s))"

definition iclean :: "nat \<Rightarrow> byte \<Rightarrow> nenv \<Rightarrow> ncp \<Rightarrow> stop + nenv \<times> ncp" where
  "iclean fp idx env s = (if fp = 0 \<or> infiletab fp s = 0 then Inr (env, s) else
     kbind (netnode fp idx s) (\<lambda>ip. if ip = 0 then Inr (env, s) else
       kbind (daecls fp idx env (rmcontab (ipcontab ip s) s)) (\<lambda>(env, s).
       if sk_flags (skt_of s ip) AND n_usriu \<noteq> 0 then
         Inr (env, upd_skt ip (\<lambda>k. or_flags n_eof (clr_flags (n_ncpiu OR n_open) k))
                     (upd_file fp (\<lambda>f. f\<lparr>f_flag := f_flag f OR FERR\<rparr>) s))
       else kbind (daedes fp (unat idx) s) (\<lambda>s. Inr (env, s)))))"

definition wf_clean :: "ncprs \<Rightarrow> nenv \<Rightarrow> ncp \<Rightarrow> stop + kerr option \<times> nenv \<times> ncp" where
  "wf_clean r env s = kbind (iclean (rs_id r) (rs_index r) env s) (\<lambda>(env, s). Inr (None, env, s))"

text \<open>wf_reset reads c_host of the connection of every socket the daemon uses, without testing
  that there is one.\<close>

primrec reset_skts :: "u32 \<Rightarrow> nat \<Rightarrow> nat list \<Rightarrow> nenv \<Rightarrow> ncp \<Rightarrow> stop + nenv \<times> ncp" where
  "reset_skts host fp [] env s = Inr (env, s)"
| "reset_skts host fp (i # is) env s = (let ip = f_netnode (k_file s fp) i in
     if ip \<noteq> 0 \<and> sk_flags (skt_of s ip) AND n_ncpiu \<noteq> 0 then
       (if host \<noteq> 0 \<and> ipcontab ip s = 0 then Inl Wild
        else if host = 0 \<or> host = c_host (k_contab s (ipcontab ip s)) then
          kbind (iclean fp (of_nat i) env (upd_file fp (\<lambda>f. f\<lparr>f_flag := f_flag f OR FERR\<rparr>) s)) (\<lambda>(env, s).
          reset_skts host fp is env s)
        else reset_skts host fp is env s)
     else reset_skts host fp is env s)"

primrec reset_files :: "u32 \<Rightarrow> nat list \<Rightarrow> nenv \<Rightarrow> ncp \<Rightarrow> stop + nenv \<times> ncp" where
  "reset_files host [] env s = Inr (env, s)"
| "reset_files host (i # is) env s = (let fp = k_filetab s ! i in
     if fp \<noteq> 0 \<and> f_flag (k_file s fp) AND FERR = 0 then
       kbind (reset_skts host fp [0, 1, 2] env s) (\<lambda>(env, s). reset_files host is env s)
     else reset_files host is env s)"

definition wf_reset :: "ncprs \<Rightarrow> nenv \<Rightarrow> ncp \<Rightarrow> stop + kerr option \<times> nenv \<times> ncp" where
  "wf_reset r env s = kbind (reset_files (rs_host r) [0..<length (k_filetab s)] env s) (\<lambda>(env, s). Inr (None, env, s))"

definition wf_frlse :: "ncprs \<Rightarrow> ncp \<Rightarrow> ncp" where
  "wf_frlse r s = net_frlse (rs_id r) s"

text \<open>wf_stimo starts a callout, daetim is what runs then; the count of clock ticks is a word.\<close>

definition wf_stimo :: "byte list \<Rightarrow> ncp \<Rightarrow> ncp" where
  "wf_stimo u s = (let (b, u) = cpass_n 2 u in emit (Callout (sint (word_of (b ! 0) (b ! 1) * 60))) s)"

definition txt_id :: "byte list" where "txt_id = map of_char ''ncpwrt:id'' @ [10]"
definition txt_index :: "byte list" where "txt_index = map of_char ''ncpwrt:index'' @ [10]"

text \<open>The condition on the file: \<open>==\<close> binds tighter than \<open>&\<close>, so the flags are masked with the value of
  FNET == 0.  A want_inodep operation refuses an index above 2, but the index is signed.\<close>

definition bad_id :: "nat \<Rightarrow> ncp \<Rightarrow> bool" where
  "bad_id fp s \<longleftrightarrow> fp = 0 \<or> infiletab fp s = 0 \<or> f_flag (k_file s fp) AND (if FNET = 0 then 1 else 0) \<noteq> 0"

definition ncpwrite :: "byte list \<Rightarrow> nenv \<Rightarrow> ncp \<Rightarrow> stop + kerr option \<times> nenv \<times> ncp" where
  "ncpwrite vec env s =
     (if length vec < 12 then Inr (Some ENCPINV, env, s) else
      let r = parse_ncprs vec; u = drop 12 vec; i = sint (rs_opcode r); n = nat i in
      if i < 0 \<or> i > 7 \<or> length u < ncpopsizes n then
        kbind (log_to_ncp txt_id env s) (\<lambda>(env, s). Inr (Some ENCPINV, env, s))
      else if odd (ncpopwants n) \<and> bad_id (rs_id r) s then
        kbind (log_to_ncp txt_index env s) (\<lambda>(env, s). Inr (Some ENCPINV, env, s))
      else if ncpopwants n \<ge> 2 \<and> sint (rs_index r) > 2 then Inr (Some ENCPINV, env, s)
      else kbind (if ncpopwants n \<ge> 2 then netnode (rs_id r) (rs_index r) s else Inr 0) (\<lambda>ip.
        if ncpopwants n \<ge> 2 \<and> ip = 0 then Inr (Some ENCPINV, env, s)
        else if n = 0 then wf_send u env s
        else if n = 1 then wf_setup r u env s
        else if n = 2 then wf_mod r ip u env s
        else if n = 3 then Inr (let (e, s) = wf_ready r s in (e, env, s))
        else if n = 4 then wf_clean r env s
        else if n = 5 then wf_reset r env s
        else if n = 6 then Inr (None, env, wf_frlse r s)
        else Inr (None, env, wf_stimo u s)))"

definition daetim :: "ncp \<Rightarrow> ncp" where "daetim s = s\<lparr>k_timo := True\<rparr>"

primrec getkbs :: "nat \<Rightarrow> nenv \<Rightarrow> ncp \<Rightarrow> stop + nenv \<times> ncp" where
  "getkbs 0 env s = Inl Hang"
| "getkbs (Suc f) env s = (if nb_alloc s < 4 then kbind (getkb env s) (\<lambda>(_, env, s). getkbs f env s)
     else Inr (env, s))"

definition ncpopen :: "nenv \<Rightarrow> ncp \<Rightarrow> stop + kerr option \<times> nenv \<times> ncp" where
  "ncpopen env s = (if k_openst s \<noteq> 0 then Inr (Some ENCP2, env, s)
     else kbind (getkbs ring_fuel env (s\<lparr>nb_hyster := 4\<rparr>)) (\<lambda>(env, s).
       Inr (None, env, s\<lparr>k_openst := k_openst s + 1\<rparr>)))"

definition sendins :: "nat \<Rightarrow> nenv \<Rightarrow> ncp \<Rightarrow> stop + kerr option \<times> nenv \<times> ncp" where
  "sendins fp env s = (if fp = 0 then Inr (Some EBADF, env, s)
     else if f_flag (k_file s fp) AND FNET = 0 then Inr (Some ENOTNET, env, s)
     else let sk = f_netnode (k_file s fp) f_wrtnode; con = ipcontab sk s in
       if con = 0 then Inr (Some EBADF, env, s)
       else kbind (sndnetbytes [hhins, lobyte (c_link (k_contab s con) AND NOT 0x80)] sk 0 env s) (\<lambda>(env, s).
         Inr (None, env, s)))"

end
