(* ===== verification/Ncp_Imp.thy ===== *)
theory Ncp_Imp
  imports Ncp_Daemon
begin

text \<open>
  Input from the IMP (impio.c) and the raw message interface (rawtable.c, rawmain.c).  The input
  process waits for the interface to fill the leader or a buffer and then runs \<open>imp_input\<close>; the
  arrival of the data is the step \<open>imp_arrive\<close>.
\<close>

section \<open>Starting a read\<close>

definition impread :: "indest \<Rightarrow> int \<Rightarrow> ncp \<Rightarrow> ncp" where
  "impread d n s = emit (ImpRead d) (s\<lparr>k_spl := True, i_dest := d, i_wcnt := n div 2\<rparr>)"

definition implread :: "ncp \<Rightarrow> ncp" where
  "implread s = impread Leader 16 s"

definition flushimp :: "ncp \<Rightarrow> ncp" where
  "flushimp s = impread Emer net_b_size (s\<lparr>i_flush := True, i_flushes := i_flushes s + 1\<rparr>)"

definition ihbget :: "nenv \<Rightarrow> ncp \<Rightarrow> stop + nenv \<times> ncp" where
  "ihbget env s = kbind (appendb (i_msg s) env s) (\<lambda>(bp, env, s).
     if bp \<noteq> 0 then Inr (env, impread (Block (b_loc (nb_buf s bp)) 0 64) net_b_size (s\<lparr>i_msg := bp\<rparr>))
     else Inr (env, flushimp (emit (Printed ''IMP:Flush(No Bfrs)'') s)))"

text \<open>The interface has stored words at the place given and interrupts with the count of the words
  that did not come, as a negative number.\<close>

primrec leader_bytes :: "nat \<Rightarrow> byte list \<Rightarrow> (nat \<Rightarrow> byte) \<Rightarrow> nat \<Rightarrow> byte" where
  "leader_bytes d [] l = l"
| "leader_bytes d (c # cs) l = leader_bytes (Suc d) cs (l(d := c))"

definition imp_arrive :: "byte list \<Rightarrow> bool \<Rightarrow> ncp \<Rightarrow> ncp" where
  "imp_arrive bs endm s =
     (let n = nat (2 * i_wcnt s); data = take n bs;
          s = s\<lparr>i_endmsg := endm, i_inpwcnt := - ((int n - int (length data)) div 2)\<rparr>
      in case i_dest s of
           Leader \<Rightarrow> s\<lparr>i_leader := leader_bytes 0 data (i_leader s)\<rparr>
         | Emer \<Rightarrow> s
         | Block loc off sz \<Rightarrow> sb_bytes loc off data s)"

section \<open>The leader\<close>

abbreviation l_type :: "ncp \<Rightarrow> byte" where "l_type s \<equiv> i_leader s 3"
abbreviation l_host :: "ncp \<Rightarrow> byte" where "l_host s \<equiv> i_leader s 5"
abbreviation l_link :: "ncp \<Rightarrow> byte" where "l_link s \<equiv> i_leader s 8"
abbreviation l_subtype :: "ncp \<Rightarrow> byte" where "l_subtype s \<equiv> i_leader s 9"
abbreviation l_pad1 :: "ncp \<Rightarrow> byte" where "l_pad1 s \<equiv> i_leader s 12"
abbreviation l_bsize :: "ncp \<Rightarrow> byte" where "l_bsize s \<equiv> i_leader s 13"

definition l_bcnt :: "ncp \<Rightarrow> u16" where
  "l_bcnt s = word_of (i_leader s 14) (i_leader s 15)"

text \<open>impi_host: the two bytes of the imp field are exchanged.\<close>

definition leader_host :: "ncp \<Rightarrow> u32" where
  "leader_host s = (let h = mk_host (l_host s) 0 (word_of (i_leader s 7) (i_leader s 6)) in
     if h \<noteq> 0 then mk_host (l_host s) (k_localnet s) (word_of (i_leader s 7) (i_leader s 6)) else 0)"

text \<open>The 13 bytes that go to the daemon with a message: the command ncp_rcv and the IMP leader.\<close>

definition rcv_leader :: "ncp \<Rightarrow> byte list" where
  "rcv_leader s = ncp_rcv # map (i_leader s) [0..<12]"

definition imphostlink :: "byte \<Rightarrow> ncp \<Rightarrow> nat" where
  "imphostlink link s = (let p = incontab (i_host s) (ucast link) 0 s in
     if p \<noteq> 0 then c_siptr (k_contab s p) else 0)"

section \<open>Raw message tables (rawtable.c)\<close>

definition raw_entries :: "nat \<Rightarrow> nat list" where
  "raw_entries mode = (if mode \<noteq> 0 then [17..<33] else [1..<17])"

definition HIMSG :: int where "HIMSG = 4095"
definition ELSEMSG :: int where "ELSEMSG = 4095"

text \<open>getrawtab with a socket (0 for a free entry), and with a range of messages: 0 when the range
  is free, -1 when it is out of bounds or in conflict with an entry.\<close>

definition getrawskt :: "nat \<Rightarrow> nat \<Rightarrow> ncp \<Rightarrow> nat" where
  "getrawskt mode sk s = (case List.find (\<lambda>i. y_rawskt (r_entry s i) = sk) (raw_entries mode) of
     None \<Rightarrow> 0 | Some i \<Rightarrow> i)"

definition raw_same :: "u32 \<Rightarrow> int \<Rightarrow> int \<Rightarrow> rawentry \<Rightarrow> bool" where
  "raw_same host lo hi e \<longleftrightarrow> y_host e = host \<and> y_lomsg e = lo \<and> y_himsg e = hi"

definition raw_clash :: "u32 \<Rightarrow> int \<Rightarrow> int \<Rightarrow> rawentry \<Rightarrow> bool" where
  "raw_clash host lo hi e \<longleftrightarrow> (y_host e = host \<or> y_host e = 0 \<or> host = 0) \<and> y_lomsg e \<le> hi \<and> y_himsg e \<ge> lo"

definition getrawtab :: "nat \<Rightarrow> u32 \<Rightarrow> int \<Rightarrow> int \<Rightarrow> ncp \<Rightarrow> int" where
  "getrawtab mode host lo hi s = (if lo < r_lomsg s \<or> hi > HIMSG then -1 else
     case List.find (\<lambda>i. y_rawskt (r_entry s i) \<noteq> 0 \<and>
         (raw_same host lo hi (r_entry s i) \<or> raw_clash host lo hi (r_entry s i))) (raw_entries mode) of
       None \<Rightarrow> 0 | Some i \<Rightarrow> if raw_same host lo hi (r_entry s i) then int i else -1)"

definition putrawtab :: "nat \<Rightarrow> u32 \<Rightarrow> int \<Rightarrow> int \<Rightarrow> nat \<Rightarrow> ncp \<Rightarrow> nat \<times> ncp" where
  "putrawtab mode host lo hi sk s = (if getrawtab mode host lo hi s = 0 then
     let i = getrawskt mode 0 s in
     if i \<noteq> 0 then
       (i, s\<lparr>r_entry := (r_entry s)(i := \<lparr>y_host = host, y_lomsg = lo, y_himsg = hi, y_rawskt = sk\<rparr>),
          r_else := if mode = 0 \<and> host = 0 \<and> lo = hi \<and> lo = ELSEMSG then i else r_else s\<rparr>)
     else (0, s)
   else (0, s))"

definition rmrawtab :: "nat \<Rightarrow> ncp \<Rightarrow> ncp" where
  "rmrawtab i s = (if i \<noteq> 0 then
     s\<lparr>r_else := if i = r_else s then 0 else r_else s, r_entry := (r_entry s)(i := (r_entry s i)\<lparr>y_rawskt := 0\<rparr>)\<rparr>
   else s)"

definition inrawtab :: "nat \<Rightarrow> u32 \<Rightarrow> int \<Rightarrow> ncp \<Rightarrow> nat" where
  "inrawtab mode host msg s = (if msg < r_lomsg s then 0 else
     case List.find (\<lambda>i. y_rawskt (r_entry s i) \<noteq> 0 \<and> sk_flags (skt_of s (y_rawskt (r_entry s i))) AND n_open \<noteq> 0 \<and>
         (y_host (r_entry s i) = host \<or> y_host (r_entry s i) = 0) \<and> y_lomsg (r_entry s i) \<le> msg \<and> msg \<le> y_himsg (r_entry s i))
       (raw_entries mode) of
       Some i \<Rightarrow> i | None \<Rightarrow> if mode = 0 then r_else s else 0)"

section \<open>Raw input (rawmain.c)\<close>

definition rawhostmsg :: "ncp \<Rightarrow> nat" where
  "rawhostmsg s = inrawtab 0 (i_host s) (uint (drop_bit 4 (word_of (l_subtype s) (l_link s)) AND 0xFFF)) s"

definition sbword :: "nat \<Rightarrow> nat \<Rightarrow> u16 \<Rightarrow> 'a nk_scheme \<Rightarrow> 'a nk_scheme" where
  "sbword loc d w s = sbbyte loc (d + 1) (hibyte w) (sbbyte loc d (lobyte w) s)"

definition fbword :: "nat \<Rightarrow> nat \<Rightarrow> 'a nk_scheme \<Rightarrow> u16" where
  "fbword loc d s = word_of (fbbyte loc d s) (fbbyte loc (d + 1) s)"

definition rawlget :: "nenv \<Rightarrow> ncp \<Rightarrow> stop + bool \<times> nenv \<times> ncp" where
  "rawlget env s = kbind (rawbuf env s) (\<lambda>(bp, env, s).
     if bp = 0 then Inr (False, env, if i_endmsg s then s else flushimp s)
     else let amt = 2 + (i_wcnt s + i_inpwcnt s) * 2 in
       if amt < 2 \<or> amt > net_b_size then
         kbind (freebuf bp (emit (Printed ''rawlget: bad amount'') s)) (\<lambda>(_, s).
           Inr (False, env, flushimp (s\<lparr>i_msg := 0\<rparr>)))
       else
         let loc = b_loc (nb_buf s bp);
             s = sbword loc 0 (of_int amt) s;
             s = sb_bytes loc 2 (map (i_leader s) [0..<nat amt - 2]) s;
             s = set_len bp amt (s\<lparr>i_msg := bp, i_mlen := amt\<rparr>);
             s = (if i_endmsg s then s else impread (Block loc (nat amt) (nat (net_b_size - amt))) (net_b_size - amt) s)
         in Inr (True, env, s))"

definition rawstrat :: "nat \<Rightarrow> ncp \<Rightarrow> stop + ncp" where
  "rawstrat i s = (let j = y_rawskt (r_entry s i) in
     if j \<noteq> 0 then
       kbind (catmsg (r_msgq (skt_of s j)) (i_msg s) s) (\<lambda>(m, s).
         Inr (upd_skt j (\<lambda>k. set_r_msgq m (k\<lparr>sk_w6 := sk_w6 k + of_int (i_mlen s)\<rparr>)) s))
     else freemsg (i_msg s) s)"

definition rawhh :: "nenv \<Rightarrow> ncp \<Rightarrow> stop + nenv \<times> ncp" where
  "rawhh env s =
     (let cnt = (i_wcnt s + i_inpwcnt s) * 2;
          s = s\<lparr>i_mlen := i_mlen s + cnt\<rparr>;
          s = (if i_msg s \<noteq> 0 then set_len (i_msg s) (b_len (nb_buf s (i_msg s)) + cnt) s else s)
      in if i_endmsg s then
           kbind (if i_flush s then kbind (freemsg (i_msg s) s) (\<lambda>s. Inr (s\<lparr>i_flush := False\<rparr>))
                  else if i_msg s = 0 then Inl Wild
                  else
                    (let s = sbword (b_loc (nb_buf s (qlink s (i_msg s)))) 0 (of_int (i_mlen s)) s in
                     if i_con s \<noteq> 0 then rawstrat (i_con s) s else freemsg (i_msg s) s))
             (\<lambda>s. Inr (env, implread (s\<lparr>i_msg := 0\<rparr>)))
         else if i_inpwcnt s = 0 then (if i_flush s then Inr (env, flushimp s) else ihbget env s)
         else Inr (env, emit (Printed ''IMP:Phantom Intrp'') s))"

definition has_msgid :: "byte \<Rightarrow> bool" where
  "has_msgid i \<longleftrightarrow> i = 0 \<or> i = 3 \<or> i = ih_rfnm \<or> (7 \<le> i \<and> i \<le> ih_ictrans) \<or> (11 \<le> i \<and> i \<le> 14)"

definition rawih :: "nenv \<Rightarrow> ncp \<Rightarrow> stop + bool \<times> nenv \<times> ncp" where
  "rawih env s =
     (let i = l_type s AND 0x5F;
          j = (if has_msgid i then rawhostmsg s else r_else s);
          ret = has_msgid i \<and> j \<noteq> 0
      in kbind (if j \<noteq> 0 then
           kbind (rawlget env s) (\<lambda>(ok, env, s). if ok then kbind (rawstrat j (s\<lparr>i_con := j\<rparr>)) (\<lambda>s. Inr (env, s)) else Inr (env, s))
         else Inr (env, s)) (\<lambda>(env, s).
         if ret \<or> k_openst s < 0 then Inr (True, env, implread (s\<lparr>i_msg := 0\<rparr>)) else Inr (ret, env, s)))"

text \<open>rawread and rawwrite return None when the socket is not a raw one.\<close>

definition rawrw :: "nat \<Rightarrow> nat \<Rightarrow> nat \<Rightarrow> ncp \<Rightarrow> (kerr option \<times> ncp) option + ncp" where
  "rawrw up ip count s = (if ip = 0 then Inl (Some (Some EBADF, s))
     else if sk_flags (skt_of s ip) AND n_raw = 0 then Inl None
     else if sk_flags (skt_of s ip) AND n_open = 0 then Inl (Some (Some EBADF, s))
     else let s = upd_skt ip (\<lambda>k. k\<lparr>sk_proc := up\<rparr>) s in
       if count = 0 then Inl (Some (None, s)) else Inr s)"

definition MAXMSG :: nat where "MAXMSG = 1020"
definition RAWPAD :: nat where "RAWPAD = 4"

text \<open>v_bytes is the word w4, v_msgq w5 and v_qtotal w6 of a raw socket.  A write of one byte that starts a
  message takes two from the count, which wraps around: the kernel goes on with bytes from behind the
  vector of the user, \<open>Wild\<close> here.\<close>

definition rawread :: "nat \<Rightarrow> nat \<Rightarrow> nat \<Rightarrow> ncp \<Rightarrow> stop + (byte list \<times> kerr option \<times> ncp) option" where
  "rawread up ip count s = (case rawrw up ip count s of
     Inl None \<Rightarrow> Inr None
   | Inl (Some (e, s)) \<Rightarrow> Inr (Some ([], e, s))
   | Inr s \<Rightarrow>
       let k = skt_of s ip in
       if sk_w6 k = 0 then Inr (Some ([], None, s)) else
       let amt = unat (fbword (b_loc (nb_buf s (qlink s (r_msgq k)))) 0 s) in
       if sk_w4 k = 0 \<and> (sint (of_nat amt :: u16) < 2 \<or> sint (of_nat amt :: u16) > int (min (MAXMSG + RAWPAD) (unat (sk_w6 k)))) then
         kbind (freemsg (r_msgq k) (upd_skt ip (\<lambda>k. k\<lparr>sk_w6 := 0\<rparr>) s)) (\<lambda>s.
           Inr (Some ([], Some ERAWMLEN, upd_skt ip (set_r_msgq 0) s)))
       else
         let s = (if sk_w4 k = 0 then upd_skt ip (\<lambda>k. k\<lparr>sk_w4 := of_nat amt\<rparr>) s else s);
             n = min count (unat (sk_w4 (skt_of s ip)))
         in kbind (bytesout (r_msgq k) n s) (\<lambda>(left, m, out, s).
           let n = n - left in
           Inr (Some (out, None, upd_skt ip (\<lambda>k. set_r_msgq m (k\<lparr>sk_w4 := sk_w4 k - of_nat n, sk_w6 := sk_w6 k - of_nat n\<rparr>)) s))))"

definition rawwrite :: "nat \<Rightarrow> nat \<Rightarrow> byte list \<Rightarrow> nenv \<Rightarrow> ncp \<Rightarrow> stop + (kerr option \<times> nat \<times> nenv \<times> ncp) option" where
  "rawwrite up ip u env s = (case rawrw up ip (length u) s of
     Inl None \<Rightarrow> Inr None
   | Inl (Some (e, s)) \<Rightarrow> Inr (Some (e, length u, env, s))
   | Inr s \<Rightarrow>
       kbind (if sk_w4 (skt_of s ip) = 0 then
           (if length u < 2 then Inl Wild else
            let amt = sint (word_of (fst (cpass u)) (fst (cpass (snd (cpass u))))) in
            if amt < 2 \<or> amt > int MAXMSG then Inr (Inl (Some ERAWMLEN, env, s))
            else kbind (rawbuf env s) (\<lambda>(b, env, s).
              if b = 0 then Inr (Inl (None, env, s))
              else Inr (Inr (drop 2 u, env, upd_skt ip (\<lambda>k. set_r_msgq b (k\<lparr>sk_w6 := 0, sk_w4 := of_int (amt - 2)\<rparr>)) s))))
         else Inr (Inr (u, env, s))) (\<lambda>r. case r of
         Inl (e, env, s) \<Rightarrow> Inr (Some (e, length u, env, s))
       | Inr (u, env, s) \<Rightarrow>
           let amt = min (unat (sk_w4 (skt_of s ip))) (length u) in
           kbind (vectomsg (take amt u) (r_msgq (skt_of s ip)) env s) (\<lambda>(left, m, env, s).
           let n = amt - left;
               s = upd_skt ip (\<lambda>k. set_r_msgq m (k\<lparr>sk_w6 := sk_w6 k + of_nat n, sk_w4 := sk_w4 k - of_nat n\<rparr>)) s
           in kbind (if sk_w4 (skt_of s ip) = 0 then impstrat m env (upd_skt ip (\<lambda>k. k\<lparr>sk_w6 := 0\<rparr>) s) else Inr (env, s))
                (\<lambda>(env, s). Inr (Some (None, length u - n, env, s))))))"

primrec rawrel_skts :: "nat \<Rightarrow> nat list \<Rightarrow> ncp \<Rightarrow> stop + ncp" where
  "rawrel_skts fp [] s = Inr s"
| "rawrel_skts fp (i # is) s = (let ip = f_netnode (k_file s fp) i in
     if ip = 0 then rawrel_skts fp is s else
     let s = upd_skt ip (clr_flags n_open) s; k = skt_of s ip in
     kbind (if sk_w6 k \<noteq> 0 \<or> sk_w4 k \<noteq> 0 then freemsg (r_msgq k) s else Inr s) (\<lambda>s.
       let s = rmrawtab (getrawskt i ip s) s;
           s = s\<lparr>k_inode := (k_inode s)(ip := \<lparr>ni_count = 0, ni_skt = \<lparr>sk_conent = 0, sk_bsize = 0, sk_flags = 0,
                 sk_msgs = 0, sk_w4 = 0, sk_w5 = 0, sk_w6 = 0, sk_w7 = 0, sk_proc = 0\<rparr>\<rparr>)\<rparr>
       in rawrel_skts fp is (upd_file fp (\<lambda>f. f\<lparr>f_netnode := (f_netnode f)(i := 0)\<rparr>) s)))"

definition rawrel :: "nat \<Rightarrow> ncp \<Rightarrow> stop + ncp" where
  "rawrel fp = rawrel_skts fp [0, 1]"

definition rawclose :: "nat \<Rightarrow> ncp \<Rightarrow> stop + bool \<times> ncp" where
  "rawclose fp s = (if fp = 0 \<or> f_flag (k_file s fp) AND FRAW = 0 then Inr (False, s)
     else if f_count (k_file s fp) > 2 then Inr (True, upd_file fp (\<lambda>f. f\<lparr>f_count := f_count f - 1\<rparr>) s)
     else kbind (rawrel fp s) (\<lambda>s. Inr (True, upd_file fp (\<lambda>f. f\<lparr>f_count := 0, f_flag := 0\<rparr>) s)))"

definition NFILE :: nat where "NFILE = 200"

primrec rawclean_files :: "nat list \<Rightarrow> ncp \<Rightarrow> stop + ncp" where
  "rawclean_files [] s = Inr s"
| "rawclean_files (fp # fps) s =
     kbind (if f_count (k_file s fp) \<noteq> 0 \<and> f_flag (k_file s fp) AND FRAW \<noteq> 0 then rawrel fp s else Inr s)
       (rawclean_files fps)"

definition rawclean :: "ncp \<Rightarrow> stop + ncp" where
  "rawclean = rawclean_files [1..<NFILE + 1]"

section \<open>Closing the network\<close>

text \<open>ncpclose flushes the queues and wakes the input process, which finds the network closed and runs
  imp_dwn.\<close>

definition ncpclose :: "ncp \<Rightarrow> stop + ncp" where
  "ncpclose s = kbind (rawclean s) (\<lambda>s.
     kbind (if k_ncpirq s \<noteq> 0 \<or> k_ncprq s \<noteq> 0 then
       kbind (freemsg (k_ncpirq s) (s\<lparr>k_lost := k_lost s + 1\<rparr>)) (\<lambda>s.
       kbind (freemsg (k_ncprq s) s) (\<lambda>s. Inr (s\<lparr>k_ncpirq := 0, k_ncprq := 0\<rparr>)))
     else Inr s) (\<lambda>s. Inr (emit ImpDown (s\<lparr>k_openst := 0, k_spl := False\<rparr>))))"

definition imp_dwn :: "ncp \<Rightarrow> stop + ncp" where
  "imp_dwn s = kbind (freemsg (i_msg s) s) (\<lambda>s.
     let s = s\<lparr>i_msg := 0, i_mlen := 0, i_sockt := 0, i_con := 0, i_flush := False, o_active := False\<rparr> in
     kbind (freemsg (o_actf s) s) (\<lambda>s.
       Inr (ncp_bfrdwn (emit (Printed ''NCP:Down!'') (s\<lparr>o_actf := 0, o_actl := 0, k_hostmap := host_clean (k_hostmap s)\<rparr>)))))"

section \<open>Host to host messages\<close>

text \<open>The division of C rounds towards 0.\<close>

definition s16 :: "int \<Rightarrow> int" where "s16 n = (n + 32768) mod 65536 - 32768"

primrec pad_loop :: "nat \<Rightarrow> nat \<Rightarrow> int \<Rightarrow> nat \<Rightarrow> ncp \<Rightarrow> stop + nat \<times> int" where
  "pad_loop 0 bfrp cnt first s = Inl Hang"
| "pad_loop (Suc f) bfrp cnt first s = (let cnt = cnt - b_len (nb_buf s bfrp) mod 256 in
     if cnt > 0 \<and> qlink s bfrp \<noteq> first then pad_loop f (qlink s bfrp) cnt first s else Inr (bfrp, cnt))"

primrec drop_after :: "nat \<Rightarrow> nat \<Rightarrow> nat \<Rightarrow> ncp \<Rightarrow> stop + ncp" where
  "drop_after 0 bfrp first s = (if qlink s bfrp = first then Inr s else Inl Hang)"
| "drop_after (Suc f) bfrp first s = (if qlink s bfrp = first then Inr s
     else kbind (freebuf bfrp s) (\<lambda>(_, s). drop_after f bfrp first s))"

definition rmovepad :: "ncp \<Rightarrow> stop + ncp" where
  "rmovepad s = (if i_msg s = 0 then Inl Wild else
     let mlen = s16 (sint (swab (l_bcnt s)) * sint (l_bsize s)) sdiv 8;
         first = qlink s (i_msg s);
         s = s\<lparr>i_mlen := mlen, i_msg := first\<rparr>
     in kbind (pad_loop ring_fuel first mlen first s) (\<lambda>(bfrp, cnt).
       kbind (if cnt > 0 then
           (if i_sockt s = 0 \<or> sk_bsize (skt_of s (i_sockt s)) = 0 then Inl Wild
            else Inr ((emit (Printed ''IMP:Missing B'') s)
                   \<lparr>i_mlen := i_mlen s - s16 (cnt * 8) sdiv sint (sk_bsize (skt_of s (i_sockt s)))\<rparr>))
         else if cnt < 0 then Inr (set_len bfrp (b_len (nb_buf s bfrp) mod 256 + cnt) s)
         else Inr s) (\<lambda>s.
       kbind (drop_after ring_fuel bfrp first s) (\<lambda>s. Inr (s\<lparr>i_msg := bfrp\<rparr>)))))"

definition allocate :: "nat \<Rightarrow> nenv \<Rightarrow> ncp \<Rightarrow> stop + nenv \<times> ncp" where
  "allocate ip env s = (let b = i_hhproto s in
     if sk_flags (skt_of s ip) AND n_toncp \<noteq> 0 then
       kbind (vectomsg (take 8 b) 0 env s) (\<lambda>(_, msgp, env, s).
       kbind (to_ncp (rcv_leader s) msgp env s) (\<lambda>(_, env, s). Inr (env, s)))
     else Inr (env, upd_skt ip (\<lambda>k. or_flags n_allocwt (dpadd (swab (word_of (b ! 6) (b ! 7)))
            (k\<lparr>sk_msgs := sk_msgs k + swab (word_of (b ! 2) (b ! 3)), sk_w4 := sk_w4 k + swab (word_of (b ! 4) (b ! 5))\<rparr>))) s))"

text \<open>hh1: the commands are taken out of the message one by one; \<open>daemsg\<close> collects what the daemon has
  to see.  The loop variable impi_mlen is an argument.  What is left of the message when a command
  is unknown goes to the daemon as it is.\<close>

function hh1_loop :: "int \<Rightarrow> nat \<Rightarrow> nenv \<Rightarrow> ncp \<Rightarrow> stop + nat \<times> nenv \<times> ncp" where
  "hh1_loop mlen daemsg env s = (if mlen \<le> 0 then Inr (daemsg, env, s\<lparr>i_mlen := mlen\<rparr>)
     else if i_msg s = 0 then Inl Wild else
     let hhcom = fbbyte (b_loc (nb_buf s (qlink s (i_msg s)))) 0 s in
     if hhcom > NUMHHOPS then kbind (catmsg daemsg (i_msg s) s) (\<lambda>(daemsg, s). Inr (daemsg, env, s\<lparr>i_mlen := mlen\<rparr>))
     else
       let cnt = hhsize ! unat hhcom in
       kbind (bytesout (i_msg s) cnt s) (\<lambda>(left, m, out, s).
         let s = s\<lparr>i_msg := m, i_hhproto := out @ drop (length out) (i_hhproto s)\<rparr>;
             mlen = (if left \<noteq> 0 then 0 else mlen - int cnt);
             wr = imphostlink (i_hhproto s ! 1 OR 0x80) s;
             rd = imphostlink (i_hhproto s ! 1 AND 0x7F) s
         in if left = 0 \<and> hhcom = hhall \<and> wr \<noteq> 0 then
              kbind (allocate wr env s) (\<lambda>(env, s). hh1_loop mlen daemsg env s)
            else if left = 0 \<and> hhcom = hhins \<and> rd \<noteq> 0 then
              hh1_loop mlen daemsg env (if sk_proc (skt_of s rd) \<noteq> 0 \<and> k_pstat s (sk_proc (skt_of s rd))
                then emit (SigInr (sk_proc (skt_of s rd))) s else s)
            else if left = 0 \<and> hhcom = hhinr \<and> wr \<noteq> 0 then
              hh1_loop mlen daemsg env (if sk_proc (skt_of s wr) \<noteq> 0 \<and> k_pstat s (sk_proc (skt_of s wr))
                then emit (SigInr (sk_proc (skt_of s wr))) s else s)
            else if left = 0 \<and> hhcom = hhnop then hh1_loop mlen daemsg env s
            else kbind (vectomsg (take cnt (i_hhproto s)) daemsg env s) (\<lambda>(_, daemsg, env, s).
              hh1_loop mlen daemsg env s)))"
  by pat_completeness auto

lemma hhsize_pos: "hhcom \<le> NUMHHOPS \<Longrightarrow> 0 < hhsize ! unat hhcom"
proof -
  assume "hhcom \<le> NUMHHOPS"
  then have "unat hhcom < 14" by (simp add: NUMHHOPS_def word_le_nat_alt)
  moreover have "\<forall>i<14. 0 < hhsize ! i" by code_simp
  ultimately show ?thesis by blast
qed

termination hh1_loop
  by (relation "measure (\<lambda>(mlen, daemsg, env, s). nat mlen)") (auto dest!: hhsize_pos simp: not_less)

declare hh1_loop.simps [simp del]

definition hh1 :: "nenv \<Rightarrow> ncp \<Rightarrow> stop + nenv \<times> ncp" where
  "hh1 env s = kbind (hh1_loop (i_mlen s) 0 env s) (\<lambda>(daemsg, env, s).
     if daemsg \<noteq> 0 then kbind (to_ncp (rcv_leader s) daemsg env s) (\<lambda>(_, env, s). Inr (env, s))
     else Inr (env, s))"

text \<open>hh: a read into a buffer has ended.\<close>

definition hh :: "nenv \<Rightarrow> ncp \<Rightarrow> stop + nenv \<times> ncp" where
  "hh env s =
     (let sktp = i_sockt s;
          s = (if i_msg s \<noteq> 0 then set_len (i_msg s) net_b_size s else s)
      in if i_endmsg s then
           kbind (if i_flush s then
               kbind (freemsg (i_msg s) s) (\<lambda>s.
                 let s = s\<lparr>i_msg := 0, i_flush := False\<rparr> in
                 Inr (env, if sktp \<noteq> 0 then upd_skt sktp (or_flags n_eof) s else s))
             else
               kbind (bytesout (i_msg s) 1 s) (\<lambda>(_, m, _, s).
               kbind (rmovepad (s\<lparr>i_msg := m\<rparr>)) (\<lambda>s.
               if sktp \<noteq> 0 then
                 (if sk_flags (skt_of s sktp) AND n_toncp \<noteq> 0 then
                    kbind (to_ncp (rcv_leader s) (i_msg s) env s) (\<lambda>(_, env, s). Inr (env, s))
                  else
                    kbind (catmsg (r_msgq (skt_of s sktp)) (i_msg s) s) (\<lambda>(q, s).
                    Inr (env, upd_skt sktp (\<lambda>k. set_r_msgq q (k\<lparr>sk_msgs := sk_msgs k - 1,
                               sk_w6 := sk_w6 k + of_int (i_mlen s)\<rparr>)) s)))
               else hh1 env s))) (\<lambda>(env, s). Inr (env, implread (s\<lparr>i_msg := 0\<rparr>)))
         else if i_inpwcnt s = 0 then (if i_flush s then Inr (env, flushimp s) else ihbget env s)
         else Inr (env, emit (Printed ''IMP:Phantom Intrp'') s))"

section \<open>Messages of the IMP\<close>

definition siguser :: "u16 \<Rightarrow> nenv \<Rightarrow> ncp \<Rightarrow> stop + nenv \<times> ncp" where
  "siguser flg env s =
     (let sk = (if l_link s \<noteq> 0 then imphostlink (l_link s OR 0x80) s else 0) in
      if sk \<noteq> 0 then
        (if sk_flags (skt_of s sk) AND n_toncp \<noteq> 0 then
           kbind (to_ncp (rcv_leader s) 0 env s) (\<lambda>(_, env, s). Inr (env, s))
         else Inr (env, upd_skt sk (or_flags flg) s))
      else if host_on (k_hostmap s) (i_host s) then
        Inr (env, s\<lparr>k_hostmap := reset_host (i_host s) (k_hostmap s)\<rparr>)
      else kbind (to_ncp (rcv_leader s) 0 env s) (\<lambda>(_, env, s). Inr (env, s)))"

text \<open>The switch of ih falls through from ih_ictrans to the default.\<close>

definition ih :: "nenv \<Rightarrow> ncp \<Rightarrow> stop + nenv \<times> ncp" where
  "ih env s =
     (let s = (if l_type s AND 0x5F = ih_nop then s\<lparr>i_lhost := i_host s\<rparr> else s) in
      kbind (rawih env s) (\<lambda>(done, env, s). if done then Inr (env, s) else
        let s = s\<lparr>i_leader := (i_leader s)(3 := l_type s AND 0x5F)\<rparr>; t = l_type s in
        kbind (if t = ih_rfnm then siguser n_rfnmwt env s
               else if t = 15 \<or> t = ih_nop then Inr (env, s)
               else kbind (if t = ih_edata \<or> t = ih_ictrans then siguser n_xmterr env s else Inr (env, s)) (\<lambda>(env, s).
                 kbind (to_ncp (rcv_leader s) 0 env s) (\<lambda>(_, env, s). Inr (env, s)))) (\<lambda>(env, s).
        Inr (env, implread (s\<lparr>i_msg := 0\<rparr>)))))"

definition iherr :: "string option \<Rightarrow> ncp \<Rightarrow> ncp" where
  "iherr txt s = (let s = s\<lparr>i_sockt := 0, i_leaderr := i_leaderr s + 1\<rparr> in
     flushimp (case txt of None \<Rightarrow> s | Some t \<Rightarrow> emit (Printed t) s))"

definition imp_input :: "nenv \<Rightarrow> ncp \<Rightarrow> stop + nenv \<times> ncp" where
  "imp_input env s =
     (if i_dest s \<noteq> Leader then
        (if (i_msg s \<noteq> 0 \<and> b_resv (nb_buf s (i_msg s)) AND b_raw \<noteq> 0) \<or> k_openst s < 0 then rawhh env s else hh env s)
      else
        let s = s\<lparr>i_host := leader_host s\<rparr> in
        if i_endmsg s then ih env s
        else
          let con = rawhostmsg s; s = s\<lparr>i_con := con\<rparr> in
          if con \<noteq> 0 then kbind (rawlget env s) (\<lambda>(_, env, s). Inr (env, s))
          else if k_openst s < 0 then Inr (env, flushimp (emit (Printed ''imp: leader?'') s))
          else
            let typ = l_type s AND 0x5F;
                s = (if l_pad1 s \<noteq> 0 then s else s\<lparr>i_leader := (i_leader s)(3 := typ)\<rparr>)
            in if l_pad1 s \<noteq> 0 \<or> typ \<noteq> 0 then Inr (env, iherr (Some ''Pad or type error'') s)
            else if l_link s = 0 then
              (if l_bsize s \<noteq> 8 \<or> unat (swab (l_bcnt s)) > 120 then Inr (env, iherr (Some ''HH Ldr format'') s)
               else ihbget env (s\<lparr>i_sockt := 0\<rparr>))
            else
              let sk = imphostlink (l_link s AND 0x7F) s; s = s\<lparr>i_sockt := sk\<rparr> in
              if sk \<noteq> 0 then ihbget env s else Inr (env, iherr None s))"

section \<open>The interrupt of the output side and the input process\<close>

definition i11a_oint :: "ncp \<Rightarrow> stop + ncp" where
  "i11a_oint s = (if o_active s then imp_odone s else Inr s)"

text \<open>impopen forks the input process.  It sends three no-operations, starts the first leader read and
  sleeps; \<open>imp_wake\<close> is one round of its loop, with the error flag of the interface.  The result tells
  whether the process goes on.\<close>

definition ncp_noop :: "byte list" where
  "ncp_noop = [15, 0, 0, ih_nop, 0, 0, 0, 0, 0, 0, 0, 0]"

definition imp_startup :: "nenv \<Rightarrow> ncp \<Rightarrow> stop + nenv \<times> ncp" where
  "imp_startup env s =
     kbind (sndnetbytes ncp_noop 0 0 env s) (\<lambda>(env, s).
     kbind (sndnetbytes ncp_noop 0 0 env s) (\<lambda>(env, s).
     kbind (sndnetbytes ncp_noop 0 0 env s) (\<lambda>(env, s).
     Inr (env, implread (emit (Printed ''IMP:Init'') s)))))"

definition imp_wake :: "bool \<Rightarrow> nenv \<Rightarrow> ncp \<Rightarrow> stop + bool \<times> nenv \<times> ncp" where
  "imp_wake err env s =
     (if k_openst s = 0 then kbind (imp_dwn s) (\<lambda>s. Inr (False, env, s))
      else if err then
        kbind (imp_startup env (emit (Printed ''IMP:Reset'') (emit (Printed ''IMP: input error, resetting'') s)))
          (\<lambda>(env, s). Inr (True, env, s))
      else kbind (imp_input env s) (\<lambda>(env, s). Inr (True, env, s)))"

text \<open>The daemon of the raw interface (rawmisc.c).\<close>

definition rwkopen :: "nenv \<Rightarrow> ncp \<Rightarrow> stop + kerr option \<times> nenv \<times> ncp" where
  "rwkopen env s = (if k_openst s \<noteq> 0 then Inr (Some ENCP2, env, s)
     else kbind (getkbs ring_fuel env (s\<lparr>nb_hyster := 4\<rparr>)) (\<lambda>(env, s).
       Inr (None, env, s\<lparr>k_openst := k_openst s - 1\<rparr>)))"

definition rwkclose :: "ncp \<Rightarrow> stop + ncp" where
  "rwkclose s = kbind (rawclean s) (\<lambda>s. Inr (emit ImpDown (s\<lparr>k_openst := 0\<rparr>)))"

end
