(* ===== verification/Ncp_User.thy ===== *)
theory Ncp_User
  imports Ncp_Imp
begin

text \<open>
  The system calls on a network file: reading and writing of a connection with its flow control
  (nrdwr.c), opening of a connection through the daemon (netopen, netstat and net_reset of nopcls.c)
  and of a raw message file (rawopen of rawmain.c).

  \<open>up\<close> is the calling process.  The bytes of the user are an argument or a result.  The value returned by
  falloc for a process without a free descriptor is that of the flag \<open>fd\<close>; getf of relative opens is an
  argument, as it looks at the table of the process.
\<close>

section \<open>Flow control\<close>

definition anyalloc :: "skt \<Rightarrow> nat" where
  "anyalloc k = (if sk_msgs k = 0 then 0
     else if w_falloc_hi k \<noteq> 0 \<or> unat (w_falloc_lo k) \<ge> 8000 then 1000
     else unat (w_falloc_lo k) div 8)"

text \<open>netsleep returns the flags that ended the sleep and clears them.\<close>

primrec netsleep :: "nat \<Rightarrow> nat \<Rightarrow> u16 \<Rightarrow> nenv \<Rightarrow> ncp \<Rightarrow> stop + u16 \<times> nenv \<times> ncp" where
  "netsleep up ip flg [] s = (let s = upd_skt ip (\<lambda>k. k\<lparr>sk_proc := up\<rparr>) s; m = n_xmterr OR n_eof OR flg in
     if sk_flags (skt_of s ip) AND m = 0 then Inl Asleep
     else Inr (sk_flags (skt_of s ip) AND m, [], (upd_skt ip (clr_flags m) s)\<lparr>k_spl := False\<rparr>))"
| "netsleep up ip flg (e # env) s = (let s = upd_skt ip (\<lambda>k. k\<lparr>sk_proc := up\<rparr>) s; m = n_xmterr OR n_eof OR flg in
     if sk_flags (skt_of s ip) AND m = 0 then netsleep up ip flg env (e s)
     else Inr (sk_flags (skt_of s ip) AND m, e # env, (upd_skt ip (clr_flags m) s)\<lparr>k_spl := False\<rparr>))"

text \<open>The loop of sendalloc that waits until no message on the control link to the host is on its way.\<close>

primrec hhchan_wait :: "nat \<Rightarrow> u32 \<Rightarrow> nenv \<Rightarrow> ncp \<Rightarrow> stop + nenv \<times> ncp" where
  "hhchan_wait ip host [] s = (if host_on (k_hostmap s) host then Inl Asleep else Inr ([], s))"
| "hhchan_wait ip host (e # env) s = (if host_on (k_hostmap s) host then
       hhchan_wait ip host env (upd_skt ip (clr_flags n_hhchanwt) (e (upd_skt ip (or_flags n_hhchanwt) s)))
     else Inr (e # env, s))"

definition sendalloc :: "nat \<Rightarrow> u16 \<Rightarrow> nenv \<Rightarrow> ncp \<Rightarrow> stop + bool \<times> nenv \<times> ncp" where
  "sendalloc ip amtread env s =
     (let s = upd_skt ip (\<lambda>k. k\<lparr>sk_w4 := sk_w4 k - amtread\<rparr>) s; k = skt_of s ip in
      if sint (r_bytes k) \<le> sint (r_hiwat k) div 2 \<or> sint (sk_msgs k) \<le> sint NOMMSG div 2 then
        let host = c_host (k_contab s (sk_conent k)) in
        kbind (hhchan_wait ip host env s) (\<lambda>(env, s).
          let s = s\<lparr>k_hostmap := set_host_map host (k_hostmap s)\<rparr>;
              k = skt_of s ip;
              link = lobyte (c_link (k_contab s (sk_conent k)));
              msgs = NOMMSG - sk_msgs k;
              amt = r_hiwat k - r_bytes k;
              bits = swab (push_bit 3 amt);
              s = upd_skt ip (\<lambda>k. k\<lparr>sk_msgs := sk_msgs k + msgs, sk_w4 := sk_w4 k + amt\<rparr>) s
          in kbind (sndnetbytes [hhall, link, lobyte (swab msgs), hibyte (swab msgs), 0, 0, lobyte bits, hibyte bits]
                 ip 0 env s) (\<lambda>(env, s). Inr (True, env, s)))
      else Inr (False, env, s))"

section \<open>Reading and writing\<close>

text \<open>The wait of netread for data: None when the socket has gone meanwhile.\<close>

primrec read_wait :: "nat \<Rightarrow> nat \<Rightarrow> nat \<Rightarrow> nenv \<Rightarrow> ncp \<Rightarrow> stop + nat option \<times> nenv \<times> ncp" where
  "read_wait fp ip count [] s = (let k = skt_of s ip; amt = min (unat (r_qtotal k)) count in
     if amt = 0 \<and> sk_flags k AND n_open \<noteq> 0 then Inl Asleep
     else Inr (Some amt, [], s\<lparr>k_spl := False\<rparr>))"
| "read_wait fp ip count (e # env) s = (let k = skt_of s ip; amt = min (unat (r_qtotal k)) count in
     if amt = 0 \<and> sk_flags k AND n_open \<noteq> 0 then
       (let s = e (upd_skt ip (or_flags n_rcvwt) s) in
        if f_netnode (k_file s fp) f_rdnode = 0 then Inr (None, env, s)
        else read_wait fp ip count env (upd_skt ip (clr_flags n_rcvwt) s))
     else Inr (Some amt, e # env, s\<lparr>k_spl := False\<rparr>))"

text \<open>Results: the error and the bytes the user gets.\<close>

definition ncp_netread :: "nat \<Rightarrow> nat \<Rightarrow> nat \<Rightarrow> nat \<Rightarrow> nenv \<Rightarrow> ncp \<Rightarrow> stop + kerr option \<times> byte list \<times> nenv \<times> ncp" where
  "ncp_netread up fp ip count env s = kbind (rawread up ip count s) (\<lambda>r. case r of
     Some (out, e, s) \<Rightarrow> Inr (e, out, env, s)
   | None \<Rightarrow>
       if count = 0 then Inr (None, [], env, s) else
       kbind (read_wait fp ip count env ((upd_skt ip (\<lambda>k. k\<lparr>sk_proc := up\<rparr>) s)\<lparr>k_spl := True\<rparr>)) (\<lambda>(r, env, s). case r of
         None \<Rightarrow> Inr (Some EBADF, [], env, s)
       | Some amt \<Rightarrow>
           if sk_flags (skt_of s ip) AND n_eof \<noteq> 0 \<and> amt = 0 then Inr (None, [], env, s)
           else if 0 < amt \<and> amt < 2 ^ 15 then
             kbind (bytesout (r_msgq (skt_of s ip)) amt s) (\<lambda>(left, m, out, s).
               let amt = amt - left; s = upd_skt ip (set_r_msgq m) s in
               kbind (if sk_flags (skt_of s ip) AND n_open \<noteq> 0 then sendalloc ip (of_nat amt) env s
                      else Inr (False, env, s)) (\<lambda>(_, env, s).
               Inr (None, out, env, upd_skt ip (\<lambda>k. k\<lparr>sk_w6 := sk_w6 k - of_nat amt\<rparr>) s)))
           else Inr (Some EBADF, [], env, s)))"

text \<open>The wait of netwrite for an allocation.\<close>

primrec write_wait :: "nat \<Rightarrow> nat \<Rightarrow> nenv \<Rightarrow> ncp \<Rightarrow> stop + nat \<times> nenv \<times> ncp" where
  "write_wait ip count [] s = (let k = skt_of s ip; n = min (anyalloc k) count in
     if n = 0 \<and> sk_flags k AND n_open \<noteq> 0 then Inl Asleep else Inr (n, [], s\<lparr>k_spl := False\<rparr>))"
| "write_wait ip count (e # env) s = (let k = skt_of s ip; n = min (anyalloc k) count in
     if n = 0 \<and> sk_flags k AND n_open \<noteq> 0 then
       write_wait ip count env (upd_skt ip (clr_flags n_allwt) (e (upd_skt ip (or_flags n_allwt) s)))
     else Inr (n, e # env, s\<lparr>k_spl := False\<rparr>))"

lemma write_wait_pos: "write_wait ip count env s = Inr (n, env', s') \<Longrightarrow> n \<noteq> 0 \<or> sk_flags (skt_of s' ip) AND n_open = 0"
  by (induction env arbitrary: s) (auto simp: Let_def split: if_splits)

text \<open>The retransmission loop: send, wait for the RFNM, send again after a transmission error.  The error
  flag is cleared by netsleep, so a round that sends again has slept or has found the flag that was set
  before the call; the fuel is the number of sleeps to come and two.\<close>

primrec send_retry :: "nat \<Rightarrow> nat \<Rightarrow> nat \<Rightarrow> byte list \<Rightarrow> nenv \<Rightarrow> ncp \<Rightarrow> stop + nenv \<times> ncp" where
  "send_retry 0 up ip u env s = Inl Hang"
| "send_retry (Suc f) up ip u env s =
     kbind (sndnetbytes u ip (lobyte (c_link (k_contab s (sk_conent (skt_of s ip))) AND NOT 0x80)) env s) (\<lambda>(env, s).
     kbind (netsleep up ip n_rfnmwt env (s\<lparr>k_spl := True\<rparr>)) (\<lambda>(r, env, s).
     if r AND n_xmterr \<noteq> 0 then send_retry f up ip u env (upd_skt ip (or_flags n_prevmerr) s)
     else Inr (env, upd_skt ip (clr_flags (n_prevmerr OR n_sendwt)) s)))"

function write_loop :: "nat \<Rightarrow> nat \<Rightarrow> byte list \<Rightarrow> nenv \<Rightarrow> ncp \<Rightarrow> stop + kerr option \<times> nat \<times> nenv \<times> ncp" where
  "write_loop up ip u env s = (if u = [] then Inr (None, 0, env, s) else
     case write_wait ip (length u) env ((upd_skt ip (\<lambda>k. k\<lparr>sk_proc := up\<rparr>) s)\<lparr>k_spl := True\<rparr>) of
       Inl e \<Rightarrow> Inl e
     | Inr (n, env, s) \<Rightarrow>
         if sk_flags (skt_of s ip) AND n_open \<noteq> 0 then
           kbind (send_retry (length env + 2) up ip (take n u) env s) (\<lambda>(env, s).
             write_loop up ip (drop n u) env
               (upd_skt ip (\<lambda>k. dpsub (push_bit 3 (of_nat n)) (k\<lparr>sk_msgs := sk_msgs k - 1\<rparr>)) s))
         else Inr (Some EBADF, length u, env, s))"
  by pat_completeness auto
termination write_loop
  by (relation "measure (\<lambda>(up, ip, u, env, s). length u)") (auto dest: write_wait_pos)

declare write_loop.simps [simp del]

text \<open>Result: the error and the count of the bytes not written.\<close>

definition ncp_netwrite :: "nat \<Rightarrow> nat \<Rightarrow> byte list \<Rightarrow> nenv \<Rightarrow> ncp \<Rightarrow> stop + kerr option \<times> nat \<times> nenv \<times> ncp" where
  "ncp_netwrite up ip u env s = kbind (rawwrite up ip u env s) (\<lambda>r. case r of
     Some (e, left, env, s) \<Rightarrow> Inr (e, left, env, s)
   | None \<Rightarrow> if ip = 0 then Inr (None, length u, env, s) else write_loop up ip u env s)"

section \<open>Opening a network file\<close>

definition NOFILE :: nat where "NOFILE = 40"
definition FSHORT :: u16 where "FSHORT = 0x100"

text \<open>falloc of ken/fio.c; \<open>fd\<close> tells whether the process has a free descriptor.  f_netnode lies over f_inode
  and f_offset.\<close>

definition ncp_falloc :: "bool \<Rightarrow> ncp \<Rightarrow> kerr + nat \<times> ncp" where
  "ncp_falloc fd s = (if \<not> fd then Inl EMFILE else
     case List.find (\<lambda>fp. f_count (k_file s fp) = 0) [1..<NFILE + 1] of
       None \<Rightarrow> Inl ENFILE
     | Some fp \<Rightarrow> Inr (fp, upd_file fp (\<lambda>f. f\<lparr>f_count := f_count f + 1,
         f_netnode := (f_netnode f)(1 := 0, 2 := 0)\<rparr>) s))"

text \<open>The structures of the parameters are lists of bytes; a word is stored low byte first, a long
  with its high word first.\<close>

definition get_w :: "nat \<Rightarrow> byte list \<Rightarrow> u16" where
  "get_w i b = word_of (b ! i) (b ! (i + 1))"

definition put_w :: "nat \<Rightarrow> u16 \<Rightarrow> byte list \<Rightarrow> byte list" where
  "put_w i w b = b[i := lobyte w, i + 1 := hibyte w]"

definition get_l :: "nat \<Rightarrow> byte list \<Rightarrow> u32" where
  "get_l i b = long_of (get_w i b) (get_w (i + 2) b)"

definition put_l :: "nat \<Rightarrow> u32 \<Rightarrow> byte list \<Rightarrow> byte list" where
  "put_l i h b = put_w (i + 2) (ucast h) (put_w i (ucast (drop_bit 16 h)) b)"

text \<open>The offsets in struct nopenparams: o_op 0, o_type 1, o_id 2, o_lskt 4, o_fskt 6, o_frnhost 10,
  o_bsize 11, o_nomall 12, o_timeo 14, o_relid 16, o_host 18.\<close>

definition o_relative :: byte where "o_relative = 0x20"

text \<open>The file an open names: the words i_addr[0] to i_addr[2] of its inode.\<close>

record netdev =
  d_minor :: byte
  d_major :: byte
  d_lo :: u16
  d_hi :: u16

definition dev_host :: "byte \<Rightarrow> netdev \<Rightarrow> u32" where
  "dev_host localnet d = (if d_major d = 0xFE \<and> d_minor d = 0xFF then long_of (d_hi d) (d_lo d)
     else stolhost localnet (d_minor d))"

text \<open>The parameters of a server open on local socket \<open>mode\<close>, of an open of a host file.  \<open>vec\<close> are the bytes
  at the address \<open>mode\<close> of the user, \<open>getf\<close> turns a descriptor into the address of the file.\<close>

definition server_params :: "u16 \<Rightarrow> byte list" where
  "server_params mode = put_w 4 mode ((replicate 22 0)[1 := 2])"

definition user_params :: "byte \<Rightarrow> netdev \<Rightarrow> u16 \<Rightarrow> byte list \<Rightarrow> (nat \<Rightarrow> nat) \<Rightarrow> byte list \<times> u16" where
  "user_params localnet d mode vec getf =
     (let sdev = d_major d \<noteq> 0xFE;
          (b, mode) = (if sint mode < 1 \<or> sint mode > 3 then
              (let b = (if sdev then put_l 18 (stolhost localnet (vec ! 10)) (take 18 vec @ replicate 4 0)
                        else take 22 vec);
                   i = sint (get_w 16 b);
                   b = (if b ! 1 AND o_relative \<noteq> 0 \<and> 0 \<le> i \<and> i < int NOFILE
                        then put_w 16 (of_nat (getf (nat i))) b else b)
               in (b, 3))
            else (replicate 22 0, mode))
      in (if get_l 18 b = 0 then put_l 18 (dev_host localnet d) b else b, mode))"

text \<open>The wait for the daemon: the error code of the daemon, or None.\<close>

primrec open_wait :: "nat \<Rightarrow> nenv \<Rightarrow> ncp \<Rightarrow> stop + kerr option \<times> nenv \<times> ncp" where
  "open_wait fp [] s = Inl Asleep"
| "open_wait fp (e # env) s = (let s = e s in
     if f_flag (k_file s fp) AND FERR \<noteq> 0 then Inr (Some (Open_err (k_open_err s)), env, s)
     else if f_flag (k_file s fp) AND FOPEN \<noteq> 0 then Inr (None, env, s)
     else open_wait fp env s)"

definition open_done :: "nat \<Rightarrow> nat \<Rightarrow> byte list \<Rightarrow> ncp \<Rightarrow> ncp" where
  "open_done up fp b s =
     (let rd = f_netnode (k_file s fp) f_rdnode; wr = f_netnode (k_file s fp) f_wrtnode;
          s = (if rd \<noteq> 0 then upd_skt rd (\<lambda>k. or_flags n_usriu (k\<lparr>sk_proc := up,
                 sk_w7 := if get_w 12 b \<noteq> 0 then get_w 12 b else 256\<rparr>)) s else s)
      in if wr \<noteq> 0 then upd_skt wr (\<lambda>k. or_flags n_usriu (k\<lparr>sk_proc := up, sk_w6 := of_nat fp\<rparr>)) s else s)"

definition nopen_file :: "nat \<Rightarrow> netdev option \<Rightarrow> u16 \<Rightarrow> byte list \<Rightarrow> (nat \<Rightarrow> nat) \<Rightarrow> bool \<Rightarrow> nenv \<Rightarrow> ncp
    \<Rightarrow> stop + (kerr + nat) \<times> nenv \<times> ncp" where
  "nopen_file up aip mode vec getf fd env s =
     (if k_openst s = 0 then Inr (Inl ENCPNO, env, s) else
      case ncp_falloc fd s of
        Inl e \<Rightarrow> Inr (Inl e, env, s)
      | Inr (fp, s) \<Rightarrow>
          let s = upd_file fp (\<lambda>f. f\<lparr>f_netnode := (f_netnode f)(0 := 0)\<rparr>) s;
              (b, mode) = (case aip of None \<Rightarrow> (server_params mode, mode)
                           | Some d \<Rightarrow> user_params (k_localnet s) d mode vec getf)
          in if \<not> good_host (k_localnet s) (get_l 18 b) then Inr (Inl ENCPINV, env, net_frlse fp s)
             else
               let b = put_w 2 (of_nat fp) (b[0 := ncp_open]); p = infiletab 0 s in
               if p = 0 then Inr (Inl EMNETF, env, net_frlse fp s) else
               let sdev = (case aip of None \<Rightarrow> False | Some d \<Rightarrow> d_major d \<noteq> 0xFE);
                   s = upd_file fp (\<lambda>f. f\<lparr>f_count := f_count f + 1,
                         f_flag := FNET OR mode OR (if sdev then FSHORT else 0)\<rparr>) s;
                   s = s\<lparr>k_filetab := (k_filetab s)[p - 1 := fp], k_spl := False\<rparr>
               in kbind (to_ncp b 0 env s) (\<lambda>(_, env, s).
                  kbind (open_wait fp env s) (\<lambda>(r, env, s). case r of
                    Some e \<Rightarrow> Inr (Inl e, env, net_frlse fp s)
                  | None \<Rightarrow> Inr (Inr fp, env, open_done up fp b s))))"

section \<open>Raw message files\<close>

definition ROPENFLAGS :: u16 where "ROPENFLAGS = n_open OR n_raw"

definition rawinode :: "nat \<Rightarrow> ncp \<Rightarrow> nat \<times> ncp" where
  "rawinode up s = (case List.find (\<lambda>ip. ni_count (k_inode s ip) = 0) [1..<NINODE + 1] of
     None \<Rightarrow> (0, s)
   | Some ip \<Rightarrow> (ip, upd_skt ip (\<lambda>k. k\<lparr>sk_conent := 0, sk_flags := ROPENFLAGS, sk_w4 := 0, sk_w5 := 0, sk_w6 := 0,
         sk_proc := up\<rparr>) (s\<lparr>k_inode := (k_inode s)(ip := (k_inode s ip)\<lparr>ni_count := 2\<rparr>)\<rparr>)))"

primrec rawopen_skts :: "nat \<Rightarrow> nat \<Rightarrow> u16 \<Rightarrow> u32 \<Rightarrow> int \<Rightarrow> int \<Rightarrow> nat list \<Rightarrow> ncp \<Rightarrow> kerr option \<times> ncp" where
  "rawopen_skts up fp mode host lo hi [] s = (None, s)"
| "rawopen_skts up fp mode host lo hi (i # is) s =
     (if mode AND of_nat (i + 1) = 0 then rawopen_skts up fp mode host lo hi is s else
      let (ip, s) = rawinode up s in
      if ip = 0 then (Some ERAWINO, s) else
      let s = upd_file fp (\<lambda>f. f\<lparr>f_netnode := (f_netnode f)(i := ip)\<rparr>) s in
      if getrawtab i host lo hi s \<noteq> 0 then (Some ERAWMDUP, s) else
      let (e, s) = putrawtab i host lo hi ip s in
      if e = 0 then (Some ERAWTAB, s) else rawopen_skts up fp mode host lo hi is s)"

definition rawopen_file :: "nat \<Rightarrow> nat \<Rightarrow> u16 \<Rightarrow> u32 \<Rightarrow> int \<Rightarrow> int \<Rightarrow> ncp \<Rightarrow> stop + (kerr + nat) \<times> ncp" where
  "rawopen_file up fp mode host lo hi s =
     (let s = upd_file fp (\<lambda>f. f\<lparr>f_netnode := (\<lambda>_. 0), f_count := f_count f + 1,
                f_flag := FNET OR FRAW OR FOPEN OR mode\<rparr>) s
      in case rawopen_skts up fp mode host lo hi [0, 1] s of
           (None, s) \<Rightarrow> Inr (Inr fp, s)
         | (Some e, s) \<Rightarrow> kbind (rawrel fp s) (\<lambda>s. Inr (Inl e, upd_file fp (\<lambda>f. f\<lparr>f_count := 0, f_flag := 0\<rparr>) s)))"

text \<open>The bytes of struct rawparams: z_mode 0, z_host 2, z_lomsg 6, z_himsg 8.  The mode is reduced modulo
  3 as a signed number.\<close>

definition rawopen :: "nat \<Rightarrow> byte list \<Rightarrow> bool \<Rightarrow> ncp \<Rightarrow> stop + (kerr + nat) \<times> ncp" where
  "rawopen up vec fd s =
     (if k_openst s = 0 then Inr (Inl ENCPNO, s) else
      let s = s\<lparr>r_lomsg := if k_openst s > 0 then 1152 else 0\<rparr>;
          host = get_l 2 vec;
          host = (if h_net host = 0 \<and> host \<noteq> 0 then stolhost (k_localnet s) (ucast host) else host);
          host = host AND NOT 0xFF00;
          lo = sint (get_w 6 vec);
          hi = sint (get_w 8 vec);
          hi = (if hi = 0 then lo else hi);
          mode = sint (get_w 0 vec) smod 3 + 1
      in if mode < 1 \<or> mode > 3 \<or> sint host < 0 \<or> lo < r_lomsg s \<or> lo > hi \<or> hi > HIMSG then Inr (Inl ERAWINV, s) else
      case ncp_falloc fd s of
        Inl e \<Rightarrow> Inr (Inl e, s)
      | Inr (fp, s) \<Rightarrow> rawopen_file up fp (of_int mode) host lo hi s)"

definition ncp_netopen :: "nat \<Rightarrow> netdev option \<Rightarrow> u16 \<Rightarrow> byte list \<Rightarrow> (nat \<Rightarrow> nat) \<Rightarrow> bool \<Rightarrow> nenv \<Rightarrow> ncp
    \<Rightarrow> stop + (kerr + nat) \<times> nenv \<times> ncp" where
  "ncp_netopen up aip mode vec getf fd env s =
     (case aip of
        Some d \<Rightarrow> if d_major d = 0xFD \<and> d_minor d = 0 then kbind (rawopen up vec fd s) (\<lambda>(r, s). Inr (r, env, s))
                  else if k_openst s < 0 then Inr (Inl ENCPNO, env, s)
                  else nopen_file up aip mode vec getf fd env s
      | None \<Rightarrow> if k_openst s < 0 then Inr (Inl ENCPNO, env, s) else nopen_file up aip mode vec getf fd env s)"

section \<open>Other calls\<close>

definition netclose_file :: "nat \<Rightarrow> nenv \<Rightarrow> ncp \<Rightarrow> stop + nenv \<times> ncp" where
  "netclose_file fp env s = kbind (rawclose fp s) (\<lambda>(done, s). if done then Inr (env, s) else ncp_netclose fp env s)"

definition net_reset :: "u32 \<Rightarrow> nenv \<Rightarrow> ncp \<Rightarrow> stop + kerr option \<times> nenv \<times> ncp" where
  "net_reset h env s = (if h = 0 \<or> \<not> good_host (k_localnet s) h then Inr (Some EBADF, env, s)
     else kbind (to_ncp (put_l 2 h [ncp_rreset, 0, 0, 0, 0, 0]) 0 env s) (\<lambda>(_, env, s). Inr (None, env, s)))"

section \<open>Reports\<close>

text \<open>capac of a network file: what can be read and what can be written; -1 without such a socket.  rawcap
  is None for a file that is not raw.  The comparison of min is one of signed numbers.\<close>

definition rawcap :: "nat \<Rightarrow> ncp \<Rightarrow> stop + (int \<times> int) option" where
  "rawcap fp s = (if f_flag (k_file s fp) AND FRAW = 0 then Inr None else
     let rd = f_netnode (k_file s fp) f_rdnode; wr = f_netnode (k_file s fp) f_wrtnode;
         v1 = (if rd \<noteq> 0 then sint (sk_w6 (skt_of s rd)) else -1);
         i = (rbuf_max - nb_rbuf s) * net_b_size
     in if wr = 0 then Inr (Some (v1, -1))
        else if sk_w4 (skt_of s wr) = 0 then Inr (Some (v1, min (int MAXMSG) i))
        else if r_msgq (skt_of s wr) = 0 then Inl Wild
        else Inr (Some (v1, min (sint (sk_w4 (skt_of s wr)))
               (i + (net_b_size - b_len (nb_buf s (r_msgq (skt_of s wr))))))))"

definition netcap :: "nat \<Rightarrow> ncp \<Rightarrow> stop + int \<times> int" where
  "netcap fp s = kbind (rawcap fp s) (\<lambda>r. case r of
     Some v \<Rightarrow> Inr v
   | None \<Rightarrow>
       let rd = f_netnode (k_file s fp) f_rdnode; wr = f_netnode (k_file s fp) f_wrtnode
       in Inr (if rd \<noteq> 0 then sint (r_qtotal (skt_of s rd)) else -1,
               if wr \<noteq> 0 then int (anyalloc (skt_of s wr)) else -1))"

text \<open>netstat gives struct nopenparams of a connection, or its first 18 bytes to a file of the old interface.
  Only four members are stored; the others hold what was on the kernel stack, \<open>stack\<close>.\<close>

definition rawsstat :: "nat \<Rightarrow> ncp \<Rightarrow> bool" where
  "rawsstat fp s \<longleftrightarrow> f_flag (k_file s fp) AND FRAW \<noteq> 0"

definition ncp_netstat :: "nat \<Rightarrow> byte list \<Rightarrow> ncp \<Rightarrow> kerr + byte list" where
  "ncp_netstat fp stack s = (if rawsstat fp s then Inl EBADF else
     let p = ipcontab (f_netnode (k_file s fp) f_rdnode) s in
     if p = 0 then Inl EBADF else
     let c = k_contab s p;
         b = stack[10 := of_int (ltoshost (k_localnet s) (c_host c))];
         b = put_l 18 (c_host c) b;
         b = put_w 4 (get_w 0 (c_skts c)) b;
         b = put_l 6 (long_of (get_w 2 (c_skts c)) (get_w 4 (c_skts c))) b
     in Inr (if f_flag (k_file s fp) AND FSHORT \<noteq> 0 then take 18 b else b))"

text \<open>rawstat copies both raw tables to an even address; with address 0 it only tells their size.\<close>

definition rawstat :: "u16 \<Rightarrow> ncp \<Rightarrow> kerr + nat \<times> rawentry list" where
  "rawstat p s = (if odd p then Inl EINVAL
     else Inr (16, if p = 0 then [] else map (r_entry s) ([1..<17] @ [17..<33])))"

text \<open>sgnet gets or sets the number of the local network.\<close>

definition sgnet :: "byte \<Rightarrow> bool \<Rightarrow> ncp \<Rightarrow> kerr option \<times> byte \<times> ncp" where
  "sgnet r suser s = (if r = 0 then (None, k_localnet s, s)
     else if k_openst s \<noteq> 0 then (Some ENCP2, r, s)
     else if \<not> suser then (Some EPERM, r, s)
     else (None, r, s\<lparr>k_localnet := r\<rparr>))"

end
