(* ===== verification/Ncp_Tables.thy ===== *)
theory Ncp_Tables
  imports Ncp_User
begin

text \<open>
  Properties of the tables of the NCP kernel: the host bit map, the connection tables, the tables of
  the raw message files and the allocation counters of a connection.
\<close>

unbundle bit_operations_syntax

section \<open>Host bit map\<close>

lemma host_parts: "h_net h = h_net h' \<Longrightarrow> h_hoi h = h_hoi h' \<Longrightarrow> h_imp h = h_imp h' \<Longrightarrow> h = h'"
proof (rule bit_word_eqI)
  fix n assume a: "h_net h = h_net h'" "h_hoi h = h_hoi h'" "h_imp h = h_imp h'" and n: "n < LENGTH(32)"
  have net: "bit h (k + 24) = bit h' (k + 24)" if "k < 8" for k
  proof -
    have "bit (h_net h) k = bit (h_net h') k" using a(1) by simp
    then show ?thesis using that by (simp add: h_net_def bit_simps add.commute)
  qed
  have "(drop_bit 16 h) AND 0xFF = (drop_bit 16 h') AND 0xFF" using a(2) by (simp add: h_hoi_def word_unat_eq_iff)
  then have hoi: "bit h (k + 16) = bit h' (k + 16)" if "k < 8" for k
  proof -
    have m: "(0xFF :: u32) = mask 8" by (simp add: mask_eq_exp_minus_1)
    have "bit (drop_bit 16 h AND 0xFF) k = bit (drop_bit 16 h' AND 0xFF) k" using \<open>_ = _ AND 0xFF\<close> by simp
    then show ?thesis using that unfolding m by (simp add: bit_simps add.commute)
  qed
  have "h AND 0xFFFF = h' AND 0xFFFF" using a(3) by (simp add: h_imp_def word_unat_eq_iff)
  then have imp: "bit h k = bit h' k" if "k < 16" for k
  proof -
    have m: "(0xFFFF :: u32) = mask 16" by (simp add: mask_eq_exp_minus_1)
    have "bit (h AND 0xFFFF) k = bit (h' AND 0xFFFF) k" using \<open>_ = h' AND 0xFFFF\<close> by simp
    then show ?thesis using that unfolding m by (simp add: bit_simps)
  qed
  have "n < 16 \<or> (\<exists>k<8. n = k + 16) \<or> (\<exists>k<8. n = k + 24)" using n by (simp, presburger)
  then show "bit h n = bit h' n" using net hoi imp by auto
qed

lemma hoi_bit_good: "h_hoi h < 16 \<Longrightarrow> bit (hoi_bit h) n \<longleftrightarrow> n = h_hoi h"
  by (auto simp: hoi_bit_def Let_def bit_simps)

lemma host_on_bit: "h_hoi h < 16 \<Longrightarrow> host_on m h \<longleftrightarrow> bit (m (imp_ix h)) (h_hoi h)"
proof -
  assume h: "h_hoi h < 16"
  have "m (imp_ix h) AND hoi_bit h \<noteq> 0 \<longleftrightarrow> (\<exists>n. bit (m (imp_ix h)) n \<and> bit (hoi_bit h) n)"
    using bit_imp_le_length [of "hoi_bit h"] by (auto simp: bit_eq_iff [of _ "0 :: u16"] bit_and_iff)
  then show ?thesis using h by (simp add: host_on_def hoi_bit_good)
qed


lemma good_imp: "good_host l h \<Longrightarrow> h \<noteq> 0 \<Longrightarrow> imp_ix h = h_imp h \<and> h_hoi h < 16 \<and> h_net h = l \<and> h_imp h < LIMPS"
  by (simp add: good_host_def imp_ix_def LIMPS_def LHOI_def)

lemma good_eq:
  "good_host l h \<Longrightarrow> good_host l h' \<Longrightarrow> h \<noteq> 0 \<Longrightarrow> h' \<noteq> 0 \<Longrightarrow> imp_ix h = imp_ix h' \<Longrightarrow> h_hoi h = h_hoi h' \<Longrightarrow> h = h'"
  by (rule host_parts) (auto dest!: good_imp)

lemma host_map_spec:
  assumes "good_host l h" "h \<noteq> 0" "good_host l h'" "h' \<noteq> 0"
  shows "host_on (set_host_map h m) h' \<longleftrightarrow> h' = h \<or> host_on m h'"
    and "host_on (reset_host h m) h' \<longleftrightarrow> h' \<noteq> h \<and> host_on m h'"
proof -
  have g: "h_hoi h < 16" "h_hoi h' < 16" using good_imp [OF assms(1,2)] good_imp [OF assms(3,4)] by auto
  have e: "h' = h \<longleftrightarrow> imp_ix h' = imp_ix h \<and> h_hoi h' = h_hoi h" using good_eq [OF assms(3,1,4,2)] by auto
  show "host_on (set_host_map h m) h' \<longleftrightarrow> h' = h \<or> host_on m h'"
    unfolding host_on_bit [OF g(2)] e
    by (cases "imp_ix h' = imp_ix h") (auto simp: set_host_map_def bit_or_iff hoi_bit_good [OF g(1)])
  show "host_on (reset_host h m) h' \<longleftrightarrow> h' \<noteq> h \<and> host_on m h'"
  proof -
    have "bit (w AND NOT (hoi_bit h)) (h_hoi h') \<longleftrightarrow> bit w (h_hoi h') \<and> h_hoi h' \<noteq> h_hoi h" for w
      using g(2) by (simp only: bit_and_iff bit_not_iff possible_bit_word hoi_bit_good [OF g(1)]) simp
    note w = this
    show ?thesis
    proof (cases "imp_ix h' = imp_ix h")
      case True
      then show ?thesis unfolding host_on_bit [OF g(2)] e reset_host_def by (simp only: fun_upd_same w) blast
    next
      case False
      then show ?thesis unfolding host_on_bit [OF g(2)] e reset_host_def by simp
    qed
  qed
qed

section \<open>Connection tables\<close>

lemma find_mem: "List.find P xs = Some p \<Longrightarrow> p \<in> set xs \<and> P p"
  by (metis find_Some_iff nth_mem)

lemma find_only:
  assumes "p \<in> set xs" "P p" "\<And>q. q \<in> set xs \<Longrightarrow> P q \<Longrightarrow> q = p"
  shows "List.find P xs = Some p"
proof (cases "List.find P xs")
  case None
  then show ?thesis using assms(1,2) by (simp add: find_None_iff)
next
  case (Some q)
  then show ?thesis using find_mem [OF Some] assms(3) by simp
qed

definition con_match :: "u32 \<Rightarrow> u16 \<Rightarrow> conentry \<Rightarrow> bool" where
  "con_match h l c \<longleftrightarrow> h = c_host c \<and> l = c_link c"

lemma con_entries_pos: "p \<in> set (con_entries link) \<Longrightarrow> p \<noteq> 0"
  by (auto simp: con_entries_def split: if_splits)

lemma con_entries_and [simp]: "con_entries (link AND 0xFF) = con_entries link" "con_entries (link AND 0x80) = con_entries link"
  by (simp_all add: con_entries_def and.assoc)

lemma incontab_zero:
  assumes "link AND 0x7F \<noteq> 0"
  shows "incontab h link 0 s = 0 \<longleftrightarrow> (\<forall>p\<in>set (con_entries link). \<not> con_match h (link AND 0xFF) (k_contab s p))"
proof -
  have "link AND 0xFF \<noteq> 0x80"
  proof
    assume "link AND 0xFF = 0x80"
    then have "(link AND 0xFF) AND 0x7F = 0x80 AND 0x7F" by simp
    then show False using assms by (simp add: and.assoc)
  qed
  then show ?thesis
    by (auto simp: incontab_def con_match_def find_None_iff dest: con_entries_pos find_mem split: option.splits)
qed

lemma incontab_only:
  assumes "link AND 0x7F \<noteq> 0" "p \<in> set (con_entries link)" "con_match h (link AND 0xFF) (k_contab s p)"
    "i = 0 \<or> i = c_siptr (k_contab s p)"
    "\<And>q. q \<in> set (con_entries link) \<Longrightarrow> con_match h (link AND 0xFF) (k_contab s q) \<Longrightarrow> q = p"
  shows "incontab h link i s = p"
proof -
  have "link AND 0xFF \<noteq> 0x80"
  proof
    assume "link AND 0xFF = 0x80"
    then have "(link AND 0xFF) AND 0x7F = 0x80 AND 0x7F" by simp
    then show False using assms(1) by (simp add: and.assoc)
  qed
  moreover have "List.find (\<lambda>p. h = c_host (k_contab s p) \<and> link AND 0xFF = c_link (k_contab s p) \<and>
      (i = 0 \<or> i = c_siptr (k_contab s p))) (con_entries link) = Some p"
  proof (rule find_only)
    show "h = c_host (k_contab s p) \<and> link AND 0xFF = c_link (k_contab s p) \<and> (i = 0 \<or> i = c_siptr (k_contab s p))"
      using assms(3,4) unfolding con_match_def by blast
  next
    fix q assume "q \<in> set (con_entries link)"
      "h = c_host (k_contab s q) \<and> link AND 0xFF = c_link (k_contab s q) \<and> (i = 0 \<or> i = c_siptr (k_contab s q))"
    then show "q = p" using assms(5) [of q] unfolding con_match_def by blast
  qed (rule assms(2))
  ultimately show ?thesis unfolding incontab_def Let_def
    by (simp only: if_False prod.case option.case con_entries_and)
qed

lemma incontab_free:
  assumes "incontab 0 (link AND 0x80) 0 s = p" "p \<noteq> 0"
  shows "p \<in> set (con_entries link) \<and> c_host (k_contab s p) = 0 \<and> c_link (k_contab s p) = 0"
proof -
  have "link AND 0x80 AND 0xFF = link AND 0x80" by (simp add: and.assoc)
  moreover have "link AND 0x80 = 0 \<or> link AND 0x80 = 0x80"
  proof -
    have b: "bit (0x80 :: u16) n \<longleftrightarrow> n = 7" for n using bit_exp_iff [of 7 n, where ?'a = u16] by auto
    have "link AND 0x80 = (if bit link 7 then 0x80 else 0)"
      by (rule bit_word_eqI) (auto simp: bit_and_iff b simp del: bit_numeral_word_iff)
    then show ?thesis by simp
  qed
  ultimately show ?thesis using assms
    by (auto simp: incontab_def dest: find_mem split: option.splits if_splits)
qed

lemma upd_con_contab: "k_contab (upd_con p f s) = (k_contab s)(p := f (k_contab s p))" "k_inode (upd_con p f s) = k_inode s"
  by (simp_all add: upd_con_def)

lemma upd_skt_inode: "k_inode (upd_skt ip f s) = (k_inode s)(ip := (k_inode s ip)\<lparr>ni_skt := f (skt_of s ip)\<rparr>)"
  "k_contab (upd_skt ip f s) = k_contab s" "k_file (upd_skt ip f s) = k_file s" "k_filetab (upd_skt ip f s) = k_filetab s"
  "k_spl (upd_skt ip f s) = k_spl s" "k_hostmap (upd_skt ip f s) = k_hostmap s"
  by (simp_all add: upd_skt_def)

text \<open>The state of the witnesses: an empty kernel with four system buffers.\<close>

definition con0 :: conentry where "con0 = \<lparr>c_host = 0, c_link = 0, c_siptr = 0, c_skts = []\<rparr>"

definition skt0 :: skt where
  "skt0 = \<lparr>sk_conent = 0, sk_bsize = 0, sk_flags = 0, sk_msgs = 0, sk_w4 = 0, sk_w5 = 0, sk_w6 = 0, sk_w7 = 0, sk_proc = 0\<rparr>"

definition ncp0 :: ncp where
  "ncp0 = \<lparr>nb_buf = (\<lambda>_. \<lparr>b_qlink = 0, b_len = 0, b_resv = 0, b_loc = 0\<rparr>), nb_mem = (\<lambda>_. 0), nb_hyster = 4,
     nb_alloc = 0, nb_kb = (\<lambda>_. None), nb_freect = (\<lambda>_. 0), nb_cntfree = 0, nb_freel = 0, nb_need = 0, nb_rbuf = 0,
     sb_free = [0, 1, 2, 3], sb_paddr = (\<lambda>b. 8 * b + 8),
     k_openst = 1, k_lost = 0, k_timo = False, k_ncprq = 0, k_ncpirq = 0, k_spl = False,
     k_inode = (\<lambda>_. \<lparr>ni_count = 0, ni_skt = skt0\<rparr>),
     k_file = (\<lambda>_. \<lparr>f_flag = 0, f_count = 0, f_netnode = (\<lambda>_. 0)\<rparr>), k_filetab = replicate FILSIZE 0,
     k_contab = (\<lambda>_. con0), k_hostmap = (\<lambda>_. 0), k_localnet = 3, k_open_err = 0, i_host = 0, i_sockt = 0, i_con = 0,
     i_msg = 0, i_dest = Leader, i_mlen = 0, i_flush = False, i_wcnt = 8, i_inpwcnt = 0, i_endmsg = False, i_flushes = 0,
     i_leaderr = 0, i_leader = (\<lambda>_. 0), i_hhproto = replicate 96 0, i_lhost = 0, k_junk = 0, o_actf = 0, o_actl = 0,
     o_active = False, r_entry = (\<lambda>_. \<lparr>y_host = 0, y_lomsg = 0, y_himsg = 0, y_rawskt = 0\<rparr>), k_pstat = (\<lambda>_. False),
     r_else = 0, r_lomsg = 1152, k_ev = []\<rparr>"

text \<open>C20.  A connection entered in the table is found by host and link and by its socket, and taking it out again
  leaves no trace but a cleared socket pointer: afterwards the host and link are unknown again and the
  socket has no connection.\<close>

theorem contab_roundtrip:
  assumes e: "entcontab host link ip s = (p, s')" "p \<noteq> 0" and l: "link AND 0x7F \<noteq> 0" and n: "incontab host link 0 s = 0"
  shows "incontab host link 0 s' = p \<and> incontab host link ip s' = p \<and> ipcontab ip s' = p \<and>
    c_siptr (k_contab s' p) = ip \<and>
    (let s'' = rmcontab p s' in incontab host link 0 s'' = 0 \<and> ipcontab ip s'' = 0 \<and>
       k_contab s'' = (k_contab s)(p := (k_contab s p)\<lparr>c_siptr := 0\<rparr>))"
proof -
  let ?l = "link AND 0xFF"
  have ip: "ip \<noteq> 0" and f: "incontab 0 (link AND 0x80) 0 s = p"
    using e by (auto simp: entcontab_def Let_def and.assoc split: if_splits)
  have s': "s' = upd_skt ip (\<lambda>k. k\<lparr>sk_conent := p\<rparr>) (upd_con p (\<lambda>c. c\<lparr>c_host := host, c_link := ?l, c_siptr := ip\<rparr>) s)"
    using e ip f by (auto simp: entcontab_def Let_def and.assoc split: if_splits)
  note fr = incontab_free [OF f e(2)]
  have no: "\<not> con_match host ?l (k_contab s q)" if "q \<in> set (con_entries link)" for q
    using n that by (simp add: incontab_zero [OF l])
  have c: "k_contab s' = (k_contab s)(p := (k_contab s p)\<lparr>c_host := host, c_link := ?l, c_siptr := ip\<rparr>)"
    by (simp add: s' upd_con_contab upd_skt_inode)
  have only: "q = p" if "q \<in> set (con_entries link)" "con_match host ?l (k_contab s' q)" for q
    using no [OF that(1)] that(2) by (auto simp: c split: if_splits)
  have m: "con_match host ?l (k_contab s' p)" by (simp add: c con_match_def)
  have i: "incontab host link j s' = p" if "j = 0 \<or> j = ip" for j
  proof (rule incontab_only [OF l _ m])
    show "p \<in> set (con_entries link)" using fr by blast
    show "j = 0 \<or> j = c_siptr (k_contab s' p)" using that by (simp add: c)
  qed (rule only)
  have con: "sk_conent (skt_of s' ip) = p" by (simp add: s' upd_skt_inode)
  define s'' where "s'' = rmcontab p s'"
  have c'': "k_contab s'' = (k_contab s)(p := (k_contab s p)\<lparr>c_siptr := 0\<rparr>)"
  proof -
    have "k_contab s'' = (k_contab s)(p := (k_contab s p)\<lparr>c_host := 0, c_link := 0, c_siptr := 0\<rparr>)"
      unfolding s''_def rmcontab_def Let_def using e(2) con
      by (simp add: upd_con_contab upd_skt_inode c)
    moreover have "(k_contab s p)\<lparr>c_host := 0, c_link := 0, c_siptr := 0\<rparr> = (k_contab s p)\<lparr>c_siptr := 0\<rparr>"
      using fr by (cases "k_contab s p") simp
    ultimately show ?thesis by simp
  qed
  have "incontab host link 0 s'' = 0"
    unfolding incontab_zero [OF l] using no by (auto simp: c'' con_match_def)
  moreover have "ipcontab ip s'' = 0"
    using e(2) ip con by (simp add: s''_def rmcontab_def ipcontab_def Let_def upd_con_contab upd_skt_inode c)
  ultimately show ?thesis using i e(2) ip con c'' by (simp add: ipcontab_def c s''_def Let_def)
qed

lemma contab_roundtrip_witness:
  "entcontab 0x3000005 0x42 7 ncp0 = (1, snd (entcontab 0x3000005 0x42 7 ncp0)) \<and>
   incontab 0x3000005 0x42 7 (snd (entcontab 0x3000005 0x42 7 ncp0)) = 1"
proof -
  have "fst (entcontab 0x3000005 0x42 7 ncp0) = 1" by code_simp
  then have e: "entcontab 0x3000005 0x42 7 ncp0 = (1, snd (entcontab 0x3000005 0x42 7 ncp0))" by (metis prod.collapse)
  have "incontab 0x3000005 0x42 0 ncp0 = 0" by code_simp
  then show ?thesis using contab_roundtrip [OF e] e by simp
qed

text \<open>C21.  On hosts that good_host accepts, the bit map is a set: set_host adds exactly its host,
  reset_host removes exactly its host, and taking a new host out again restores what host_on says of every host.\<close>

theorem host_map_set:
  assumes "good_host l h" "h \<noteq> 0" "good_host l h'" "h' \<noteq> 0"
  shows "(host_on (set_host_map h m) h' \<longleftrightarrow> h' = h \<or> host_on m h') \<and>
    (host_on (reset_host h m) h' \<longleftrightarrow> h' \<noteq> h \<and> host_on m h') \<and>
    (host_on m h \<or> host_on (reset_host h (set_host_map h m)) h' = host_on m h')"
  using host_map_spec [OF assms] by auto

lemma host_map_set_witness:
  "host_on (set_host_map 0x03010005 (\<lambda>_. 0)) 0x03010005 \<and> \<not> host_on (set_host_map 0x03010005 (\<lambda>_. 0)) 0x03020005"
proof -
  have "good_host 3 0x03010005" "good_host 3 0x03020005" by code_simp+
  moreover have "\<not> host_on (\<lambda>_. 0) 0x03020005" by code_simp
  ultimately show ?thesis
    using host_map_set [of 3 "0x03010005" "0x03010005" "\<lambda>_. 0"] host_map_set [of 3 "0x03010005" "0x03020005" "\<lambda>_. 0"]
    by simp
qed

section \<open>Raw message tables\<close>

text \<open>No two entries in use claim the same message, and elseentry points to the entry of read messages that
  holds the last message number for any host.\<close>

definition raw_ok :: "nat \<Rightarrow> ncp \<Rightarrow> bool" where
  "raw_ok mode s \<longleftrightarrow> (\<forall>i\<in>set (raw_entries mode). \<forall>j\<in>set (raw_entries mode). i \<noteq> j \<and>
     y_rawskt (r_entry s i) \<noteq> 0 \<and> y_rawskt (r_entry s j) \<noteq> 0 \<longrightarrow>
     \<not> raw_clash (y_host (r_entry s i)) (y_lomsg (r_entry s i)) (y_himsg (r_entry s i)) (r_entry s j))"

definition else_ok :: "ncp \<Rightarrow> bool" where
  "else_ok s \<longleftrightarrow> r_else s \<noteq> 0 \<longrightarrow> r_else s \<in> set (raw_entries 0) \<and> y_rawskt (r_entry s (r_else s)) \<noteq> 0 \<and>
     raw_same 0 ELSEMSG ELSEMSG (r_entry s (r_else s))"

definition raw_inv :: "ncp \<Rightarrow> bool" where
  "raw_inv s \<longleftrightarrow> raw_ok 0 s \<and> raw_ok 1 s \<and> else_ok s"

lemma raw_entries_disjoint: "i \<in> set (raw_entries m) \<Longrightarrow> i \<in> set (raw_entries m') \<Longrightarrow> (m = 0) = (m' = 0)"
  by (auto simp: raw_entries_def split: if_splits)

lemma raw_entries_same: "(m = 0) = (m' = 0) \<Longrightarrow> raw_entries m = raw_entries m'"
  by (simp add: raw_entries_def)

lemma raw_ok_mode: "raw_inv s \<Longrightarrow> raw_ok mode s"
  using raw_entries_same [of mode 1] by (cases "mode = 0") (simp_all add: raw_inv_def raw_ok_def del: One_nat_def)

lemma getrawskt_free:
  assumes "getrawskt mode 0 s = i" "i \<noteq> 0"
  shows "i \<in> set (raw_entries mode) \<and> y_rawskt (r_entry s i) = 0"
  using assms by (auto simp: getrawskt_def dest: find_mem split: option.splits)

lemma getrawtab_zero:
  assumes "getrawtab mode host lo hi s = 0" "i \<in> set (raw_entries mode)" "y_rawskt (r_entry s i) \<noteq> 0"
  shows "\<not> raw_clash host lo hi (r_entry s i)"
proof -
  have "0 \<notin> set (raw_entries mode)" by (auto simp: raw_entries_def)
  then show ?thesis using assms
    by (simp add: getrawtab_def find_None_iff split: if_splits option.splits) (use find_mem in \<open>fastforce+\<close>)
qed

lemma raw_clash_sym:
  "raw_clash (y_host d) (y_lomsg d) (y_himsg d) e \<longleftrightarrow> raw_clash (y_host e) (y_lomsg e) (y_himsg e) d"
  by (auto simp: raw_clash_def)

lemma raw_ok_put:
  assumes "raw_ok m s" "i \<in> set (raw_entries mode)" "\<And>j. j \<in> set (raw_entries mode) \<Longrightarrow> y_rawskt (r_entry s j) \<noteq> 0 \<Longrightarrow>
    \<not> raw_clash (y_host e) (y_lomsg e) (y_himsg e) (r_entry s j)"
  shows "raw_ok m (s\<lparr>r_entry := (r_entry s)(i := e), r_else := x\<rparr>)"
  unfolding raw_ok_def
proof (intro ballI impI)
  fix a b assume a: "a \<in> set (raw_entries m)" and b: "b \<in> set (raw_entries m)"
  let ?s = "s\<lparr>r_entry := (r_entry s)(i := e), r_else := x\<rparr>"
  assume u: "a \<noteq> b \<and> y_rawskt (r_entry ?s a) \<noteq> 0 \<and> y_rawskt (r_entry ?s b) \<noteq> 0"
  have n: "\<not> raw_clash (y_host e) (y_lomsg e) (y_himsg e) (r_entry s j)" if "i \<in> set (raw_entries m)"
      "j \<in> set (raw_entries m)" "y_rawskt (r_entry s j) \<noteq> 0" for j
    using assms(3) [of j] raw_entries_same [OF raw_entries_disjoint [OF that(1) assms(2)]] that by simp
  consider "a = i" | "b = i" | "a \<noteq> i" "b \<noteq> i" by blast
  then show "\<not> raw_clash (y_host (r_entry ?s a)) (y_lomsg (r_entry ?s a)) (y_himsg (r_entry ?s a)) (r_entry ?s b)"
  proof cases
    case 1
    then show ?thesis using n [of b] a b u by (auto split: if_splits)
  next
    case 2
    then show ?thesis using n [of a] a b u raw_clash_sym [of e "r_entry s a"] by (auto split: if_splits)
  next
    case 3
    then show ?thesis using assms(1) a b u by (simp add: raw_ok_def)
  qed
qed

lemma putrawtab_inv:
  assumes "raw_inv s" "sk \<noteq> 0"
  shows "raw_inv (snd (putrawtab mode host lo hi sk s))"
proof (cases "getrawtab mode host lo hi s = 0 \<and> getrawskt mode 0 s \<noteq> 0")
  case False
  then show ?thesis using assms by (auto simp: putrawtab_def)
next
  case True
  define i where "i = getrawskt mode 0 s"
  define e where "e = \<lparr>y_host = host, y_lomsg = lo, y_himsg = hi, y_rawskt = sk\<rparr>"
  define x where "x = (if mode = 0 \<and> host = 0 \<and> lo = hi \<and> lo = ELSEMSG then i else r_else s)"
  have s': "snd (putrawtab mode host lo hi sk s) = s\<lparr>r_entry := (r_entry s)(i := e), r_else := x\<rparr>"
    using True by (simp add: putrawtab_def i_def e_def x_def Let_def)
  have f: "i \<in> set (raw_entries mode)" "y_rawskt (r_entry s i) = 0" using getrawskt_free [of mode s i] True by (simp_all add: i_def)
  have m: "raw_ok k (s\<lparr>r_entry := (r_entry s)(i := e), r_else := x\<rparr>)" for k
    by (rule raw_ok_put [OF raw_ok_mode [OF assms(1)] f(1)]) (use getrawtab_zero [of mode host lo hi s] True in \<open>auto simp: e_def\<close>)
  moreover have "else_ok (s\<lparr>r_entry := (r_entry s)(i := e), r_else := x\<rparr>)"
    using assms f by (auto simp: else_ok_def raw_inv_def x_def e_def raw_same_def)
  ultimately show ?thesis unfolding s' raw_inv_def by simp
qed

lemma rmrawtab_inv:
  assumes "raw_inv s"
  shows "raw_inv (rmrawtab i s)"
proof (cases "i = 0")
  case False
  have "raw_ok m (rmrawtab i s)" for m
    using raw_ok_mode [OF assms, of m] False by (auto simp: rmrawtab_def raw_ok_def)
  moreover have "else_ok (rmrawtab i s)"
    using assms False by (auto simp: rmrawtab_def raw_inv_def else_ok_def)
  ultimately show ?thesis by (simp add: raw_inv_def)
qed (simp add: assms rmrawtab_def)

text \<open>Freeing a message changes nothing outside of the buffers, whatever the state.\<close>

lemma upd_nb_more [simp]: "nk.more (upd_nb p f s) = nk.more s" "nk.more (set_qlink p q s) = nk.more s"
  "nk.more (set_len p n s) = nk.more s" "nk.more (set_resv p v s) = nk.more s"
  by (simp_all add: upd_nb_def set_qlink_def set_len_def set_resv_def)

lemma ifreebuf_more: "nk.more (snd (ifreebuf p s)) = nk.more s"
  by (simp add: ifreebuf_def Let_def)

lemma linkbuf_more: "nk.more (snd (linkbuf b m s)) = nk.more s"
  by (simp add: linkbuf_def Let_def)

lemma freeb_more: "freeb b s = Inr (n, s') \<Longrightarrow> nk.more s' = nk.more s"
  using linkbuf_more [of b "nb_freel s" "set_resv b (b_resv (nb_buf s b) AND b_memberof) s"]
  by (auto simp: freeb_def Let_def set_resv_def upd_nb_def split: prod.splits option.splits)

lemma freekb_take_more: "freekb_take f i n prev fl s = Inr (fl', s') \<Longrightarrow> nk.more s' = nk.more s"
proof (induction f arbitrary: n prev fl s)
  case (Suc f)
  then show ?case using ifreebuf_more [of prev "set_len (qlink s prev) 0 s"]
    by (fastforce simp: Let_def split: if_splits prod.splits)
qed (auto split: if_splits)

lemma freekb_slots_more: "freekb_slots is s = Inr s' \<Longrightarrow> nk.more s' = nk.more s"
  by (induction "is" arbitrary: s) (fastforce simp: kbind_eq_Inr dest: freekb_take_more split: option.splits if_splits)+

lemma freebuf_more:
  assumes "freebuf m s = Inr (m', s')"
  shows "nk.more s' = nk.more s"
proof -
  define x where "x = qlink s m"
  define s1 where "s1 = (if b_resv (nb_buf s x) AND b_raw \<noteq> 0
    then (set_resv x (b_resv (nb_buf s x) AND NOT b_raw) s)\<lparr>nb_rbuf := nb_rbuf s - 1\<rparr> else s)"
  obtain m1 s2 where i: "ifreebuf m s1 = (m1, s2)" by (cases "ifreebuf m s1")
  obtain n s3 where f: "freeb x s2 = Inr (n, s3)" "freekb (s3\<lparr>nb_cntfree := nb_cntfree s3 + 1\<rparr>) = Inr s'"
    using assms i unfolding freebuf_def Let_def x_def [symmetric] s1_def [symmetric] by (auto simp: kbind_eq_Inr)
  have "nk.more s' = nk.more s3" using f(2) by (auto simp: freekb_def dest: freekb_slots_more split: if_splits)
  also have "\<dots> = nk.more s2" by (rule freeb_more [OF f(1)])
  also have "\<dots> = nk.more s1" using ifreebuf_more [of m s1] i by simp
  also have "\<dots> = nk.more s" by (simp add: s1_def)
  finally show ?thesis .
qed

lemma freemsg_more: "freemsg m s = Inr s' \<Longrightarrow> nk.more s' = nk.more s"
proof -
  have "freemsg_loop f m s = Inr s' \<Longrightarrow> nk.more s' = nk.more s" for f
  proof (induction f arbitrary: m s)
    case (Suc f)
    show ?case
    proof (cases "m = 0")
      case False
      then obtain m1 s1 where "freebuf m s = Inr (m1, s1)" "freemsg_loop f m1 s1 = Inr s'"
        using Suc.prems by (auto simp: kbind_eq_Inr)
      then show ?thesis using Suc.IH freebuf_more by metis
    qed (use Suc.prems in simp)
  qed (simp split: if_splits)
  then show "freemsg m s = Inr s' \<Longrightarrow> nk.more s' = nk.more s" by (simp add: freemsg_def)
qed

lemma raw_inv_cong: "r_entry s' = r_entry s \<Longrightarrow> r_else s' = r_else s \<Longrightarrow> raw_inv s' = raw_inv s"
  by (simp add: raw_inv_def raw_ok_def else_ok_def)

lemma raw_inv_more: "nk.more s' = nk.more s \<Longrightarrow> raw_inv s' = raw_inv (s :: ncp)"
  by (rule raw_inv_cong) (cases s; cases s'; simp)+

lemma raw_inv_upd [simp]: "raw_inv (upd_skt ip f s) = raw_inv s" "raw_inv (upd_file fp g s) = raw_inv s"
  "raw_inv (s\<lparr>k_inode := x\<rparr>) = raw_inv s" "raw_inv (s\<lparr>r_lomsg := y\<rparr>) = raw_inv s"
  by (rule raw_inv_cong; simp add: upd_skt_def upd_file_def)+

lemma rawrel_skts_inv: "rawrel_skts fp is s = Inr s' \<Longrightarrow> raw_inv s \<Longrightarrow> raw_inv s'"
proof (induction "is" arbitrary: s)
  case (Cons i "is")
  show ?case
  proof (cases "f_netnode (k_file s fp) i = 0")
    case False
    define ip where "ip = f_netnode (k_file s fp) i"
    define s0 where "s0 = upd_skt ip (clr_flags n_open) s"
    obtain s1 where s1: "(if sk_w6 (skt_of s0 ip) \<noteq> 0 \<or> sk_w4 (skt_of s0 ip) \<noteq> 0 then freemsg (r_msgq (skt_of s0 ip)) s0
        else Inr s0) = Inr s1" and
      r: "rawrel_skts fp is (upd_file fp (\<lambda>f. f\<lparr>f_netnode := (f_netnode f)(i := 0)\<rparr>)
        ((rmrawtab (getrawskt i ip s1) s1)\<lparr>k_inode := (k_inode (rmrawtab (getrawskt i ip s1) s1))(ip := \<lparr>ni_count = 0,
           ni_skt = \<lparr>sk_conent = 0, sk_bsize = 0, sk_flags = 0,
                 sk_msgs = 0, sk_w4 = 0, sk_w5 = 0, sk_w6 = 0, sk_w7 = 0, sk_proc = 0\<rparr>\<rparr>)\<rparr>)) = Inr s'"
      using Cons.prems(1) False by (auto simp: Let_def kbind_eq_Inr ip_def [symmetric] s0_def [symmetric])
    have "raw_inv s1" using s1 Cons.prems(2) freemsg_more raw_inv_more [of s1 s0] by (auto simp: s0_def split: if_splits)
    then show ?thesis using Cons.IH [OF r] rmrawtab_inv by simp
  qed (use Cons in \<open>simp add: Let_def\<close>)
qed simp

lemma rawrel_inv: "rawrel fp s = Inr s' \<Longrightarrow> raw_inv s \<Longrightarrow> raw_inv s'"
  unfolding rawrel_def by (rule rawrel_skts_inv)

lemma rawinode_inv: "raw_inv (snd (rawinode up s)) = raw_inv s"
  by (simp add: rawinode_def split: option.split)

lemma rawopen_skts_inv: "rawopen_skts up fp mode host lo hi is s = (e, s') \<Longrightarrow> raw_inv s \<Longrightarrow> raw_inv s'"
proof (induction "is" arbitrary: s)
  case (Cons i "is")
  obtain ip s1 where r: "rawinode up s = (ip, s1)" by (cases "rawinode up s")
  have 1: "raw_inv s1" using rawinode_inv [of up s] r Cons.prems(2) by simp
  define s2 where "s2 = upd_file fp (\<lambda>f. f\<lparr>f_netnode := (f_netnode f)(i := ip)\<rparr>) s1"
  have 2: "raw_inv s2" using 1 by (simp add: s2_def)
  obtain j s3 where p: "putrawtab i host lo hi ip s2 = (j, s3)" by (cases "putrawtab i host lo hi ip s2")
  have 3: "raw_inv s3" if "ip \<noteq> 0" using putrawtab_inv [OF 2 that, of i host lo hi] p by simp
  show ?case using Cons.prems r p 1 2 3 Cons.IH
    by (auto simp: Let_def s2_def [symmetric] split: if_splits)
qed simp

lemma ncp_falloc_inv: "ncp_falloc fd s = Inr (fp, t) \<Longrightarrow> raw_inv s \<Longrightarrow> raw_inv t"
  by (auto simp: ncp_falloc_def split: if_splits option.splits)

lemma rawopen_file_inv:
  assumes "rawopen_file up fp mode host lo hi s = Inr (r, s')" "raw_inv s"
  shows "raw_inv s'"
proof -
  define s0 where "s0 = upd_file fp (\<lambda>f. f\<lparr>f_netnode := (\<lambda>_. 0), f_count := f_count f + 1,
                f_flag := FNET OR FRAW OR FOPEN OR mode\<rparr>) s"
  obtain e s1 where o: "rawopen_skts up fp mode host lo hi [0, 1] s0 = (e, s1)"
    by (cases "rawopen_skts up fp mode host lo hi [0, 1] s0")
  have "raw_inv s0" using assms(2) by (simp add: s0_def)
  then have "raw_inv s1" by (rule rawopen_skts_inv [OF o])
  then show ?thesis using assms(1) o unfolding rawopen_file_def Let_def s0_def [symmetric]
    by (cases e) (auto simp: kbind_eq_Inr dest: rawrel_inv)
qed

text \<open>C22.  Opening and closing raw message files, whatever the parameters and whether or not the call succeeds, keeps the
  tables consistent: no two files claim the same message of the same host.\<close>

theorem raw_tables_consistent:
  assumes "raw_inv s"
  shows "(rawopen up vec fd s = Inr (r, s') \<longrightarrow> raw_inv s') \<and> (rawclose fp s = Inr (b, s'') \<longrightarrow> raw_inv s'')"
proof (intro conjI impI)
  assume "rawclose fp s = Inr (b, s'')"
  then show "raw_inv s''"
    using assms by (auto simp: rawclose_def kbind_eq_Inr split: if_splits dest!: rawrel_inv)
next
  assume "rawopen up vec fd s = Inr (r, s')"
  then show "raw_inv s'"
    using assms unfolding rawopen_def Let_def
    by (simp split: if_splits sum.splits prod.splits, auto dest: ncp_falloc_inv rawopen_file_inv)
qed

lemma raw_inv_ncp0: "raw_inv ncp0"
  by (simp add: raw_inv_def raw_ok_def else_ok_def ncp0_def)

lemma raw_tables_consistent_witness:
  "\<exists>s'. rawopen 1 [0, 0, 0, 0, 0, 0, 0, 5, 0, 0] True ncp0 = Inr (Inr 1, s') \<and> raw_inv s'"
proof -
  have "case rawopen 1 [0, 0, 0, 0, 0, 0, 0, 5, 0, 0] True ncp0 of Inr (r, s') \<Rightarrow> r = Inr 1 | Inl e \<Rightarrow> False" by code_simp
  then obtain s' where "rawopen 1 [0, 0, 0, 0, 0, 0, 0, 5, 0, 0] True ncp0 = Inr (Inr 1, s')"
    by (auto split: sum.splits prod.splits)
  then show ?thesis using raw_tables_consistent [OF raw_inv_ncp0] by blast
qed

text \<open>C23.  A message goes to the one file that asked for it: when an open read file covers the message number for
  its host, or for any host, inrawtab returns its entry, whatever else is in the table.\<close>

theorem raw_dispatch:
  assumes "raw_inv s" "i \<in> set (raw_entries 0)" "y_rawskt (r_entry s i) \<noteq> 0"
    "sk_flags (skt_of s (y_rawskt (r_entry s i))) AND n_open \<noteq> 0" "y_host (r_entry s i) = host \<or> y_host (r_entry s i) = 0"
    "y_lomsg (r_entry s i) \<le> msg" "msg \<le> y_himsg (r_entry s i)" "r_lomsg s \<le> msg"
  shows "inrawtab 0 host msg s = i"
proof -
  have "List.find (\<lambda>i. y_rawskt (r_entry s i) \<noteq> 0 \<and> sk_flags (skt_of s (y_rawskt (r_entry s i))) AND n_open \<noteq> 0 \<and>
         (y_host (r_entry s i) = host \<or> y_host (r_entry s i) = 0) \<and> y_lomsg (r_entry s i) \<le> msg \<and> msg \<le> y_himsg (r_entry s i))
       (raw_entries 0) = Some i"
  proof (rule find_only)
    fix j assume j: "j \<in> set (raw_entries 0)" and
      m: "y_rawskt (r_entry s j) \<noteq> 0 \<and> sk_flags (skt_of s (y_rawskt (r_entry s j))) AND n_open \<noteq> 0 \<and>
         (y_host (r_entry s j) = host \<or> y_host (r_entry s j) = 0) \<and> y_lomsg (r_entry s j) \<le> msg \<and> msg \<le> y_himsg (r_entry s j)"
    have "raw_clash (y_host (r_entry s i)) (y_lomsg (r_entry s i)) (y_himsg (r_entry s i)) (r_entry s j)"
      using assms(5-7) m unfolding raw_clash_def by (metis order.trans)
    then show "j = i" using raw_ok_mode [OF assms(1), of 0, unfolded raw_ok_def, rule_format, OF assms(2) j] assms(3) m by auto
  next
    show "y_rawskt (r_entry s i) \<noteq> 0 \<and> sk_flags (skt_of s (y_rawskt (r_entry s i))) AND n_open \<noteq> 0 \<and>
         (y_host (r_entry s i) = host \<or> y_host (r_entry s i) = 0) \<and> y_lomsg (r_entry s i) \<le> msg \<and> msg \<le> y_himsg (r_entry s i)"
      using assms(3-7) by blast
  qed (rule assms(2))
  then show ?thesis using assms(8) by (simp add: inrawtab_def)
qed

definition raw_sample :: ncp where
  "raw_sample = ncp0\<lparr>r_entry := (r_entry ncp0)(3 := \<lparr>y_host = 0, y_lomsg = 1200, y_himsg = 1300, y_rawskt = 9\<rparr>),
     k_inode := (k_inode ncp0)(9 := \<lparr>ni_count = 2, ni_skt = skt0\<lparr>sk_flags := ROPENFLAGS\<rparr>\<rparr>)\<rparr>"

lemma raw_dispatch_witness: "inrawtab 0 0x03010005 1250 raw_sample = 3"
proof (rule raw_dispatch)
  show "raw_inv raw_sample" by (simp add: raw_inv_def raw_ok_def else_ok_def raw_sample_def ncp0_def)
  show "sk_flags (skt_of raw_sample (y_rawskt (r_entry raw_sample 3))) AND n_open \<noteq> 0"
    by (simp add: raw_sample_def ROPENFLAGS_def n_open_def n_raw_def)
qed (simp_all add: raw_sample_def ncp0_def raw_entries_def)

section \<open>Allocation of a connection\<close>









text \<open>C25.  The bits of the allocate command are computed in 16 bits: when the free space is a multiple of 8192 bytes,
  which a user gets by opening with a nominal allocation of 8192, the foreign host is granted no bit at all, while
  the kernel counts all of r_hiwat as allocated and sends no further allocation.\<close>

theorem sendalloc_grants_nothing:
  fixes s :: ncp and ip :: nat and amt :: u16
  defines "k \<equiv> skt_of s ip"
  defines "b \<equiv> r_bytes k - amt"
  assumes "\<not> host_on (k_hostmap s) (c_host (k_contab s (sk_conent k)))"
    "sint b \<le> sint (r_hiwat k) div 2 \<or> sint (sk_msgs k) \<le> 5" "push_bit 3 (r_hiwat k - b) = 0"
  shows "\<exists>link m0 m1 s'. sendalloc ip amt env s =
      kbind (sndnetbytes [hhall, link, m0, m1, 0, 0, 0, 0] ip 0 env s') (\<lambda>(env, s). Inr (True, env, s)) \<and>
    r_bytes (skt_of s' ip) = r_hiwat k"
proof -
  let ?s = "upd_skt ip (\<lambda>k. k\<lparr>sk_w4 := sk_w4 k - amt\<rparr>) s"
  let ?host = "c_host (k_contab s (sk_conent k))"
  have w: "hhchan_wait ip ?host env ?s = Inr (env, ?s)"
    using assms(3) by (cases env) (simp_all add: upd_skt_inode)
  have c: "sint b \<le> sint (r_hiwat k) div 2 \<or> sint (sk_msgs k) \<le> sint NOMMSG div 2" using assms(4) by (simp add: NOMMSG_def)
  have z: "swab 0 = 0" "lobyte 0 = 0" "hibyte 0 = 0" by (simp_all add: swab_def lobyte_def hibyte_def)
  let ?s1 = "?s\<lparr>k_hostmap := set_host_map ?host (k_hostmap s)\<rparr>"
  let ?s2 = "upd_skt ip (\<lambda>x. x\<lparr>sk_msgs := sk_msgs x + (NOMMSG - sk_msgs k), sk_w4 := sk_w4 x + (r_hiwat k - b)\<rparr>) ?s1"
  have k1: "skt_of ?s ip = k\<lparr>sk_w4 := b\<rparr>" by (simp add: upd_skt_inode k_def b_def)
  have "sendalloc ip amt env s = kbind (sndnetbytes [hhall, lobyte (c_link (k_contab s (sk_conent k))),
      lobyte (swab (NOMMSG - sk_msgs k)), hibyte (swab (NOMMSG - sk_msgs k)), 0, 0, 0, 0] ip 0 env ?s2)
      (\<lambda>(env, s). Inr (True, env, s))"
    unfolding sendalloc_def Let_def k1 using w c assms(5)
    by (simp add: upd_skt_inode(2-) k1 z if_P)
  moreover have "r_bytes (skt_of ?s2 ip) = r_hiwat k" by (simp add: upd_skt_inode k_def [symmetric] b_def [symmetric])
  ultimately show ?thesis by blast
qed

definition alloc_sample :: ncp where
  "alloc_sample = upd_skt 5 (\<lambda>k. k\<lparr>sk_flags := n_open, sk_msgs := 9, sk_w4 := 100, sk_w7 := 8192\<rparr>) ncp0"

lemma sendalloc_grants_nothing_witness:
  "\<exists>link m0 m1 s'. sendalloc 5 100 [] alloc_sample =
      kbind (sndnetbytes [hhall, link, m0, m1, 0, 0, 0, 0] 5 0 [] s') (\<lambda>(env, s). Inr (True, env, s)) \<and>
    r_bytes (skt_of s' 5) = 8192"
proof -
  have "\<not> host_on (k_hostmap alloc_sample) (c_host (k_contab alloc_sample (sk_conent (skt_of alloc_sample 5))))"
    "sint (r_bytes (skt_of alloc_sample 5) - 100) \<le> sint (r_hiwat (skt_of alloc_sample 5)) div 2 \<or>
       sint (sk_msgs (skt_of alloc_sample 5)) \<le> 5"
    "push_bit 3 (r_hiwat (skt_of alloc_sample 5) - (r_bytes (skt_of alloc_sample 5) - 100)) = 0"
    "r_hiwat (skt_of alloc_sample 5) = 8192"
    by code_simp+
  then show ?thesis using sendalloc_grants_nothing [of alloc_sample 5 100 "[]"] by simp
qed

section \<open>Commands of the daemon\<close>

text \<open>C26.  A well-formed command to change a socket that has no entry in the connection table, because the table was full
  when it was set up or the connection has been removed, makes the kernel store through a null pointer.\<close>

theorem mod_without_entry:
  fixes s :: ncp and vec :: "byte list"
  defines "r \<equiv> parse_ncprs vec"
  assumes "18 \<le> length vec" "vec ! 0 = 2" "rs_id r \<noteq> 0" "infiletab (rs_id r) s \<noteq> 0" "vec ! 1 \<le> 2"
    "f_netnode (k_file s (rs_id r)) (unat (vec ! 1)) = ip" "ip \<noteq> 0" "ipcontab ip s = 0"
  shows "ncpwrite vec env s = Inl Wild"
proof -
  have op: "rs_opcode r = 2" "rs_index r = vec ! 1" using assms(3) by (simp_all add: r_def parse_ncprs_def)
  have ix: "unat (vec ! 1) \<le> 2" using assms(6) by (simp add: word_le_nat_alt)
  then have "vec ! 1 = 0 \<or> vec ! 1 = 1 \<or> vec ! 1 = 2" by (auto simp: word_unat_eq_iff)
  then have six: "sint (vec ! 1) \<le> 2" by auto
  have "wf_mod r ip u env s = Inl Wild" for u
  proof -
    have "ipcontab ip (upd_skt ip f s) = 0" if "\<And>k. sk_conent (f k) = sk_conent k" for f
      using assms(9) that by (simp add: ipcontab_def upd_skt_inode split: if_splits)
    then show ?thesis by (simp add: wf_mod_def wf_update_skt_def Let_def or_flags_def clr_flags_def split: prod.split)
  qed
  moreover have "\<not> length vec - 12 < 6" using assms(2) by simp
  ultimately show ?thesis using assms(2,4,5,7,8) op ix six
    by (simp add: ncpwrite_def r_def [symmetric] Let_def ncpopsizes_def ncpopwants_def want_id_def want_inodep_def bad_id_def
        FNET_def netnode_def)
qed

definition mod_sample :: ncp where
  "mod_sample = (upd_file 1 (\<lambda>f. f\<lparr>f_netnode := (\<lambda>_. 5)\<rparr>) ncp0)\<lparr>k_filetab := [1]\<rparr>"

lemma mod_without_entry_witness:
  "ncpwrite [2, 0, 1, 0, 0, 3, 5, 0, 0x42, 0, 0, 8, 0, 0, 0, 0, 0, 0] [] mod_sample = Inl Wild"
proof -
  let ?v = "[2, 0, 1, 0, 0, 3, 5, 0, 0x42, 0, 0, 8, 0, 0, 0, 0, 0, 0] :: byte list"
  have i: "rs_id (parse_ncprs ?v) = 1" "infiletab 1 mod_sample = 1" "f_netnode (k_file mod_sample 1) (unat (?v ! 1)) = 5"
    "ipcontab 5 mod_sample = 0" by code_simp+
  show ?thesis by (rule mod_without_entry [where ip = 5]) (use i in simp_all)
qed

end
