(* ===== verification/Ncp_Messages.thy ===== *)
theory Ncp_Messages
  imports Ncp_Tables
begin

text \<open>
  What the message buffers promise to the rest of the NCP kernel: the allocator hands out fresh buffers
  and never fails otherwise than by sleeping, a message holds what was put into it and gives it back in
  order, joining two messages concatenates them, a message that is too long sleeps for ever; and what
  happens to a queued message when the network goes down.
\<close>

lemma kok_ncp0: "kok held 0 {} ncp0"
proof (rule kokI)
  have "8 * a + 8 + 8 \<le> 8 * b + 8 \<or> 8 * b + 8 + 8 \<le> 8 * a + 8" if "a \<noteq> b" for a b :: nat using that by presburger
  then show "pool ncp0 []" by (simp add: pool_def sysbufs_def ncp0_def)
  have "handles ncp0 = {0}" by (simp add: handles_def rd_skts_def ncp0_def)
  then have h: "held ncp0 = {}" by (simp add: held_def reach_def)
  then show "set [] \<inter> ({} \<union> held ncp0) = {}" "\<And>x. x \<in> {} \<union> held ncp0 \<Longrightarrow> good ncp0 x" "{} \<inter> held ncp0 = {}" by simp_all
qed (simp_all add: ncp0_def kbs_def)

lemma rely_nil: "\<forall>e\<in>set []. rely held e"
  by simp










text \<open>A new message, and a state with two of them.\<close>

lemma new_message:
  fixes s :: ncp
  assumes "kok held p own s" "vectomsg vec 0 [] s = Inr r"
  shows "\<exists>m s' xs. r = (0, m, [], s') \<and> message s' m xs \<and> nb_bytes s' xs = vec \<and> set xs \<inter> own = {} \<and>
    kok held p (own \<union> set xs) s' \<and> same own s s'"
proof -
  have m0: "message s 0 []" and e0: "set [] \<subseteq> own" by simp_all
  from ncp.vectomsg_ok [OF assms(1) m0 e0 rely_nil, of vec] assms(2) show ?thesis by fastforce
qed




section \<open>The network goes down\<close>

text \<open>The whole kernel as one process: nothing is held by anybody else.\<close>

interpretation alone: buffer_users "\<lambda>_ :: ncp. {}"
  by unfold_locales simp

lemma bfrdwn_none:
  fixes s :: "'a nk_scheme"
  shows "nb_buf (ncp_bfrdwn s) = nb_buf s \<and> nk.more (ncp_bfrdwn s) = nk.more s \<and> (i < 4 \<longrightarrow> nb_kb (ncp_bfrdwn s) i = None)"
proof -
  have l: "nb_buf (bfrdwn_slots is t) = nb_buf t \<and> nk.more (bfrdwn_slots is t) = nk.more t \<and>
      (i \<in> set is \<or> nb_kb t i = None \<longrightarrow> nb_kb (bfrdwn_slots is t) i = None)" for "is" and t :: "'a nk_scheme"
    by (induction "is" arbitrary: t) (auto split: option.split)
  have "set [0..<kb_hiwat] = {..<4}" by (auto simp: atLeast0LessThan)
  then show ?thesis using l [of "[0..<kb_hiwat]"] unfolding ncp_bfrdwn_def by simp
qed

lemma freemsg_wild:
  assumes "m \<noteq> 0" "\<And>x. x = qlink s m \<Longrightarrow> nb_kb s (unat (b_resv (nb_buf s x) AND b_memberof)) = None"
  shows "freemsg m s = Inl Wild"
proof -
  define x where "x = qlink s m"
  define s1 where "s1 = (if b_resv (nb_buf s x) AND b_raw \<noteq> 0
    then (set_resv x (b_resv (nb_buf s x) AND NOT b_raw) s)\<lparr>nb_rbuf := nb_rbuf s - 1\<rparr> else s)"
  have r1: "b_resv (nb_buf s1 x) AND 0xF = b_resv (nb_buf s x) AND 0xF" "nb_kb s1 = nb_kb s"
    by (simp_all add: s1_def set_resv_def upd_nb_def and.assoc)
  obtain m1 s2 where i: "ifreebuf m s1 = (m1, s2)" by (cases "ifreebuf m s1")
  have r2: "b_resv (nb_buf s2 y) = b_resv (nb_buf s1 y)" "nb_kb s2 = nb_kb s1" for y
    using i by (auto simp: ifreebuf_def Let_def set_qlink_def upd_nb_def split: if_splits)
  have "nb_kb s2 (unat (b_resv (nb_buf s2 x) AND 0xF)) = None" using assms(2) [of x] r1 r2 by (simp add: x_def)
  then have "freeb x s2 = Inl Wild"
    by (cases "x = 0") (simp_all add: freeb_def linkbuf_def Let_def set_resv_def set_qlink_def upd_nb_def)
  then have "freebuf m s = Inl Wild"
    using i unfolding freebuf_def Let_def x_def [symmetric] s1_def [symmetric] by simp
  then show ?thesis using assms(1) by (simp add: freemsg_def ring_fuel_def numeral_eq_Suc)
qed

text \<open>C31.  When the interface goes down, imp_dwn gives every system buffer back while sockets still have queued data: the
  process that closes such a socket afterwards makes the kernel store through a null pointer.\<close>

theorem close_after_down:
  fixes s :: ncp
  assumes k: "kok (\<lambda>_. {}) p own s" and y: "message s (i_msg s) ys" and z: "message s (o_actl s) zs"
    and f: "o_actf s = (if zs = [] then 0 else hd zs)"
    and x: "msgq (qlink s) (r_msgq (skt_of s ip)) xs" "xs \<noteq> []"
    and o: "set xs \<union> set ys \<union> set zs \<subseteq> own" "set xs \<inter> set ys = {}" "set xs \<inter> set zs = {}" "set ys \<inter> set zs = {}"
    and ip: "f_netnode (k_file s fp) f_rdnode = ip" "ip \<noteq> 0"
  shows "\<exists>s'. imp_dwn s = Inr s' \<and> k_inode s' = k_inode s \<and> daedes fp f_rdnode s' = Inl Wild"
proof -
  let ?h = "\<lambda>_ :: ncp. {}"
  have ym: "msgq (qlink s) (i_msg s) ys" using y by (simp add: message_def)
  obtain s1 where s1: "freemsg (i_msg s) s = Inr s1" "kok ?h p (own - set ys) s1" "nk.more s1 = nk.more s" "same (own - set ys) s s1"
    using alone.freemsg_ok [OF k ym] o(1) by blast
  define s2 where "s2 = s1\<lparr>i_msg := 0, i_mlen := 0, i_sockt := 0, i_con := 0, i_flush := False, o_active := False\<rparr>"
  have bf: "nb_buf s2 = nb_buf s1" by (simp add: s2_def)
  have k2: "kok ?h p (own - set ys) s2"
    using s1(2) by (simp add: kok_def pool_def good_def sysbufs_def kbs_def s2_def cong: option.case_cong)
  have zr: "msgq (qlink s2) (o_actf s) (rotate1 zs)"
  proof (cases zs)
    case (Cons a as)
    have "ring (qlink s) (o_actl s) (a # as)" using z Cons by (simp add: message_def msgq_def)
    then have "ring (qlink s) a (as @ [a])" by (rule ring_rotate)
    then have "msgq (qlink s) (o_actf s) (rotate1 zs)" using f Cons ring_msgq by auto
    moreover have "set (rotate1 zs) \<subseteq> own - set ys" using o(1,4) by auto
    ultimately show ?thesis using same_msgq [OF s1(4), of "rotate1 zs" "o_actf s"] unfolding bf by blast
  qed (simp add: f)
  have zo: "set (rotate1 zs) \<subseteq> own - set ys" using o(1,4) by auto
  obtain s3 where s3: "freemsg (o_actf s) s2 = Inr s3" "kok ?h p (own - set ys - set zs) s3" "nk.more s3 = nk.more s2"
      "same (own - set ys - set zs) s2 s3"
    using alone.freemsg_ok [OF k2 zr] zo by auto
  define s4 where "s4 = emit (Printed ''NCP:Down!'') (s3\<lparr>o_actf := 0, o_actl := 0, k_hostmap := host_clean (k_hostmap s3)\<rparr>)"
  have "o_actf s1 = o_actf s" using more_eq [OF s1(3)] by simp
  then have run: "imp_dwn s = Inr (ncp_bfrdwn s4)"
    using s1(1) s3(1) by (simp add: imp_dwn_def Let_def s2_def [symmetric] s4_def)
  have more: "k_inode (ncp_bfrdwn s4) = k_inode s" "k_file (ncp_bfrdwn s4) = k_file s"
    using more_eq [OF conjunct1 [OF conjunct2 [OF bfrdwn_none [of s4]]]] more_eq [OF s3(3)] more_eq [OF s1(3)]
    by (simp_all add: s4_def emit_def s2_def)
  have xs: "set xs \<subseteq> own - set ys - set zs" using o by auto
  have same: "same (own - set ys - set zs) s s3"
    using same_mono [OF s1(4), of "own - set ys - set zs"] s3(4) by (auto simp: same_def bf s2_def fbbyte_def)
  have buf: "nb_buf (ncp_bfrdwn s4) = nb_buf s3" using bfrdwn_none [of s4] by (simp add: s4_def emit_def)
  have none: "nb_kb (ncp_bfrdwn s4) i = None" if "i < 4" for i using bfrdwn_none that by blast
  let ?m = "r_msgq (skt_of s ip)"
  have q: "msgq (qlink s3) ?m xs" using x(1) same_msgq [OF same xs] by simp
  then have m: "?m \<noteq> 0" using x(2) ring_nonzero by (auto simp: msgq_def)
  have "qlink s3 ?m \<in> set xs" using q m x(2) ring_hd_in [of "qlink s3" ?m xs] by (simp add: msgq_ring)
  then have "good s3 (qlink s3 ?m)" using kok_good [OF s3(2)] xs by blast
  then have "unat (b_resv (nb_buf s3 (qlink s3 ?m)) AND b_memberof) < 4" by (simp add: good_def)
  then have "freemsg ?m (ncp_bfrdwn s4) = Inl Wild"
    by (intro freemsg_wild [OF m]) (simp only: buf none)
  then have "daedes fp f_rdnode (ncp_bfrdwn s4) = Inl Wild"
    using ip by (simp add: daedes_def Let_def more)
  then show ?thesis using run more by blast
qed

lemma kok_alone: "kok held p own s \<Longrightarrow> kok (\<lambda>_ :: ncp. {}) p own s"
  unfolding kok_def by blast

lemma close_after_down_witness: "\<exists>s s'. imp_dwn s = Inr s' \<and> daedes 1 f_rdnode s' = Inl Wild"
proof -
  have "case vectomsg [1, 2, 3] 0 [] ncp0 of Inr _ \<Rightarrow> True | Inl e \<Rightarrow> False" by code_simp
  then obtain r where r: "vectomsg [1, 2, 3] 0 [] ncp0 = Inr r" by (auto split: sum.splits)
  from new_message [OF kok_ncp0 r] obtain m s1 xs where x: "message s1 m xs" "nb_bytes s1 xs = [1, 2, 3]" "kok held 0 (set xs) s1"
    by auto
  define s where "s = s1\<lparr>i_msg := 0, o_actl := 0, o_actf := 0,
    k_inode := (\<lambda>_. \<lparr>ni_count = 2, ni_skt = skt0\<lparr>sk_w5 := of_nat m\<rparr>\<rparr>), k_file := (\<lambda>_. \<lparr>f_flag = FNET, f_count = 2, f_netnode = (\<lambda>_. 5)\<rparr>)\<rparr>"
  have k: "kok (\<lambda>_. {}) 0 (set xs) s"
    using kok_alone [OF x(3)] by (simp add: kok_def pool_def good_def sysbufs_def kbs_def s_def cong: option.case_cong)
  have "xs \<noteq> []" using x(2) by auto
  have q: "msgq (qlink s1) m xs" using x(1) by (simp add: message_def)
  then have "m \<in> set xs" using \<open>xs \<noteq> []\<close> ring_set_last by (auto simp: msgq_def)
  then have "m \<le> 32" using good_lt [OF kok_good [OF x(3)]] by blast
  then have "unat (of_nat m :: u16) = m" by (intro of_nat_inverse [OF refl]) simp
  then have "r_msgq (skt_of s 5) = m" by (simp add: r_msgq_def s_def)
  moreover have "msgq (qlink s) m xs" using q by (simp add: s_def)
  ultimately show ?thesis
    using close_after_down [OF k, of "[]" "[]" 5 xs 1] \<open>xs \<noteq> []\<close> by (auto simp: s_def)
qed

end
