(* ===== verification/Ncp_Queues.thy ===== *)
theory Ncp_Queues
  imports Ncp_Messages
begin

text \<open>
  The queues to the daemon and to the interface: what msg_q, to_ncp and sndnetbytes put into a queue
  when no sleep interrupts them, and what ncpread takes out of it.
\<close>

abbreviation akok :: "nat \<Rightarrow> nat set \<Rightarrow> ncp \<Rightarrow> bool" where
  "akok \<equiv> kok (\<lambda>_. {})"

section \<open>Operations that do not sleep leave the rest of the state alone\<close>

lemma carve_more: "carve i b ks s = Inr s' \<Longrightarrow> nk.more s' = nk.more s"
proof (induction ks arbitrary: s)
  case (Cons k ks)
  then obtain n s1 where f: "freeb (bufhead i k) (upd_nb (bufhead i k) (\<lambda>h. h\<lparr>b_resv := of_nat i, b_loc := sb_paddr s b + k\<rparr>) s) = Inr (n, s1)"
    "carve i b ks s1 = Inr s'" by (auto simp: kbind_eq_Inr)
  show ?case using Cons.IH [OF f(2)] freeb_more [OF f(1)] by simp
qed simp

lemma getsblk_more: "getsblk [] s = Inr (b, e, s') \<Longrightarrow> nk.more s' = nk.more s \<and> e = []"
  by (auto split: list.splits)

lemma getkb_more: "getkb [] s = Inr (r, e, s') \<Longrightarrow> nk.more s' = nk.more s \<and> e = []"
proof (cases "nb_alloc s \<ge> int kb_hiwat")
  case False
  assume g: "getkb [] s = Inr (r, e, s')"
  then obtain b s1 i s2 where x: "getsblk [] (s\<lparr>nb_alloc := nb_alloc s + 1\<rparr>) = Inr (b, e, s1)"
    "carve i b [0..<net_b_per_k_b] (s1\<lparr>nb_freect := (nb_freect s1)(b := 0), nb_kb := (nb_kb s1)(i := Some b)\<rparr>) = Inr s2"
    "s' = s2\<lparr>nb_cntfree := nb_cntfree s2 + int net_b_per_k_b\<rparr>"
    using False by (auto simp: getkb_def kbind_eq_Inr simp del: getsblk.simps split: option.splits)
  then show ?thesis using getsblk_more [OF x(1)] carve_more [OF x(2)] by simp
qed (simp add: getkb_def)

lemma take_free_more: "take_free s = Inr (b, s') \<Longrightarrow> nk.more s' = nk.more s"
proof -
  let ?s = "\<lambda>k. s\<lparr>nb_freect := (nb_freect s)(k := nb_freect s k - 1), nb_cntfree := nb_cntfree s - 1\<rparr>"
  have "nk.more (snd (ifreebuf (nb_freel s) (?s k))) = nk.more s" for k using ifreebuf_more [of "nb_freel s" "?s k"] by simp
  then show "take_free s = Inr (b, s') \<Longrightarrow> nk.more s' = nk.more s"
    by (auto simp: take_free_def Let_def split: option.splits prod.splits) (metis snd_conv)
qed

lemma getbuf_more: "getbuf [] s = Inr (b, e, s') \<Longrightarrow> nk.more s' = nk.more s \<and> e = []"
  by (subst (asm) getbuf.simps)
    (fastforce simp: kbind_eq_Inr Let_def dest!: getkb_more take_free_more split: if_splits)

lemma rawbuf_more: "rawbuf [] s = Inr (b, e, s') \<Longrightarrow> nk.more s' = nk.more s \<and> e = []"
  by (fastforce simp: rawbuf_def kbind_eq_Inr dest!: getbuf_more freebuf_more split: if_splits)

lemma appendb_more: "appendb m [] s = Inr (b, e, s') \<Longrightarrow> nk.more s' = nk.more s \<and> e = []"
proof -
  assume a: "appendb m [] s = Inr (b, e, s')"
  show ?thesis
  proof (cases "m \<noteq> 0 \<and> b_len (nb_buf s m) < net_b_size")
    case False
    then obtain x e1 s1 where x: "(if m \<noteq> 0 \<and> b_resv (nb_buf s m) AND b_raw \<noteq> 0 then rawbuf [] s else getbuf [] s) = Inr (x, e1, s1)"
      "(if x = 0 then Inr (0, e1, s1) else let (p, s) = linkbuf x m s1 in Inr (p, e1, s)) = (Inr (b, e, s') :: stop + _)"
      using a by (auto simp: appendb_def kbind_eq_Inr)
    have "nk.more s1 = nk.more s \<and> e1 = []" using x(1) by (auto dest: rawbuf_more getbuf_more split: if_splits)
    then show ?thesis using x(2) linkbuf_more [of x m s1] by (auto split: if_splits prod.splits)
  qed (use a in \<open>simp add: appendb_def\<close>)
qed

lemma sb_bytes_more: "nk.more (sb_bytes loc d cs s) = nk.more s"
  by (induction cs arbitrary: d s) (simp_all add: sbbyte_def)

lemma vectomsg_more: "vectomsg vec m [] s = Inr (l, m', e, s') \<Longrightarrow> nk.more s' = nk.more s \<and> e = []"
proof (induction "length vec" arbitrary: vec m s rule: less_induct)
  case less
  show ?case
  proof (cases "vec = []")
    case False
    then obtain p e1 s1 where a: "appendb m [] s = Inr (p, e1, s1)"
      using less.prems by (subst (asm) vectomsg.simps) (auto simp: kbind_eq_Inr)
    note am = appendb_more [OF a]
    define n where "n = nat (min (net_b_size - b_len (nb_buf s1 p) mod 256) (int (length vec)))"
    define s2 where "s2 = sb_bytes (b_loc (nb_buf (set_len p (b_len (nb_buf s1 p) + int n) s1) p)) (nat (b_len (nb_buf s1 p)))
      (take n vec) (set_len p (b_len (nb_buf s1 p) + int n) s1)"
    have m2: "nk.more s2 = nk.more s1" by (simp add: s2_def sb_bytes_more)
    show ?thesis
    proof (cases "p = 0")
      case True
      then show ?thesis using less.prems False a am by (subst (asm) vectomsg.simps) auto
    next
      case p: False
      have "vectomsg (drop n vec) p [] s2 = Inr (l, m', e, s') \<and> 0 < n"
        using less.prems False a am p
        by (subst (asm) vectomsg.simps) (auto simp: Let_def n_def s2_def split: if_splits)
      then show ?thesis using less.hyps [of "drop n vec" p s2] False am m2 by simp
    qed
  qed (use less.prems in \<open>simp add: vectomsg.simps\<close>)
qed

section \<open>Putting a message into a queue\<close>

lemma akok_more:
  assumes "akok p own s" "nb_buf s' = nb_buf s" "nb_kb s' = nb_kb s" "nb_alloc s' = nb_alloc s" "nb_freel s' = nb_freel s"
    "nb_freect s' = nb_freect s" "nb_cntfree s' = nb_cntfree s" "sb_free s' = sb_free s" "sb_paddr s' = sb_paddr s"
  shows "akok p own s'"
  using assms(1) unfolding kok_def pool_def good_def sysbufs_def kbs_def by (simp add: assms(2-) cong: option.case_cong)

lemma q_set_nb [simp]:
  "nb_buf (q_set q x s) = nb_buf s" "nb_mem (q_set q x s) = nb_mem s" "nb_kb (q_set q x s) = nb_kb s"
  "nb_alloc (q_set q x s) = nb_alloc s" "nb_freel (q_set q x s) = nb_freel s" "nb_freect (q_set q x s) = nb_freect s"
  "nb_cntfree (q_set q x s) = nb_cntfree s" "sb_free (q_set q x s) = sb_free s" "sb_paddr (q_set q x s) = sb_paddr s"
  "q_get q (q_set q x s) = x"
  by (cases q; simp add: q_set_def q_get_def)+

lemma nb_bytes_shape:
  assumes "nb_mem s' = nb_mem s" "\<And>x. b_len (nb_buf s' x) = b_len (nb_buf s x) \<and> b_loc (nb_buf s' x) = b_loc (nb_buf s x)"
  shows "nb_bytes s' xs = nb_bytes s xs"
proof -
  have "cell s' x = cell s x" for x unfolding cell_def fb_bytes_def fbbyte_def assms(1) using assms(2) [of x] by simp
  then have "cell s' = cell s" by (rule ext)
  then show ?thesis by (simp add: nb_bytes_def)
qed

lemma q_get_more:
  assumes "nk.more s' = nk.more s"
  shows "q_get q s' = q_get q s"
  by (cases q) (simp_all add: q_get_def more_eq [OF assms])

lemma enqueue_ok:
  assumes k: "akok p own s" and m: "message s m ys" "m \<noteq> 0" and z: "message s (q_get q s) zs"
    and o: "set ys \<subseteq> own" "set zs \<subseteq> own" "set zs \<inter> set ys = {}"
  defines "s' \<equiv> enqueue q m s"
  shows "q_get q s' = m \<and> message s' m (zs @ ys) \<and> (\<forall>xs. nb_bytes s' xs = nb_bytes s xs) \<and> akok p own s' \<and>
    b_resv (nb_buf s' m) AND b_eom \<noteq> 0 \<and> (\<forall>x. b_len (nb_buf s' x) = b_len (nb_buf s x)) \<and>
    nk.more s' = nk.more (q_set q m s) \<and> qlink s' m = (if zs = [] then qlink s m else qlink s (q_get q s)) \<and>
    (\<forall>x. b_resv (nb_buf s' x) = (if x = m then b_resv (nb_buf s x) OR b_eom else b_resv (nb_buf s x))) \<and>
    same (own - insert m (set zs)) s s'"
proof -
  have r: "ring (qlink s) m ys" by (rule message_ring [OF m(2,1)])
  have my: "m \<in> set ys" by (rule ring_set_last [OF r])
  define s1 where "s1 = set_eom m s"
  have b1: "nb_buf s1 x = (if x = m then (nb_buf s m)\<lparr>b_resv := b_resv (nb_buf s m) OR b_eom\<rparr> else nb_buf s x)" for x
    by (simp add: s1_def set_eom_def set_resv_def upd_nb_def)
  have lx: "qlink s1 x = qlink s x" for x by (simp add: b1)
  then have l1: "qlink s1 = qlink s" by (intro ext)
  have v: "(w OR b_eom) AND b_memberof = w AND b_memberof" for w :: byte by (simp add: bit.conj_disj_distrib2)
  have k1: "akok p own s1 \<and> nk.more s1 = nk.more s"
    unfolding s1_def set_eom_def using alone.set_resv_ok [OF k, of m] my o(1) v by auto
  have e1: "b_resv (nb_buf s1 m) AND b_eom \<noteq> 0" by (simp add: b1 bit.conj_disj_distrib2)
  let ?old = "q_get q s"
  define s2 where "s2 = (if ?old \<noteq> 0 then set_qlink m (qlink s1 ?old) (set_qlink ?old (qlink s1 m) s1) else s1)"
  have s': "s' = q_set q m s2" unfolding s'_def enqueue_def Let_def s1_def [symmetric] s2_def
    using q_get_more [of s1 s] k1 by (simp only: split: if_split)
  have l: "linked (insert m (set zs)) s1 s2"
    using ring_set_last [OF message_ring [OF _ z]] linked_trans [OF linked_set_qlink linked_set_qlink] linked_refl
    unfolding s2_def by (auto intro!: linked_trans [OF linked_set_qlink linked_set_qlink])
  have k2: "akok p own s2" by (rule conjunct1 [OF alone.kok_quiet [OF conjunct1 [OF k1] quiet_linked [OF l]]])
      (use my o l in \<open>auto simp: linkedD\<close>)
  have rz: "msgq (qlink s2) m (zs @ ys)"
  proof (cases "zs = []")
    case True
    then show ?thesis using z r l1 by (simp add: s2_def ring_msgq)
  next
    case False
    then have old: "?old \<noteq> 0" using z message_zero(1) by metis
    have "qlink s2 = (qlink s)(?old := qlink s m, m := qlink s ?old)"
      using old unfolding s2_def by (simp only: if_True not_False_eq_True qlink_set_qlink l1 lx)
    then show ?thesis using ring_cat [OF message_ring [OF old z] r o(3)] ring_msgq by simp
  qed
  have len: "b_len (nb_buf s2 x) = b_len (nb_buf s x) \<and> b_loc (nb_buf s2 x) = b_loc (nb_buf s x)" for x
    using linkedD [OF l] by (simp add: b1)
  have mem: "nb_mem s2 = nb_mem s" using linkedD [OF l] by (simp add: s1_def set_eom_def set_resv_def upd_nb_def)
  have "message s' m (zs @ ys)" using rz message_len [OF m(1)] message_len [OF z] len by (auto simp: message_def s')
  moreover have "nb_bytes s' xs = nb_bytes s xs" for xs by (rule nb_bytes_shape) (simp_all add: s' mem len)
  moreover have "akok p own s'" by (rule akok_more [OF k2]) (simp_all add: s')
  moreover have "nk.more s' = nk.more (q_set q m s)"
  proof -
    have "nk.more s2 = nk.more s" using linkedD(1) [OF l] k1 by simp
    then show ?thesis unfolding s' by (cases q; cases s; cases s2) (simp_all add: q_set_def)
  qed
  moreover have "qlink s' m = (if zs = [] then qlink s m else qlink s ?old)"
    using z by (auto simp: s' s2_def set_qlink_buf lx)
  moreover have "same (own - insert m (set zs)) s s'"
    by (rule sameI) (use linkedD(16) [OF l] b1 in \<open>auto simp: s' mem\<close>)
  ultimately show ?thesis using e1 linkedD [OF l] len by (simp add: s' b1)
qed

end
