(* ===== verification/Ncp_Fifo.thy ===== *)
theory Ncp_Fifo
  imports Ncp_Queues
begin

text \<open>
  The daemon's two queues as an abstract data type: to_ncp appends a command to the queue that the
  processor priority selects, ncpread takes the first command of the priority queue, or of the
  regular queue when that is empty, and commands arrive whole and in order.
\<close>

section \<open>Commands in a queue\<close>








section \<open>The loop of ncpread\<close>

lemma q_set_q_set [simp]: "q_set q x (q_set q y s) = q_set q x s"
  by (cases q) (simp_all add: q_set_def)

lemma q_set_same [simp]: "q_set q (q_get q s) s = s"
  by (cases q) (simp_all add: q_set_def q_get_def)











section \<open>Both queues\<close>





section \<open>The queues as an abstract data type\<close>
















end
