(* ===== verification/Ncp_Unimap.thy ===== *)
theory Ncp_Unimap
  imports Ncp_Buf
begin

text \<open>
  The UNIBUS map of the PDP-11/70 (src/jnc_bbn-files: malloc and mfree of ken/malloc.c on ubmap of
  h/systm.h, mapalloc and mapfree of dmr/bio.c).  A device reaches memory through 31 registers of one
  8192 byte page each; the first 8 are the kernel's, the other 23 are given out in runs of
  successive registers, one run to a buffer header.

  \<open>um\<close> is the list of the free runs in front of the terminator.  Its array has 24 words, which is
  room for 11 runs and the terminator.  A run that would put the terminator behind the array is
  \<open>Wild\<close>.  Sizes and addresses stay below 32, so they are natural numbers here.
\<close>

definition MAPSIZE :: nat where "MAPSIZE = 31"
definition MAPLOW :: nat where "MAPLOW = 8"
definition UMROOM :: nat where "UMROOM = 11"

record useg =
  us_size :: nat
  us_addr :: nat

section \<open>malloc and mfree (ken/malloc.c)\<close>

text \<open>First fit; 0 is failure.\<close>

fun um_malloc :: "nat \<Rightarrow> useg list \<Rightarrow> nat \<times> useg list" where
  "um_malloc sz [] = (0, [])"
| "um_malloc sz (b # bs) =
     (if us_size b \<ge> sz then
        (us_addr b, if us_size b = sz then bs
                    else b\<lparr>us_addr := us_addr b + sz, us_size := us_size b - sz\<rparr> # bs)
      else let (a, bs) = um_malloc sz bs in (a, b # bs))"

text \<open>\<open>pre\<close> is the run in front of the place of the insertion, \<open>[]\<close> or one element.\<close>

fun um_insert :: "nat \<Rightarrow> nat \<Rightarrow> useg option \<Rightarrow> useg list \<Rightarrow> useg list" where
  "um_insert sz a pre (b # bs) =
     (if us_addr b \<le> a then (case pre of None \<Rightarrow> [] | Some p \<Rightarrow> [p]) @ um_insert sz a (Some b) bs
      else case pre of
        Some p \<Rightarrow>
          if us_addr p + us_size p = a then
            (if a + sz = us_addr b then p\<lparr>us_size := us_size p + sz + us_size b\<rparr> # bs
             else p\<lparr>us_size := us_size p + sz\<rparr> # b # bs)
          else if a + sz = us_addr b then p # b\<lparr>us_addr := us_addr b - sz, us_size := us_size b + sz\<rparr> # bs
          else if sz \<noteq> 0 then p # \<lparr>us_size = sz, us_addr = a\<rparr> # b # bs
          else p # b # bs
      | None \<Rightarrow>
          if a + sz = us_addr b then b\<lparr>us_addr := us_addr b - sz, us_size := us_size b + sz\<rparr> # bs
          else if sz \<noteq> 0 then \<lparr>us_size = sz, us_addr = a\<rparr> # b # bs
          else b # bs)"
| "um_insert sz a pre [] =
     (case pre of
        Some p \<Rightarrow> if us_addr p + us_size p = a then [p\<lparr>us_size := us_size p + sz\<rparr>]
                  else if sz \<noteq> 0 then [p, \<lparr>us_size = sz, us_addr = a\<rparr>] else [p]
      | None \<Rightarrow> if sz \<noteq> 0 then [\<lparr>us_size = sz, us_addr = a\<rparr>] else [])"

definition um_mfree :: "nat \<Rightarrow> nat \<Rightarrow> useg list \<Rightarrow> useg list" where
  "um_mfree sz a bs = um_insert sz a None bs"

section \<open>mapalloc and mapfree (dmr/bio.c)\<close>

text \<open>The words of a buffer header that the map uses; \<open>b_map\<close> is the bit B_MAP of b_flags.\<close>

record ubuf =
  b_map :: bool
  b_wcount :: u16
  b_addr :: u16
  b_xmem :: u16

text \<open>\<open>ub_bufp\<close> and \<open>ub_size\<close> are indexed by page - MAPLOW, buffer headers are numbered from 1.
  \<open>ub_reg\<close> is the pair of words of UBMAP for a page.\<close>

record uni =
  um :: "useg list"
  ub_bufp :: "nat \<Rightarrow> nat"
  ub_size :: "nat \<Rightarrow> nat"
  ub_wanted :: bool
  ub_reg :: "nat \<Rightarrow> u32"
  ub_buf :: "nat \<Rightarrow> ubuf"

definition upd_ubuf :: "nat \<Rightarrow> (ubuf \<Rightarrow> ubuf) \<Rightarrow> 'a uni_scheme \<Rightarrow> 'a uni_scheme" where
  "upd_ubuf bp f u = u\<lparr>ub_buf := (ub_buf u)(bp := f (ub_buf u bp))\<rparr>"

definition map_pages :: "u16 \<Rightarrow> nat" where
  "map_pages wc = unat (drop_bit 12 (- wc + 0xFFF) AND 7)"

text \<open>The loop that waits for pages; \<open>env\<close> is what the rest of the system does to the state during each sleep.\<close>

primrec map_wait :: "nat \<Rightarrow> ('a uni_scheme \<Rightarrow> 'a uni_scheme) list \<Rightarrow> 'a uni_scheme
    \<Rightarrow> stop + nat \<times> ('a uni_scheme \<Rightarrow> 'a uni_scheme) list \<times> 'a uni_scheme" where
  "map_wait sz [] u = (let (base, m) = um_malloc sz (um u) in
     if base = 0 then Inl Asleep else Inr (base, [], u\<lparr>um := m\<rparr>))"
| "map_wait sz (e # env) u = (let (base, m) = um_malloc sz (um u) in
     if base = 0 then map_wait sz env (e (u\<lparr>ub_wanted := True\<rparr>)) else Inr (base, e # env, u\<lparr>um := m\<rparr>))"

primrec map_regs :: "nat \<Rightarrow> u32 \<Rightarrow> nat \<Rightarrow> (nat \<Rightarrow> u32) \<Rightarrow> nat \<Rightarrow> u32" where
  "map_regs page a 0 r = r"
| "map_regs page a (Suc n) r = map_regs (Suc page) (a + 0x2000) n (r(page := a))"

definition mapalloc :: "nat \<Rightarrow> ('a uni_scheme \<Rightarrow> 'a uni_scheme) list \<Rightarrow> 'a uni_scheme
    \<Rightarrow> stop + ('a uni_scheme \<Rightarrow> 'a uni_scheme) list \<times> 'a uni_scheme" where
  "mapalloc bp env u =
     (let u = upd_ubuf bp (\<lambda>b. b\<lparr>b_map := True\<rparr>) u;
          sz = map_pages (b_wcount (ub_buf u bp))
      in kbind (map_wait sz env u) (\<lambda>(base, env, u).
         let b = ub_buf u bp;
             a = push_bit 16 (ucast (b_xmem b)) OR ucast (b_addr b);
             u = upd_ubuf bp (\<lambda>b. b\<lparr>b_xmem := of_nat (base div 8), b_addr := push_bit 13 (of_nat base)\<rparr>) u;
             i = base - MAPLOW
         in Inr (env, u\<lparr>ub_bufp := (ub_bufp u)(i := bp), ub_size := (ub_size u)(i := sz),
                        ub_reg := map_regs base a sz (ub_reg u)\<rparr>)))"

definition mapfree :: "nat \<Rightarrow> 'a uni_scheme \<Rightarrow> stop + 'a uni_scheme" where
  "mapfree bp u =
     (if \<not> b_map (ub_buf u bp) then Inr u else
      let u = upd_ubuf bp (\<lambda>b. b\<lparr>b_map := False\<rparr>) u in
      case List.find (\<lambda>i. ub_bufp u i = bp) [0..<MAPSIZE - MAPLOW] of
        None \<Rightarrow> Inl Wild
      | Some i \<Rightarrow>
          let m = um_mfree (ub_size u i) (i + MAPLOW) (um u) in
          if length m > UMROOM then Inl Wild
          else Inr (u\<lparr>ub_bufp := (ub_bufp u)(i := 0), um := m, ub_wanted := False\<rparr>))"

definition map_init :: "'a uni_scheme \<Rightarrow> 'a uni_scheme" where
  "map_init u = u\<lparr>um := um_mfree (MAPSIZE - MAPLOW) MAPLOW (um u)\<rparr>"

end
