(* ===== verification/Ncp_Unipages.thy ===== *)
theory Ncp_Unipages
  imports Ncp_Unimap
begin

text \<open>
  The pages of the UNIBUS map: every page from 8 to 30 is free or belongs to exactly one buffer
  header, mapalloc and mapfree keep this, and the list of free runs is only as long as there are
  holders.
\<close>

section \<open>The free list as a set of pages\<close>

definition us_pages :: "useg \<Rightarrow> nat set" where
  "us_pages b = {us_addr b..<us_addr b + us_size b}"

definition um_pages :: "useg list \<Rightarrow> nat set" where
  "um_pages bs = (\<Union>b\<in>set bs. us_pages b)"

lemma um_pages_simps [simp]: "um_pages [] = {}" "um_pages (b # bs) = us_pages b \<union> um_pages bs"
  by (simp_all add: um_pages_def)

text \<open>Runs in ascending order with something in between.\<close>

fun um_ok :: "nat \<Rightarrow> useg list \<Rightarrow> bool" where
  "um_ok lo [] = True"
| "um_ok lo (b # bs) \<longleftrightarrow> lo \<le> us_addr b \<and> 0 < us_size b \<and> us_addr b + us_size b \<le> MAPSIZE \<and>
     um_ok (Suc (us_addr b + us_size b)) bs"

lemma um_ok_mono: "um_ok lo bs \<Longrightarrow> lo' \<le> lo \<Longrightarrow> um_ok lo' bs"
  by (cases bs) auto

lemma um_ok_range: "um_ok lo bs \<Longrightarrow> x \<in> um_pages bs \<Longrightarrow> lo \<le> x \<and> x < MAPSIZE"
  by (induction lo bs rule: um_ok.induct) (fastforce simp: us_pages_def)+

lemma um_malloc_fails:
  assumes "um_ok lo bs" "0 < lo" "um_malloc sz bs = (0, bs')"
  shows "bs' = bs \<and> (\<forall>b\<in>set bs. us_size b < sz)"
  using assms
proof (induction lo bs arbitrary: bs' rule: um_ok.induct)
  case (2 lo b bs)
  then obtain m where m: "us_size b < sz" "um_malloc sz bs = (0, m)" "bs' = b # m"
    by (auto split: if_splits prod.splits)
  then show ?case using "2.IH" [OF _ _ m(2)] "2.prems" by simp
qed simp

lemma um_malloc_ok:
  assumes "um_ok lo bs" "0 < sz" "um_malloc sz bs = (a, bs')" "a \<noteq> 0"
  shows "um_ok lo bs' \<and> {a..<a + sz} \<subseteq> um_pages bs \<and> um_pages bs' = um_pages bs - {a..<a + sz}"
  using assms
proof (induction lo bs arbitrary: bs' rule: um_ok.induct)
  case (2 lo b bs)
  have out: "us_pages b \<inter> um_pages bs = {}"
    using um_ok_range [of "Suc (us_addr b + us_size b)" bs] "2.prems"(1) by (fastforce simp: us_pages_def)
  show ?case
  proof (cases "sz \<le> us_size b")
    case True
    then have a: "a = us_addr b" using "2.prems"(3) by (simp split: if_splits)
    have sub: "{a..<a + sz} \<subseteq> us_pages b" using True a by (auto simp: us_pages_def)
    show ?thesis
    proof (cases "us_size b = sz")
      case eq: True
      then have "bs' = bs" using "2.prems"(3) by simp
      moreover have "{a..<a + sz} = us_pages b" using eq a by (simp add: us_pages_def)
      moreover have "um_ok lo bs" using "2.prems"(1) um_ok_mono [of "Suc (us_addr b + us_size b)" bs lo] by simp
      ultimately show ?thesis using out by auto
    next
      case False
      then have "bs' = b\<lparr>us_addr := us_addr b + sz, us_size := us_size b - sz\<rparr> # bs" using True "2.prems"(3) by auto
      moreover have "{a..<a + sz} \<inter> um_pages bs = {}" using out sub by blast
      moreover have "us_pages (b\<lparr>us_addr := us_addr b + sz, us_size := us_size b - sz\<rparr>) = us_pages b - {a..<a + sz}"
        using True a by (auto simp: us_pages_def)
      ultimately show ?thesis using "2.prems"(1) True False sub by auto
    qed
  next
    case False
    then obtain m where m: "um_malloc sz bs = (a, m)" "bs' = b # m"
      using "2.prems"(3) by (auto split: prod.splits)
    note ih = "2.IH" [OF _ "2.prems"(2) m(1) "2.prems"(4)]
    have i: "um_ok (Suc (us_addr b + us_size b)) m \<and> {a..<a + sz} \<subseteq> um_pages bs \<and> um_pages m = um_pages bs - {a..<a + sz}"
      by (rule ih) (use "2.prems"(1) in simp)
    then have "us_pages b \<inter> {a..<a + sz} = {}" using out by blast
    then show ?thesis using i m(2) "2.prems"(1) by auto
  qed
qed simp

text \<open>What the insertion of the run \<open>a, ..., a + sz - 1\<close> has to give.\<close>

definition um_put :: "nat \<Rightarrow> nat \<Rightarrow> nat \<Rightarrow> nat set \<Rightarrow> useg list \<Rightarrow> bool" where
  "um_put lo sz a A bs \<longleftrightarrow> um_ok lo bs \<and> um_pages bs = A \<union> {a..<a + sz} \<and>
     (\<exists>b\<in>set bs. us_addr b \<le> a \<and> a + sz \<le> us_addr b + us_size b)"

lemma um_put_cons:
  assumes "um_put (Suc (us_addr p + us_size p)) sz a A bs" "lo \<le> us_addr p" "0 < us_size p" "us_addr p + us_size p \<le> MAPSIZE"
  shows "um_put lo sz a (us_pages p \<union> A) (p # bs)"
  using assms by (auto simp: um_put_def)

lemma um_insert_ok:
  assumes "um_ok lo bs" "0 < sz" "lo \<le> a" "a + sz \<le> MAPSIZE" "{a..<a + sz} \<inter> um_pages bs = {}"
  shows "um_put lo sz a (um_pages bs) (um_insert sz a None bs)"
    and "0 < us_size p \<Longrightarrow> us_addr p + us_size p \<le> a \<Longrightarrow> um_ok (Suc (us_addr p + us_size p)) bs \<Longrightarrow>
      um_put (us_addr p) sz a (us_pages p \<union> um_pages bs) (um_insert sz a (Some p) bs)"
proof -
  have "um_put lo sz a (um_pages bs) (um_insert sz a None bs) \<and>
    (\<forall>p. 0 < us_size p \<longrightarrow> us_addr p + us_size p \<le> a \<longrightarrow> um_ok (Suc (us_addr p + us_size p)) bs \<longrightarrow>
      um_put (us_addr p) sz a (us_pages p \<union> um_pages bs) (um_insert sz a (Some p) bs))"
    using assms
  proof (induction lo bs rule: um_ok.induct)
    case (1 lo)
    then show ?case by (auto simp: um_put_def us_pages_def)
  next
    case (2 lo b bs)
    have ab: "us_addr b \<le> a \<Longrightarrow> us_addr b + us_size b \<le> a"
    proof (rule ccontr)
      assume h: "us_addr b \<le> a" "\<not> us_addr b + us_size b \<le> a"
      then have "a \<in> um_pages (b # bs)" "a \<in> {a..<a + sz}" using "2.prems"(2) by (simp_all add: us_pages_def)
      then show False using "2.prems"(5) by blast
    qed
    have ba: "\<not> us_addr b \<le> a \<Longrightarrow> a + sz \<le> us_addr b"
    proof (rule ccontr)
      assume h: "\<not> us_addr b \<le> a" "\<not> a + sz \<le> us_addr b"
      then have "us_addr b \<in> um_pages (b # bs)" "us_addr b \<in> {a..<a + sz}" using "2.prems"(1) by (simp_all add: us_pages_def)
      then show False using "2.prems"(5) by blast
    qed
    show ?case
    proof (cases "us_addr b \<le> a")
      case True
      have "um_put (us_addr b) sz a (us_pages b \<union> um_pages bs) (um_insert sz a (Some b) bs)"
      proof (cases "us_addr b + us_size b = a")
        case eq: True
        show ?thesis
        proof (cases bs)
          case Nil
          then show ?thesis using eq "2.prems" by (auto simp: um_put_def us_pages_def)
        next
          case (Cons c cs)
          have "a < us_addr c" using Cons eq "2.prems"(1) by simp
          moreover have "a + sz \<le> us_addr c"
          proof (rule ccontr)
            assume h: "\<not> a + sz \<le> us_addr c"
            then have "us_addr c \<in> um_pages (b # bs)" "us_addr c \<in> {a..<a + sz}"
              using Cons "2.prems"(1) \<open>a < us_addr c\<close> by (simp_all add: us_pages_def)
            then show False using "2.prems"(5) by blast
          qed
          ultimately show ?thesis using Cons eq "2.prems" by (auto simp: um_put_def us_pages_def um_ok_mono)
        qed
      next
        case False
        then have lt: "Suc (us_addr b + us_size b) \<le> a" using ab True by simp
        have "{a..<a + sz} \<inter> um_pages bs = {}" using "2.prems"(5) by auto
        then show ?thesis using "2.IH" lt "2.prems" ab True by auto
      qed
      then show ?thesis using True ab "2.prems" by (auto simp: um_put_def intro: um_ok_mono um_put_cons)
    next
      case False
      then show ?thesis using ba "2.prems" by (auto simp: um_put_def us_pages_def elim: um_ok_mono)
    qed
  qed
  then show "um_put lo sz a (um_pages bs) (um_insert sz a None bs)"
    and "0 < us_size p \<Longrightarrow> us_addr p + us_size p \<le> a \<Longrightarrow> um_ok (Suc (us_addr p + us_size p)) bs \<Longrightarrow>
      um_put (us_addr p) sz a (us_pages p \<union> um_pages bs) (um_insert sz a (Some p) bs)" by auto
qed

section \<open>Pages and their holders\<close>

definition ub_run :: "'a uni_scheme \<Rightarrow> nat \<Rightarrow> nat set" where
  "ub_run u i = (if ub_bufp u i = 0 then {} else {i + MAPLOW..<i + MAPLOW + ub_size u i})"

text \<open>\<open>W\<close> are the buffers whose mapalloc waits: they have B_MAP set and hold nothing.\<close>

definition ub_ok :: "nat set \<Rightarrow> 'a uni_scheme \<Rightarrow> bool" where
  "ub_ok W u \<longleftrightarrow> um_ok MAPLOW (um u) \<and> um_pages (um u) \<union> (\<Union>i. ub_run u i) = {MAPLOW..<MAPSIZE} \<and>
     (\<forall>i. ub_bufp u i \<noteq> 0 \<longrightarrow> 0 < ub_size u i \<and> b_map (ub_buf u (ub_bufp u i)) \<and> ub_bufp u i \<notin> W) \<and>
     (\<forall>i. ub_run u i \<inter> um_pages (um u) = {}) \<and>
     (\<forall>i j. i \<noteq> j \<longrightarrow> ub_run u i \<inter> ub_run u j = {} \<and> (ub_bufp u i \<noteq> 0 \<longrightarrow> ub_bufp u i \<noteq> ub_bufp u j)) \<and>
     (\<forall>bp. bp \<noteq> 0 \<longrightarrow> bp \<notin> W \<longrightarrow> b_map (ub_buf u bp) \<longrightarrow> (\<exists>i. ub_bufp u i = bp))"

lemma ub_okD:
  assumes "ub_ok W u"
  shows "um_ok MAPLOW (um u)" "um_pages (um u) \<union> (\<Union>i. ub_run u i) = {MAPLOW..<MAPSIZE}"
    "ub_bufp u i \<noteq> 0 \<Longrightarrow> 0 < ub_size u i" "ub_bufp u i \<noteq> 0 \<Longrightarrow> b_map (ub_buf u (ub_bufp u i))"
    "ub_bufp u i \<noteq> 0 \<Longrightarrow> ub_bufp u i \<notin> W" "ub_run u i \<inter> um_pages (um u) = {}"
    "i \<noteq> j \<Longrightarrow> ub_run u i \<inter> ub_run u j = {}" "i \<noteq> j \<Longrightarrow> ub_bufp u i \<noteq> 0 \<Longrightarrow> ub_bufp u i \<noteq> ub_bufp u j"
    "bp \<noteq> 0 \<Longrightarrow> bp \<notin> W \<Longrightarrow> b_map (ub_buf u bp) \<Longrightarrow> \<exists>i. ub_bufp u i = bp"
  using assms unfolding ub_ok_def by blast+

lemma ub_ok_holder:
  assumes "ub_ok W u" "ub_bufp u i \<noteq> 0"
  shows "i + MAPLOW + ub_size u i \<le> MAPSIZE" "i < MAPSIZE - MAPLOW"
proof -
  have n: "0 < ub_size u i" using ub_okD(3) [OF assms] .
  have "ub_run u i \<subseteq> {MAPLOW..<MAPSIZE}" using ub_okD(2) [OF assms(1)] by blast
  then have "i + MAPLOW + ub_size u i - 1 \<in> {MAPLOW..<MAPSIZE}" using assms(2) n by (auto simp: ub_run_def)
  then show "i + MAPLOW + ub_size u i \<le> MAPSIZE" "i < MAPSIZE - MAPLOW" using n by auto
qed

text \<open>A page that follows a free run is the first one of a holder.\<close>

lemma after_free_run:
  assumes ok: "ub_ok W u" and b: "b \<in> set (um u)" and e: "us_addr b + us_size b < MAPSIZE"
    and out: "us_addr b + us_size b \<notin> um_pages (um u)"
  shows "ub_bufp u (us_addr b + us_size b - MAPLOW) \<noteq> 0 \<and> MAPLOW \<le> us_addr b"
proof -
  let ?p = "us_addr b + us_size b"
  have s: "0 < us_size b \<and> MAPLOW \<le> us_addr b"
    using ub_okD(1) [OF ok] b
  proof (induction "um u" arbitrary: u)
    case Nil
    then show ?case by simp
  next
    case (Cons c cs)
    show ?case
    proof (cases "b = c")
      case True
      then show ?thesis using Cons.prems(1) Cons.hyps(2) [symmetric] by simp
    next
      case False
      have "um_ok MAPLOW cs" using Cons.prems(1) Cons.hyps(2) [symmetric] um_ok_mono by auto
      then show ?thesis using Cons.hyps(1) [of "u\<lparr>um := cs\<rparr>"] Cons.prems(2) Cons.hyps(2) [symmetric] False by simp
    qed
  qed
  have "?p \<in> {MAPLOW..<MAPSIZE}" using s e by simp
  then obtain i where i: "?p \<in> ub_run u i" using ub_okD(2) [OF ok] out by blast
  have "?p - 1 \<in> um_pages (um u)" using b s by (auto simp: um_pages_def us_pages_def intro!: bexI [of _ b])
  then have "?p - 1 \<notin> ub_run u i" using ub_okD(6) [OF ok, of i] by blast
  then have "i = ?p - MAPLOW" using i s by (auto simp: ub_run_def split: if_splits)
  then show ?thesis using i s by (auto simp: ub_run_def split: if_splits)
qed

abbreviation us_end :: "useg \<Rightarrow> nat" where
  "us_end b \<equiv> us_addr b + us_size b"

lemma um_ok_ge: "um_ok lo bs \<Longrightarrow> b \<in> set bs \<Longrightarrow> lo \<le> us_addr b \<and> 0 < us_size b \<and> us_end b \<le> MAPSIZE"
  by (induction lo bs rule: um_ok.induct) fastforce+

lemma um_ok_end: "um_ok lo bs \<Longrightarrow> b \<in> set bs \<Longrightarrow> us_end b \<notin> um_pages bs"
proof (induction lo bs rule: um_ok.induct)
  case (2 lo c cs)
  have t: "um_ok (Suc (us_end c)) cs" using "2.prems"(1) by simp
  have out: "x \<notin> um_pages cs" if "x \<le> us_end c" for x using um_ok_range [OF t] that by fastforce
  show ?case
  proof (cases "b = c")
    case True
    then show ?thesis using out [of "us_end c"] by (simp add: us_pages_def)
  next
    case False
    then have b: "b \<in> set cs" using "2.prems"(2) by simp
    then have "us_end c < us_end b" using um_ok_ge [OF t b] by simp
    then show ?thesis using "2.IH" [OF t b] by (simp add: us_pages_def)
  qed
qed simp

lemma um_ok_ends: "um_ok lo bs \<Longrightarrow> distinct (map us_end bs)"
proof (induction lo bs rule: um_ok.induct)
  case (2 lo c cs)
  then have "um_ok (Suc (us_end c)) cs" by simp
  then show ?case using "2.IH" um_ok_ge [of "Suc (us_end c)" cs] by force
qed simp

lemma um_ok_butlast: "um_ok lo bs \<Longrightarrow> b \<in> set (butlast bs) \<Longrightarrow> us_end b < MAPSIZE"
proof (induction lo bs rule: um_ok.induct)
  case (2 lo c cs)
  then have t: "um_ok (Suc (us_end c)) cs" by simp
  show ?case
  proof (cases "b = c \<and> cs \<noteq> []")
    case True
    then show ?thesis using um_ok_ge [OF t, of "hd cs"] by simp
  next
    case False
    then show ?thesis using "2.IH" [OF t] "2.prems"(2) by (auto split: if_splits)
  qed
qed simp

definition ub_holders :: "'a uni_scheme \<Rightarrow> nat set" where
  "ub_holders u = {i. ub_bufp u i \<noteq> 0}"

lemma ub_holders_finite: "ub_ok W u \<Longrightarrow> finite (ub_holders u)"
  using ub_ok_holder(2) by (auto simp: ub_holders_def intro: finite_subset [of _ "{..<MAPSIZE - MAPLOW}"])

lemma free_runs_bound:
  assumes ok: "ub_ok W u"
  shows "length (um u) \<le> Suc (card (ub_holders u))"
proof -
  let ?f = "\<lambda>b. us_end b - MAPLOW"
  let ?B = "set (butlast (um u))"
  have m: "um_ok MAPLOW (um u)" by (rule ub_okD(1) [OF ok])
  have sub: "?B \<subseteq> set (um u)" by (auto dest: in_set_butlastD)
  have "?f ` ?B \<subseteq> ub_holders u"
    using after_free_run [OF ok] sub um_ok_butlast [OF m] um_ok_end [OF m] by (fastforce simp: ub_holders_def)
  moreover have "inj_on ?f ?B"
  proof (rule inj_onI)
    fix x y assume h: "x \<in> ?B" "y \<in> ?B" "?f x = ?f y"
    then have "x \<in> set (um u)" "y \<in> set (um u)" using sub by auto
    then have "us_end x = us_end y" using um_ok_ge [OF m, of x] um_ok_ge [OF m, of y] h(3) by linarith
    then show "x = y" using um_ok_ends [OF m] h sub by (auto simp: distinct_map dest: inj_onD)
  qed
  ultimately have "card ?B \<le> card (ub_holders u)" using card_inj_on_le [OF _ _ ub_holders_finite [OF ok]] by blast
  moreover have "distinct (butlast (um u))" using um_ok_ends [OF m] by (simp add: distinct_map distinct_butlast)
  ultimately show ?thesis by (simp add: distinct_card)
qed

section \<open>mapfree\<close>

lemma mapfree_pages:
  assumes ok: "ub_ok W u" and bp: "bp \<noteq> 0" "bp \<notin> W" "b_map (ub_buf u bp)"
  obtains i where "ub_bufp u i = bp" "List.find (\<lambda>i. ub_bufp u i = bp) [0..<MAPSIZE - MAPLOW] = Some i"
    "um_put MAPLOW (ub_size u i) (i + MAPLOW) (um_pages (um u)) (um_mfree (ub_size u i) (i + MAPLOW) (um u))"
proof -
  obtain i where i: "ub_bufp u i = bp" using ub_okD(9) [OF ok bp] by blast
  then have b: "ub_bufp u i \<noteq> 0" using bp(1) by simp
  have lt: "i < MAPSIZE - MAPLOW" by (rule ub_ok_holder(2) [OF ok b])
  have f: "List.find (\<lambda>i. ub_bufp u i = bp) [0..<MAPSIZE - MAPLOW] = Some i"
  proof -
    have "List.find (\<lambda>i. ub_bufp u i = bp) [0..<MAPSIZE - MAPLOW] \<noteq> None"
      using i lt by (auto simp: find_None_iff)
    then obtain j where j: "List.find (\<lambda>i. ub_bufp u i = bp) [0..<MAPSIZE - MAPLOW] = Some j" "ub_bufp u j = bp"
      by (auto simp: find_Some_iff)
    then have "j = i" using ub_okD(8) [OF ok, of i j] i b by auto
    then show ?thesis using j by simp
  qed
  have "{i + MAPLOW..<i + MAPLOW + ub_size u i} \<inter> um_pages (um u) = {}"
    using ub_okD(6) [OF ok, of i] b by (simp add: ub_run_def)
  then have "um_put MAPLOW (ub_size u i) (i + MAPLOW) (um_pages (um u)) (um_mfree (ub_size u i) (i + MAPLOW) (um u))"
    unfolding um_mfree_def
    using um_insert_ok(1) [OF ub_okD(1) [OF ok], of "ub_size u i" "i + MAPLOW"] ub_okD(3) [OF ok b] ub_ok_holder(1) [OF ok b] by simp
  then show ?thesis using that i f by blast
qed

lemma mapfree_step:
  assumes ok: "ub_ok W u" and bp: "bp \<noteq> 0" "bp \<notin> W" "b_map (ub_buf u bp)" and i: "ub_bufp u i = bp"
    and put: "um_put MAPLOW (ub_size u i) (i + MAPLOW) (um_pages (um u)) m"
  shows "ub_ok W ((upd_ubuf bp (\<lambda>b. b\<lparr>b_map := False\<rparr>) u)\<lparr>ub_bufp := (ub_bufp u)(i := 0), um := m, ub_wanted := w\<rparr>)"
    (is "ub_ok W ?u")
proof -
  have run: "ub_run ?u j = (if j = i then {} else ub_run u j)" for j by (simp add: ub_run_def upd_ubuf_def)
  have old: "ub_run u i = {i + MAPLOW..<i + MAPLOW + ub_size u i}" using i bp(1) by (simp add: ub_run_def)
  have m: "um_ok MAPLOW m" "um_pages m = um_pages (um u) \<union> ub_run u i" using put old by (auto simp: um_put_def)
  have um: "um ?u = m" "ub_bufp ?u = (ub_bufp u)(i := 0)" "ub_size ?u = ub_size u"
    "ub_buf ?u = (ub_buf u)(bp := (ub_buf u bp)\<lparr>b_map := False\<rparr>)" by (simp_all add: upd_ubuf_def)
  have uniq: "ub_bufp u j = bp \<Longrightarrow> j = i" for j using ub_okD(8) [OF ok, of i j] i bp(1) by auto
  show ?thesis unfolding ub_ok_def
  proof (intro conjI allI impI)
    show "um_ok MAPLOW (um ?u)" using m um by simp
    have "(\<Union>j. ub_run u j) = ub_run u i \<union> (\<Union>j. ub_run ?u j)" by (auto simp: run split: if_splits)
    then show "um_pages (um ?u) \<union> (\<Union>j. ub_run ?u j) = {MAPLOW..<MAPSIZE}"
      using ub_okD(2) [OF ok] m(2) um by auto
  next
    fix j assume j: "ub_bufp ?u j \<noteq> 0"
    then have "j \<noteq> i" "ub_bufp u j \<noteq> 0" using um by (auto split: if_splits)
    then show "0 < ub_size ?u j" "b_map (ub_buf ?u (ub_bufp ?u j))" "ub_bufp ?u j \<notin> W"
      using ub_okD(3,4,5) [OF ok] uniq um by auto
  next
    fix j show "ub_run ?u j \<inter> um_pages (um ?u) = {}"
      using ub_okD(6) [OF ok, of j] ub_okD(7) [OF ok, of j i] um m(2) by (auto simp: run)
  next
    fix j k :: nat assume "j \<noteq> k"
    then show "ub_run ?u j \<inter> ub_run ?u k = {}" using ub_okD(7) [OF ok] by (simp add: run)
    assume "ub_bufp ?u j \<noteq> 0"
    then show "ub_bufp ?u j \<noteq> ub_bufp ?u k" using ub_okD(8) [OF ok \<open>j \<noteq> k\<close>] um by auto
  next
    fix b assume b: "b \<noteq> 0" "b \<notin> W" "b_map (ub_buf ?u b)"
    then have "b \<noteq> bp" using um by (auto split: if_splits)
    then obtain j where "ub_bufp u j = b" using ub_okD(9) [OF ok b(1,2)] b(3) um by auto
    then show "\<exists>j. ub_bufp ?u j = b" using i \<open>b \<noteq> bp\<close> um by auto
  qed
qed

lemma mapfree_cases:
  assumes ok: "ub_ok W u" and bp: "bp \<noteq> 0" "bp \<notin> W" "b_map (ub_buf u bp)"
  obtains i m where "ub_bufp u i = bp" "um_put MAPLOW (ub_size u i) (i + MAPLOW) (um_pages (um u)) m"
    "mapfree bp u = (if length m > UMROOM then Inl Wild else
       Inr ((upd_ubuf bp (\<lambda>b. b\<lparr>b_map := False\<rparr>) u)\<lparr>ub_bufp := (ub_bufp u)(i := 0), um := m, ub_wanted := False\<rparr>))"
proof -
  obtain i where i: "ub_bufp u i = bp" "List.find (\<lambda>i. ub_bufp u i = bp) [0..<MAPSIZE - MAPLOW] = Some i"
    "um_put MAPLOW (ub_size u i) (i + MAPLOW) (um_pages (um u)) (um_mfree (ub_size u i) (i + MAPLOW) (um u))"
    by (rule mapfree_pages [OF assms])
  have u: "ub_bufp (upd_ubuf bp f u) = ub_bufp u" "ub_size (upd_ubuf bp f u) = ub_size u" "um (upd_ubuf bp f u) = um u" for f
    by (simp_all add: upd_ubuf_def)
  have "mapfree bp u = (if length (um_mfree (ub_size u i) (i + MAPLOW) (um u)) > UMROOM then Inl Wild else
       Inr ((upd_ubuf bp (\<lambda>b. b\<lparr>b_map := False\<rparr>) u)\<lparr>ub_bufp := (ub_bufp u)(i := 0),
         um := um_mfree (ub_size u i) (i + MAPLOW) (um u), ub_wanted := False\<rparr>))"
    using bp(3) i(2) by (simp add: mapfree_def u Let_def)
  then show ?thesis using that i by blast
qed

lemma mapfree_room:
  assumes ok: "ub_ok W u" and bp: "bp \<noteq> 0" "bp \<notin> W" "b_map (ub_buf u bp)" and c: "card (ub_holders u) \<le> UMROOM"
  obtains u' where "mapfree bp u = Inr u'"
proof -
  obtain i m where i: "ub_bufp u i = bp" "um_put MAPLOW (ub_size u i) (i + MAPLOW) (um_pages (um u)) m"
    "mapfree bp u = (if length m > UMROOM then Inl Wild else
       Inr ((upd_ubuf bp (\<lambda>b. b\<lparr>b_map := False\<rparr>) u)\<lparr>ub_bufp := (ub_bufp u)(i := 0), um := m, ub_wanted := False\<rparr>))"
    by (rule mapfree_cases [OF ok bp])
  let ?u = "(upd_ubuf bp (\<lambda>b. b\<lparr>b_map := False\<rparr>) u)\<lparr>ub_bufp := (ub_bufp u)(i := 0), um := m, ub_wanted := False\<rparr>"
  have ok': "ub_ok W ?u" by (rule mapfree_step [OF ok bp i(1,2)])
  have "ub_holders ?u = ub_holders u - {i}" by (auto simp: ub_holders_def)
  moreover have "i \<in> ub_holders u" using i(1) bp(1) by (simp add: ub_holders_def)
  ultimately have "card (ub_holders ?u) < card (ub_holders u)"
    using ub_holders_finite [OF ok] by (metis card_Diff1_less)
  then have "length m \<le> UMROOM" using free_runs_bound [OF ok'] c by simp
  then show ?thesis using that i(3) by (metis not_le)
qed

section \<open>mapalloc\<close>

text \<open>What the rest of the system may do while buffer \<open>bp\<close> waits.\<close>

definition map_rely :: "nat set \<Rightarrow> nat \<Rightarrow> ('a uni_scheme \<Rightarrow> 'a uni_scheme) list \<Rightarrow> bool" where
  "map_rely W bp env \<longleftrightarrow> (\<forall>e\<in>set env. \<forall>u. ub_ok W u \<longrightarrow> ub_ok W (e u) \<and> ub_buf (e u) bp = ub_buf u bp)"

lemma ub_ok_wanted: "ub_ok W (u\<lparr>ub_wanted := w\<rparr>) = ub_ok W u"
  by (simp add: ub_ok_def ub_run_def)

lemma map_wait_ok:
  assumes "map_wait sz env u = Inr (base, env', u')" "ub_ok W u" "map_rely W bp env"
  shows "\<exists>v m. ub_ok W v \<and> um_malloc sz (um v) = (base, m) \<and> base \<noteq> 0 \<and> u' = v\<lparr>um := m\<rparr> \<and> ub_buf v bp = ub_buf u bp"
  using assms
proof (induction env arbitrary: u)
  case Nil
  then show ?case by (auto split: prod.splits if_splits)
next
  case (Cons e env)
  show ?case
  proof (cases "fst (um_malloc sz (um u)) = 0")
    case False
    then show ?thesis using Cons.prems by (auto split: prod.splits if_splits)
  next
    case True
    then have w: "map_wait sz env (e (u\<lparr>ub_wanted := True\<rparr>)) = Inr (base, env', u')"
      using Cons.prems(1) by (auto split: prod.splits if_splits)
    have ok: "ub_ok W (e (u\<lparr>ub_wanted := True\<rparr>)) \<and> ub_buf (e (u\<lparr>ub_wanted := True\<rparr>)) bp = ub_buf u bp"
      using Cons.prems(2,3) ub_ok_wanted [of W True u] unfolding map_rely_def by fastforce
    have "map_rely W bp env" using Cons.prems(3) by (simp add: map_rely_def)
    then show ?thesis using Cons.IH [OF w] ok by simp
  qed
qed

lemma map_regs_eq:
  "map_regs page a n r p = (if page \<le> p \<and> p < page + n then a + 0x2000 * of_nat (p - page) else r p)"
proof (induction n arbitrary: page a r)
  case (Suc n)
  show ?case
  proof (cases "p = page")
    case False
    then show ?thesis using Suc by (auto simp: of_nat_diff algebra_simps)
  qed (use Suc in simp)
qed auto

lemma mapalloc_step:
  assumes ok: "ub_ok (insert bp W) v" and bp: "bp \<noteq> 0" "bp \<notin> W" "b_map (ub_buf v bp)" and n: "0 < n"
    and m: "um_malloc n (um v) = (base, m)" "base \<noteq> 0" and g: "\<And>b. b_map (g b) = b_map b"
  shows "ub_ok W ((upd_ubuf bp g (v\<lparr>um := m\<rparr>))\<lparr>ub_bufp := (ub_bufp v)(base - MAPLOW := bp),
      ub_size := (ub_size v)(base - MAPLOW := n), ub_reg := r\<rparr>)" (is "ub_ok W ?u")
    and "MAPLOW \<le> base \<and> base + n \<le> MAPSIZE"
proof -
  let ?i = "base - MAPLOW"
  have a: "um_ok MAPLOW m" "{base..<base + n} \<subseteq> um_pages (um v)" "um_pages m = um_pages (um v) - {base..<base + n}"
    using um_malloc_ok [OF ub_okD(1) [OF ok] n m] by auto
  have b: "MAPLOW \<le> base \<and> base + n \<le> MAPSIZE"
  proof -
    have "base \<in> um_pages (um v)" "base + n - 1 \<in> um_pages (um v)" using a(2) n by (auto simp: subset_iff)
    then show ?thesis using um_ok_range [OF ub_okD(1) [OF ok], of base] um_ok_range [OF ub_okD(1) [OF ok], of "base + n - 1"] n by arith
  qed
  then show "MAPLOW \<le> base \<and> base + n \<le> MAPSIZE" .
  have free: "ub_bufp v ?i = 0"
  proof (rule ccontr)
    assume h: "ub_bufp v ?i \<noteq> 0"
    then have "base \<in> ub_run v ?i" using ub_okD(3) [OF ok h] b by (simp add: ub_run_def)
    moreover have "base \<in> um_pages (um v)" using a(2) n by auto
    ultimately show False using ub_okD(6) [OF ok, of ?i] by blast
  qed
  have new: "{base..<base + n} \<inter> ub_run v j = {}" for j using a(2) ub_okD(6) [OF ok, of j] by blast
  have um: "um ?u = m" "ub_bufp ?u = (ub_bufp v)(?i := bp)" "ub_size ?u = (ub_size v)(?i := n)"
    "\<And>x. b_map (ub_buf ?u x) = b_map (ub_buf v x)" by (simp_all add: upd_ubuf_def g)
  have run: "ub_run ?u j = (if j = ?i then {base..<base + n} else ub_run v j)" for j
    using b bp(1) by (simp add: ub_run_def um)
  have notbp: "ub_bufp v j \<noteq> 0 \<Longrightarrow> ub_bufp v j \<noteq> bp" for j using ub_okD(5) [OF ok, of j] by auto
  show "ub_ok W ?u" unfolding ub_ok_def
  proof (intro conjI allI impI)
    show "um_ok MAPLOW (um ?u)" using a um by simp
    have r: "ub_run v ?i = {}" using free by (simp add: ub_run_def)
    have "(\<Union>j. ub_run ?u j) = {base..<base + n} \<union> (\<Union>j. ub_run v j)"
    proof (intro equalityI subsetI)
      fix x assume "x \<in> {base..<base + n} \<union> (\<Union>j. ub_run v j)"
      then consider "x \<in> ub_run ?u ?i" | j where "x \<in> ub_run v j" "j \<noteq> ?i" using r run by auto
      then show "x \<in> (\<Union>j. ub_run ?u j)" by cases (auto simp: run)
    qed (auto simp: run split: if_splits)
    moreover have "um_pages m \<union> {base..<base + n} = um_pages (um v)" using a(2,3) by blast
    ultimately have "um_pages m \<union> (\<Union>j. ub_run ?u j) = um_pages (um v) \<union> (\<Union>j. ub_run v j)" by (simp add: Un_assoc [symmetric])
    then show "um_pages (um ?u) \<union> (\<Union>j. ub_run ?u j) = {MAPLOW..<MAPSIZE}" unfolding um(1) ub_okD(2) [OF ok] .
  next
    fix j assume j: "ub_bufp ?u j \<noteq> 0"
    have h: "j \<noteq> ?i \<Longrightarrow> ub_bufp v j \<noteq> 0" using j unfolding um(2) by (simp split: if_splits)
    show "0 < ub_size ?u j" unfolding um(3) using h ub_okD(3) [OF ok, of j] n by simp
    show "b_map (ub_buf ?u (ub_bufp ?u j))" unfolding um(2,4) using h ub_okD(4) [OF ok, of j] bp by simp
    show "ub_bufp ?u j \<notin> W" unfolding um(2) using h ub_okD(5) [OF ok, of j] bp by simp
  next
    fix j show "ub_run ?u j \<inter> um_pages (um ?u) = {}"
      using ub_okD(6) [OF ok, of j] um a by (auto simp: run)
  next
    fix j k :: nat assume jk: "j \<noteq> k"
    then show "ub_run ?u j \<inter> ub_run ?u k = {}"
      using ub_okD(7) [OF ok, of j k] new [of k] new [of j] by (auto simp: run Int_commute)
    assume "ub_bufp ?u j \<noteq> 0"
    then show "ub_bufp ?u j \<noteq> ub_bufp ?u k"
      using ub_okD(8) [OF ok jk] um notbp [of j] notbp [of k] bp(1) jk by (auto split: if_splits)
  next
    fix b assume h: "b \<noteq> 0" "b \<notin> W" "b_map (ub_buf ?u b)"
    show "\<exists>j. ub_bufp ?u j = b"
    proof (cases "b = bp")
      case True
      then show ?thesis using um by (metis fun_upd_same)
    next
      case False
      then obtain j where "ub_bufp v j = b" using ub_okD(9) [OF ok h(1)] h um by auto
      then show ?thesis using um free h(1) by (metis fun_upd_other)
    qed
  qed
qed

section \<open>What a device reaches\<close>

text \<open>The address of the buffer on the bus and the memory behind an address of the bus.\<close>

definition bus_addr :: "ubuf \<Rightarrow> nat" where
  "bus_addr b = unat (b_xmem b) * 65536 + unat (b_addr b)"

definition dma :: "'a uni_scheme \<Rightarrow> nat \<Rightarrow> u32" where
  "dma u a = ub_reg u (a div 8192) + of_nat (a mod 8192)"

definition phys_addr :: "ubuf \<Rightarrow> u32" where
  "phys_addr b = push_bit 16 (ucast (b_xmem b)) OR ucast (b_addr b)"

text \<open>The number of words of a transfer; b_wcount is its complement.\<close>

definition words :: "ubuf \<Rightarrow> nat" where
  "words b = unat (- b_wcount b)"

lemma and_7: "(n :: nat) AND 7 = n mod 8"
  using take_bit_eq_mask [of 3 n] by (simp add: take_bit_eq_mod mask_eq_exp_minus_1)

lemma map_pages_words:
  assumes "words b \<le> 28672"
  shows "map_pages (b_wcount b) = (words b + 4095) div 4096"
proof -
  define w where "w = - b_wcount b"
  have w: "unat w \<le> 28672" using assms by (simp add: words_def w_def)
  have s: "unat (w + 0xFFF) = unat w + 4095"
    using w by (simp add: unat_word_ariths)
  have "unat (drop_bit 12 (w + 0xFFF) AND 7) = (unat w + 4095) div 4096 mod 8"
    using s by (simp add: drop_bit_eq_div unsigned_and_eq and_7 unat_div)
  then show ?thesis using w by (simp add: map_pages_def words_def w_def)
qed

lemma map_pages_too_long:
  assumes "28672 < words b" "words b \<le> 32768"
  shows "map_pages (b_wcount b) = 0"
proof -
  define w where "w = - b_wcount b"
  have w: "28672 < unat w" "unat w \<le> 32768" using assms by (simp_all add: words_def w_def)
  have s: "unat (w + 0xFFF) = unat w + 4095" using w by (simp add: unat_word_ariths)
  have "(unat w + 4095) div 4096 = 8" using w by simp
  then have "unat (drop_bit 12 (w + 0xFFF) AND 7) = 0"
    using s by (simp add: drop_bit_eq_div unsigned_and_eq and_7 unat_div)
  then show ?thesis by (simp add: map_pages_def w_def)
qed

lemma bus_addr_base:
  assumes "base < 32" "b_xmem b = of_nat (base div 8)" "b_addr b = push_bit 13 (of_nat base)"
  shows "bus_addr b = base * 8192"
proof -
  have x: "unat (of_nat (base div 8) :: u16) = base div 8"
    using assms(1) by (simp add: unat_of_nat take_bit_eq_mod)
  have "(push_bit 13 (of_nat base) :: u16) = of_nat (base * 8192)" by (simp add: push_bit_eq_mult mult.commute)
  then have "unat (push_bit 13 (of_nat base) :: u16) = base * 8192 mod 65536"
    by (simp only: unat_of_nat take_bit_eq_mod) simp
  also have "\<dots> = (base mod 8) * 8192" unfolding mult_mod_left [of base 8 8192] by (rule arg_cong [of _ _ "\<lambda>x. base * 8192 mod x"]) simp
  finally have "bus_addr b = base div 8 * 65536 + base mod 8 * 8192" using x assms by (simp add: bus_addr_def)
  then show ?thesis using div_mult_mod_eq [of base 8] by linarith
qed

lemma ub_ok_wait:
  assumes "ub_ok W u" "\<not> b_map (ub_buf u bp)"
  shows "ub_ok (insert bp W) (upd_ubuf bp (\<lambda>b. b\<lparr>b_map := True\<rparr>) u)"
proof -
  let ?u = "upd_ubuf bp (\<lambda>b. b\<lparr>b_map := True\<rparr>) u"
  have u: "um ?u = um u" "ub_bufp ?u = ub_bufp u" "ub_size ?u = ub_size u" "ub_run ?u = ub_run u"
    "\<And>x. b_map (ub_buf ?u x) \<longleftrightarrow> x = bp \<or> b_map (ub_buf u x)" by (auto simp: upd_ubuf_def ub_run_def fun_eq_iff)
  have "ub_bufp u i \<noteq> 0 \<Longrightarrow> ub_bufp u i \<noteq> bp" for i using ub_okD(4) [OF assms(1), of i] assms(2) by auto
  then show ?thesis using assms(1) unfolding ub_ok_def u by auto
qed

lemma mapalloc_ok:
  assumes ok: "ub_ok {} u" and bp: "bp \<noteq> 0" "\<not> b_map (ub_buf u bp)" and n: "0 < map_pages (b_wcount (ub_buf u bp))"
    and env: "map_rely {bp} bp env" and r: "mapalloc bp env u = Inr (env', u')"
  defines "n \<equiv> map_pages (b_wcount (ub_buf u bp))" and "a \<equiv> phys_addr (ub_buf u bp)"
  obtains base where "ub_ok {} u'" "MAPLOW \<le> base" "base + n \<le> MAPSIZE" "bus_addr (ub_buf u' bp) = base * 8192"
    "ub_bufp u' (base - MAPLOW) = bp" "ub_run u' (base - MAPLOW) = {base..<base + n}"
    "\<forall>p\<in>{base..<base + n}. ub_reg u' p = a + 0x2000 * of_nat (p - base)"
proof -
  let ?u = "upd_ubuf bp (\<lambda>b. b\<lparr>b_map := True\<rparr>) u"
  let ?g = "\<lambda>base. \<lambda>b :: ubuf. b\<lparr>b_xmem := of_nat (base div 8), b_addr := push_bit 13 (of_nat base)\<rparr>"
  have ok1: "ub_ok {bp} ?u" using ub_ok_wait [OF ok bp(2)] by simp
  have b1: "ub_buf ?u bp = (ub_buf u bp)\<lparr>b_map := True\<rparr>" by (simp add: upd_ubuf_def)
  obtain base env1 v1 where w: "map_wait n env ?u = Inr (base, env1, v1)"
    and u': "u' = (upd_ubuf bp (?g base) v1)\<lparr>ub_bufp := (ub_bufp v1)(base - MAPLOW := bp),
      ub_size := (ub_size v1)(base - MAPLOW := n), ub_reg := map_regs base (phys_addr (ub_buf v1 bp)) n (ub_reg v1)\<rparr>"
    using r b1 unfolding mapalloc_def Let_def kbind_eq_Inr phys_addr_def n_def
    by (auto simp: upd_ubuf_def)
  obtain v m where v: "ub_ok {bp} v" "um_malloc n (um v) = (base, m)" "base \<noteq> 0" "v1 = v\<lparr>um := m\<rparr>" "ub_buf v bp = ub_buf ?u bp"
    using map_wait_ok [OF w ok1 env] by blast
  have bm: "b_map (ub_buf v bp)" using v(5) b1 by simp
  note st = mapalloc_step(1) [OF v(1) bp(1) _ bm n [folded n_def] v(2,3), of "?g base" "map_regs base (phys_addr (ub_buf v1 bp)) n (ub_reg v1)"]
  note st2 = mapalloc_step(2) [OF v(1) bp(1) _ bm n [folded n_def] v(2,3)]
  have ok': "ub_ok {} u'" using st unfolding u' v(4) by simp
  have rng: "MAPLOW \<le> base" "base + n \<le> MAPSIZE" using st2 [of "\<lambda>b. b"] by auto
  have "ub_buf u' bp = ?g base (ub_buf v bp)" by (simp add: u' v(4) upd_ubuf_def)
  then have ba: "bus_addr (ub_buf u' bp) = base * 8192"
    by (intro bus_addr_base) (use rng in \<open>simp_all add: MAPSIZE_def\<close>)
  have pa: "phys_addr (ub_buf v1 bp) = a" using v(4,5) b1 by (simp add: phys_addr_def a_def)
  have "ub_bufp u' (base - MAPLOW) = bp" by (simp add: u')
  moreover have "ub_run u' (base - MAPLOW) = {base..<base + n}" using rng bp(1) by (simp add: u' ub_run_def)
  moreover have "\<forall>p\<in>{base..<base + n}. ub_reg u' p = a + 0x2000 * of_nat (p - base)"
    by (simp add: u' map_regs_eq pa)
  ultimately show ?thesis using that ok' rng ba by blast
qed

lemma um_malloc_fits:
  assumes "um_ok MAPLOW bs" "b \<in> set bs" "sz \<le> us_size b"
  shows "fst (um_malloc sz bs) \<noteq> 0"
proof
  assume "fst (um_malloc sz bs) = 0"
  then have "um_malloc sz bs = (0, snd (um_malloc sz bs))" by (simp add: prod_eq_iff)
  then have "us_size b < sz" using um_malloc_fails [OF assms(1)] assms(2) by (simp add: MAPLOW_def)
  then show False using assms(3) by simp
qed

lemma mapalloc_now:
  assumes ok: "ub_ok {} u" and bp: "bp \<noteq> 0" "\<not> b_map (ub_buf u bp)" and n: "0 < map_pages (b_wcount (ub_buf u bp))"
    and f: "fst (um_malloc (map_pages (b_wcount (ub_buf u bp))) (um u)) \<noteq> 0"
  obtains i u' where "mapalloc bp [] u = Inr ([], u')" "ub_ok {} u'" "ub_bufp u i = 0" "ub_bufp u' = (ub_bufp u)(i := bp)"
    "ub_size u' = (ub_size u)(i := map_pages (b_wcount (ub_buf u bp)))" "b_map (ub_buf u' bp)" "uni.more u' = uni.more u"
proof -
  define n where "n = map_pages (b_wcount (ub_buf u bp))"
  let ?u = "upd_ubuf bp (\<lambda>b. b\<lparr>b_map := True\<rparr>) u"
  let ?g = "\<lambda>base. \<lambda>b :: ubuf. b\<lparr>b_xmem := of_nat (base div 8), b_addr := push_bit 13 (of_nat base)\<rparr>"
  have ok1: "ub_ok {bp} ?u" using ub_ok_wait [OF ok bp(2)] by simp
  obtain base m where m: "um_malloc n (um ?u) = (base, m)" "base \<noteq> 0"
    using f by (cases "um_malloc n (um u)") (simp add: upd_ubuf_def n_def)
  have w: "map_wait n [] ?u = Inr (base, [], ?u\<lparr>um := m\<rparr>)" using m by simp
  define u' where "u' = (upd_ubuf bp (?g base) (?u\<lparr>um := m\<rparr>))\<lparr>ub_bufp := (ub_bufp ?u)(base - MAPLOW := bp),
      ub_size := (ub_size ?u)(base - MAPLOW := n), ub_reg := map_regs base (phys_addr (ub_buf ?u bp)) n (ub_reg ?u)\<rparr>"
  have wc: "b_wcount (ub_buf ?u bp) = b_wcount (ub_buf u bp)" by (simp add: upd_ubuf_def)
  have "mapalloc bp [] u = Inr ([], u')"
    unfolding mapalloc_def Let_def wc n_def [symmetric] w kbind_simps prod.case u'_def phys_addr_def
    by (simp add: upd_ubuf_def)
  moreover have bm: "b_map (ub_buf ?u bp)" by (simp add: upd_ubuf_def)
  note st = mapalloc_step [OF ok1 bp(1) _ bm n [folded n_def] m]
  have "ub_ok {} u'" unfolding u'_def by (rule st(1)) simp_all
  moreover have "ub_bufp u (base - MAPLOW) = 0"
  proof (rule ccontr)
    assume h: "ub_bufp u (base - MAPLOW) \<noteq> 0"
    have b: "MAPLOW \<le> base" using st(2) [of "\<lambda>b. b"] by simp
    have "base \<in> ub_run u (base - MAPLOW)" using ub_okD(3) [OF ok h] h b by (simp add: ub_run_def)
    moreover have "base \<in> um_pages (um u)"
      using um_malloc_ok [OF ub_okD(1) [OF ok1] n [folded n_def] m] n n_def by (auto simp: upd_ubuf_def)
    ultimately show False using ub_okD(6) [OF ok, of "base - MAPLOW"] by blast
  qed
  ultimately show ?thesis using that [of u' "base - MAPLOW"] by (simp add: u'_def upd_ubuf_def n_def)
qed

section \<open>Properties\<close>

lemma mapalloc_pages:
  assumes "ub_ok {} u" "bp \<noteq> 0" "\<not> b_map (ub_buf u bp)" "0 < words (ub_buf u bp)" "words (ub_buf u bp) \<le> 28672"
    and "map_rely {bp} bp env" "mapalloc bp env u = Inr (env', u')"
  defines "n \<equiv> (words (ub_buf u bp) + 4095) div 4096"
  shows "ub_ok {} u' \<and> (\<exists>base. bus_addr (ub_buf u' bp) = base * 8192 \<and> ub_bufp u' (base - MAPLOW) = bp \<and>
    ub_run u' (base - MAPLOW) = {base..<base + n} \<and>
    (\<forall>p\<in>{base..<base + n}. ub_reg u' p = phys_addr (ub_buf u bp) + 0x2000 * of_nat (p - base)))"
proof -
  let ?n = "map_pages (b_wcount (ub_buf u bp))"
  have n: "?n = n" unfolding n_def by (rule map_pages_words [OF assms(5)])
  have pos: "0 < ?n" using n n_def assms(4) by simp
  obtain base where "ub_ok {} u'" "MAPLOW \<le> base" "base + ?n \<le> MAPSIZE" "bus_addr (ub_buf u' bp) = base * 8192"
    "ub_bufp u' (base - MAPLOW) = bp" "ub_run u' (base - MAPLOW) = {base..<base + ?n}"
    "\<forall>p\<in>{base..<base + ?n}. ub_reg u' p = phys_addr (ub_buf u bp) + 0x2000 * of_nat (p - base)"
    by (rule mapalloc_ok [OF assms(1-3) pos assms(6,7)])
  then show ?thesis unfolding n by blast
qed

text \<open>C33: mapalloc keeps every page with one holder, and a transfer of up to 28672 words that uses the bus
  address left in the buffer header reaches exactly the memory the header named, in pages that belong
  to this buffer.\<close>

theorem mapalloc_dma:
  assumes "ub_ok {} u" "bp \<noteq> 0" "\<not> b_map (ub_buf u bp)" "0 < words (ub_buf u bp)" "words (ub_buf u bp) \<le> 28672"
    and "map_rely {bp} bp env" "mapalloc bp env u = Inr (env', u')" "d < 2 * words (ub_buf u bp)"
  shows "ub_ok {} u' \<and> dma u' (bus_addr (ub_buf u' bp) + d) = phys_addr (ub_buf u bp) + of_nat d \<and>
    (\<exists>i. ub_bufp u' i = bp \<and> (bus_addr (ub_buf u' bp) + d) div 8192 \<in> ub_run u' i)"
proof -
  let ?n = "(words (ub_buf u bp) + 4095) div 4096"
  obtain base where b: "ub_ok {} u'" "bus_addr (ub_buf u' bp) = base * 8192"
    "ub_bufp u' (base - MAPLOW) = bp" "ub_run u' (base - MAPLOW) = {base..<base + ?n}"
    "\<forall>p\<in>{base..<base + ?n}. ub_reg u' p = phys_addr (ub_buf u bp) + 0x2000 * of_nat (p - base)"
    using mapalloc_pages [OF assms(1-7)] by blast
  let ?q = "d div 8192"
  have q: "(base * 8192 + d) div 8192 = base + ?q" "(base * 8192 + d) mod 8192 = d mod 8192" by simp_all
  have "?q < ?n" using assms(8) by (simp add: less_mult_imp_div_less)
  then have r: "ub_reg u' (base + ?q) = phys_addr (ub_buf u bp) + 0x2000 * of_nat ?q" and m: "base + ?q \<in> {base..<base + ?n}"
    using bspec [OF b(5), of "base + ?q"] by simp_all
  have "0x2000 * of_nat ?q + of_nat (d mod 8192) = (of_nat (8192 * ?q + d mod 8192) :: u32)"
    by (simp only: of_nat_add of_nat_mult of_nat_numeral)
  then have "0x2000 * of_nat ?q + of_nat (d mod 8192) = (of_nat d :: u32)" by (simp only: mult_div_mod_eq)
  then have "dma u' (bus_addr (ub_buf u' bp) + d) = phys_addr (ub_buf u bp) + of_nat d"
    unfolding dma_def b(2) q r by (simp only: add.assoc)
  moreover have "(bus_addr (ub_buf u' bp) + d) div 8192 \<in> ub_run u' (base - MAPLOW)" unfolding b(2,4) q by (rule m)
  ultimately show ?thesis using b(1,3) by blast
qed

text \<open>C34: mapfree gives the pages of a buffer back and leaves those of all others alone, and it cannot overrun the
  map as long as there are no more than eleven holders; a transfer of the same size can be set up again
  at once, without waiting.\<close>

theorem mapfree_releases:
  assumes "ub_ok {} u" "bp \<noteq> 0" "b_map (ub_buf u bp)" "card (ub_holders u) \<le> UMROOM"
  shows "\<exists>i u'. ub_bufp u i = bp \<and> mapfree bp u = Inr u' \<and> ub_ok {} u' \<and> \<not> b_map (ub_buf u' bp) \<and>
    ub_bufp u' = (ub_bufp u)(i := 0) \<and> ub_size u' = ub_size u \<and> ub_reg u' = ub_reg u \<and>
    um_pages (um u') = um_pages (um u) \<union> ub_run u i \<and> fst (um_malloc (ub_size u i) (um u')) \<noteq> 0"
proof -
  have w: "bp \<notin> {}" by simp
  obtain i m where i: "ub_bufp u i = bp" "um_put MAPLOW (ub_size u i) (i + MAPLOW) (um_pages (um u)) m"
    "mapfree bp u = (if length m > UMROOM then Inl Wild else
       Inr ((upd_ubuf bp (\<lambda>b. b\<lparr>b_map := False\<rparr>) u)\<lparr>ub_bufp := (ub_bufp u)(i := 0), um := m, ub_wanted := False\<rparr>))"
    by (rule mapfree_cases [OF assms(1,2) w assms(3)])
  let ?u = "(upd_ubuf bp (\<lambda>b. b\<lparr>b_map := False\<rparr>) u)\<lparr>ub_bufp := (ub_bufp u)(i := 0), um := m, ub_wanted := False\<rparr>"
  obtain u' where u': "mapfree bp u = Inr u'" by (rule mapfree_room [OF assms(1,2) w assms(3,4)])
  then have e: "u' = ?u" using i(3) by (simp split: if_splits)
  obtain b where b: "b \<in> set m" "i + MAPLOW + ub_size u i \<le> us_end b" "us_addr b \<le> i + MAPLOW" "um_ok MAPLOW m"
    using i(2) by (auto simp: um_put_def)
  have "ub_run u i = {i + MAPLOW..<i + MAPLOW + ub_size u i}" using i(1) assms(2) by (simp add: ub_run_def)
  then have "um_pages m = um_pages (um u) \<union> ub_run u i" using i(2) by (simp add: um_put_def)
  moreover have "fst (um_malloc (ub_size u i) m) \<noteq> 0" by (rule um_malloc_fits [OF b(4,1)]) (use b(2,3) in simp)
  moreover have "ub_ok {} u'" unfolding e by (rule mapfree_step [OF assms(1,2) w assms(3) i(1,2)])
  ultimately show ?thesis using i(1) u' by (auto simp: e upd_ubuf_def intro!: exI [of _ i])
qed

text \<open>C35: a transfer of more than 28672 words (a swap of more than 56K bytes) is given no page at all: the
  count of pages is cut to three bits.  The bus address it gets is that of a run that stays free, so
  that the next transfer is given the same pages.\<close>

theorem mapalloc_too_long:
  assumes "ub_ok {} u" "bp \<noteq> 0" "28672 < words (ub_buf u bp)" "words (ub_buf u bp) \<le> 32768" "mapalloc bp [] u = Inr (env', u')"
  shows "um u' = um u \<and> ub_reg u' = ub_reg u \<and> bus_addr (ub_buf u' bp) div 8192 \<in> um_pages (um u')"
proof -
  have z: "map_pages (b_wcount (ub_buf u bp)) = 0" by (rule map_pages_too_long [OF assms(3,4)])
  have ok: "um_ok MAPLOW (um u)" by (rule ub_okD(1) [OF assms(1)])
  show ?thesis
  proof (cases "um u")
    case Nil
    then show ?thesis using assms(5) by (simp add: mapalloc_def upd_ubuf_def kbind_eq_Inr z)
  next
    case (Cons b bs)
    have b: "MAPLOW \<le> us_addr b" "0 < us_size b" "us_end b \<le> MAPSIZE" using ok Cons by auto
    have m: "um_malloc 0 (um u) = (us_addr b, um u)" using Cons b by simp
    have u': "um u' = um u" "ub_reg u' = ub_reg u" "b_xmem (ub_buf u' bp) = of_nat (us_addr b div 8)"
      "b_addr (ub_buf u' bp) = push_bit 13 (of_nat (us_addr b))"
      using assms(5) b(1) by (auto simp: mapalloc_def upd_ubuf_def kbind_eq_Inr z m Let_def MAPLOW_def split: if_splits)
    have "bus_addr (ub_buf u' bp) = us_addr b * 8192"
      by (rule bus_addr_base [OF _ u'(3,4)]) (use b in \<open>simp add: MAPSIZE_def\<close>)
    then show ?thesis using u' Cons b by (simp add: us_pages_def)
  qed
qed

section \<open>Samples\<close>

text \<open>The map after the start of the system; every buffer header names \<open>n\<close> words at 1000 octal.\<close>

definition uni0 :: "u16 \<Rightarrow> uni" where
  "uni0 n = map_init \<lparr>um = [], ub_bufp = \<lambda>_. 0, ub_size = \<lambda>_. 0, ub_wanted = False, ub_reg = \<lambda>_. 0,
     ub_buf = \<lambda>_. \<lparr>b_map = False, b_wcount = - n, b_addr = 0x200, b_xmem = 1\<rparr>\<rparr>"

lemma uni0_eq: "uni0 n = \<lparr>um = [\<lparr>us_size = 23, us_addr = 8\<rparr>], ub_bufp = \<lambda>_. 0, ub_size = \<lambda>_. 0, ub_wanted = False,
    ub_reg = \<lambda>_. 0, ub_buf = \<lambda>_. \<lparr>b_map = False, b_wcount = - n, b_addr = 0x200, b_xmem = 1\<rparr>\<rparr>"
  by (simp add: uni0_def map_init_def um_mfree_def MAPSIZE_def MAPLOW_def)

lemma uni0_ok: "ub_ok {} (uni0 n)"
  by (simp add: uni0_eq ub_ok_def ub_run_def us_pages_def MAPLOW_def MAPSIZE_def)

lemma uni0_alloc: "case mapalloc 1 [] (uni0 6000) of Inl _ \<Rightarrow> False | Inr _ \<Rightarrow> True"
  "case mapalloc 1 [] (uni0 30000) of Inl _ \<Rightarrow> False | Inr _ \<Rightarrow> True"
  by code_simp+

lemma mapalloc_dma_witness: "case mapalloc 1 [] (uni0 6000) of Inl _ \<Rightarrow> False
  | Inr (_, u) \<Rightarrow> dma u (bus_addr (ub_buf u 1) + 9000) = 0x10200 + 9000"
proof -
  obtain e u where m: "mapalloc 1 [] (uni0 6000) = Inr (e, u)"
    using uni0_alloc(1) by (auto split: sum.splits)
  have "dma u (bus_addr (ub_buf u 1) + 9000) = phys_addr (ub_buf (uni0 6000) 1) + of_nat 9000"
    using mapalloc_dma [OF uni0_ok _ _ _ _ _ m, of 9000] by (simp add: uni0_eq words_def map_rely_def)
  moreover have "phys_addr (ub_buf (uni0 6000) 1) = 0x10200" by (simp add: uni0_eq phys_addr_def push_bit_eq_mult)
  ultimately show ?thesis using m by simp
qed

lemma mapalloc_too_long_witness: "case mapalloc 1 [] (uni0 30000) of Inl _ \<Rightarrow> False
  | Inr (_, u) \<Rightarrow> um u = [\<lparr>us_size = 23, us_addr = 8\<rparr>] \<and> bus_addr (ub_buf u 1) div 8192 \<in> um_pages (um u)"
proof -
  obtain e u where m: "mapalloc 1 [] (uni0 30000) = Inr (e, u)"
    using uni0_alloc(2) by (auto split: sum.splits)
  have "um (uni0 30000) = [\<lparr>us_size = 23, us_addr = 8\<rparr>]" by (simp add: uni0_eq)
  moreover have "um u = um (uni0 30000) \<and> ub_reg u = ub_reg (uni0 30000) \<and> bus_addr (ub_buf u 1) div 8192 \<in> um_pages (um u)"
    by (rule mapalloc_too_long [OF uni0_ok _ _ _ m]) (simp_all add: uni0_eq words_def)
  ultimately have "um u = [\<lparr>us_size = 23, us_addr = 8\<rparr>] \<and> bus_addr (ub_buf u 1) div 8192 \<in> um_pages (um u)" by metis
  then show ?thesis unfolding m sum.case prod.case .
qed

text \<open>A state in which buffer 1 holds pages 8 and 9.\<close>

definition uni1 :: uni where
  "uni1 = (case mapalloc 1 [] (uni0 6000) of Inr (_, u) \<Rightarrow> u | Inl _ \<Rightarrow> uni0 0)"

lemma uni1_ok: "ub_ok {} uni1"
proof -
  obtain e u where m: "mapalloc 1 [] (uni0 6000) = Inr (e, u)"
    using uni0_alloc(1) by (auto split: sum.splits)
  have "ub_ok {} u" by (rule conjunct1 [OF mapalloc_pages [OF uni0_ok _ _ _ _ _ m]]) (simp_all add: uni0_eq map_rely_def words_def)
  then show ?thesis using m by (simp add: uni1_def)
qed

lemma mapfree_releases_witness: "\<exists>u'. mapfree 1 uni1 = Inr u' \<and> ub_ok {} u' \<and> ub_bufp u' 0 = 0"
proof -
  have b: "b_map (ub_buf uni1 1)" by code_simp
  have h: "ub_bufp uni1 = (\<lambda>i. if i = 0 then 1 else 0)"
    by (auto simp: uni1_def uni0_eq mapalloc_def upd_ubuf_def kbind_def MAPLOW_def map_pages_def Let_def fun_eq_iff)
  then have "ub_holders uni1 = {0}" by (auto simp: ub_holders_def)
  then have "card (ub_holders uni1) \<le> UMROOM" by (simp add: UMROOM_def)
  then show ?thesis using mapfree_releases [OF uni1_ok _ b] h by (auto split: if_splits)
qed

text \<open>Twelve holders are enough to overrun the map: the pages 8, 10, ..., 28 are free and each of the
  others belongs to a buffer of its own.\<close>

definition uni12 :: uni where
  "uni12 = \<lparr>um = map (\<lambda>k. \<lparr>us_size = 1, us_addr = 8 + 2 * k\<rparr>) [0..<11],
     ub_bufp = \<lambda>i. if i < 23 \<and> (odd i \<or> i = 22) then i + 1 else 0, ub_size = \<lambda>_. 1, ub_wanted = False,
     ub_reg = \<lambda>_. 0, ub_buf = \<lambda>b. \<lparr>b_map = b \<noteq> 0 \<and> b \<le> 23 \<and> (even b \<or> b = 23), b_wcount = - 32, b_addr = 0, b_xmem = 1\<rparr>\<rparr>"

lemma uni12_pages: "um_pages (um uni12) = (\<lambda>k. 8 + 2 * k) ` {..<11}"
proof -
  have "us_pages \<lparr>us_size = 1, us_addr = 8 + 2 * k\<rparr> = {8 + 2 * k}" for k by (auto simp: us_pages_def)
  then show ?thesis by (auto simp: uni12_def um_pages_def)
qed

lemma uni12_run: "ub_run uni12 i = (if i < 23 \<and> (odd i \<or> i = 22) then {i + 8} else {})"
  by (auto simp: uni12_def ub_run_def MAPLOW_def)

lemma ubmap_overrun: "ub_ok {} uni12 \<and> mapfree 23 uni12 = Inl Wild"
proof -
  have "um_ok MAPLOW (um uni12)" by (simp add: uni12_def MAPLOW_def MAPSIZE_def upt_rec numeral_eq_Suc)
  moreover have "um_pages (um uni12) \<union> (\<Union>i. ub_run uni12 i) = {MAPLOW..<MAPSIZE}"
    unfolding uni12_pages uni12_run MAPLOW_def MAPSIZE_def
  proof (intro equalityI subsetI)
    fix x :: nat assume x: "x \<in> {8..<31}"
    show "x \<in> (\<lambda>k. 8 + 2 * k) ` {..<11} \<union> (\<Union>i. if i < 23 \<and> (odd i \<or> i = 22) then {i + 8} else {})"
    proof (cases "even x \<and> x \<noteq> 30")
      case True
      then have "x = 8 + 2 * ((x - 8) div 2) \<and> (x - 8) div 2 < 11" using x by auto
      then show ?thesis by blast
    next
      case False
      then have "x \<in> (if x - 8 < 23 \<and> (odd (x - 8) \<or> x - 8 = 22) then {x - 8 + 8} else {})" using x by auto
      then show ?thesis by blast
    qed
  qed (auto split: if_splits)
  moreover have "ub_run uni12 i \<inter> um_pages (um uni12) = {}" for i
    unfolding uni12_pages uni12_run by auto
  moreover have "\<exists>i. ub_bufp uni12 i = bp" if "bp \<noteq> 0" "b_map (ub_buf uni12 bp)" for bp
    by (rule exI [of _ "bp - 1"]) (use that in \<open>auto simp: uni12_def\<close>)
  moreover have "ub_bufp uni12 i = (if i < 23 \<and> (odd i \<or> i = 22) then i + 1 else 0)" "ub_size uni12 i = 1"
    "b_map (ub_buf uni12 b) \<longleftrightarrow> b \<noteq> 0 \<and> b \<le> 23 \<and> (even b \<or> b = 23)" for i b by (simp_all add: uni12_def)
  ultimately have "ub_ok {} uni12" unfolding ub_ok_def uni12_run by (auto split: if_splits)
  moreover have "case mapfree 23 uni12 of Inl Wild \<Rightarrow> True | _ \<Rightarrow> False" by code_simp
  ultimately show ?thesis by (auto split: sum.splits stop.splits)
qed

end
