(* ===== verification/Ncp_Driver.thy ===== *)
theory Ncp_Driver
  imports Ncp_Unipages
begin

text \<open>
  The registers of the IMP interface (src/jnc_bbn-files/ncpkernel/imp11a.c, BUFMOD), below the level of
  Ncp_Imp, where a read or a write of the interface is one event.  A store into a status register is
  an event; the value a routine finds in a register is the one the field has, which the interface
  changes between the steps.  Buffer header 1 is i11a_ibuf, header 2 is i11a_obuf.

  \<open>env\<close> is what happens to the state during the sleeps to come.  An interrupt routine must not sleep;
  it is run with an empty list.
\<close>

definition ierror :: u16 where "ierror = 0x8000"
definition iendmsg :: u16 where "iendmsg = 0x800"
definition impnotrdy :: u16 where "impnotrdy = 0x400"
definition irdyerr :: u16 where "irdyerr = 0x200"
definition iienab :: u16 where "iienab = 0x40"
definition igo :: u16 where "igo = 9"
definition hmasrdy :: u16 where "hmasrdy = 4"
definition irst :: u16 where "irst = 2"
definition oienab :: u16 where "oienab = 0x40"
definition oendmsg :: u16 where "oendmsg = 4"
definition orst :: u16 where "orst = 2"
definition ogo :: u16 where "ogo = 1"
definition TRYING :: u16 where "TRYING = 3"

text \<open>Events: a store into istat or ostat, the input process woken with the error flag, set_HMR started
  again by the clock, the process that waits for it woken, a message printed.\<close>

datatype dev_event = Istat u16 | Ostat u16 | WakeImp bool | Timeout nat | WakeHMR | Said string

record i11a = uni +
  istat :: u16
  iwcnt :: u16
  spi :: u16
  ostat :: u16
  owcnt :: u16
  spo :: u16
  HMR_interval :: nat
  imp_trying :: u16
  impi_adr :: u16
  impi_offset :: u16
  impi_wcnt :: u16
  st_endmsg :: u16
  st_error :: u16
  st_inpwcnt :: u16
  d_ev :: "dev_event list"

type_synonym denv = "(i11a \<Rightarrow> i11a) list"

definition dev_emit :: "dev_event \<Rightarrow> i11a \<Rightarrow> i11a" where
  "dev_emit e d = d\<lparr>d_ev := d_ev d @ [e]\<rparr>"

definition set_istat :: "u16 \<Rightarrow> i11a \<Rightarrow> i11a" where
  "set_istat w d = dev_emit (Istat w) (d\<lparr>istat := w\<rparr>)"

definition set_ostat :: "u16 \<Rightarrow> i11a \<Rightarrow> i11a" where
  "set_ostat w d = dev_emit (Ostat w) (d\<lparr>ostat := w\<rparr>)"

definition xmem_of :: "u16 \<Rightarrow> u16" where
  "xmem_of ad = drop_bit 10 ad AND 0x3F"

text \<open>A read into the block \<open>ad\<close> of 64 bytes; sz is the count of bytes.\<close>

definition i11a_read :: "u16 \<Rightarrow> u16 \<Rightarrow> u16 \<Rightarrow> denv \<Rightarrow> i11a \<Rightarrow> stop + denv \<times> i11a" where
  "i11a_read ad offset sz env d =
     (let n = signed_drop_bit 1 sz;
          d = upd_ubuf 1 (\<lambda>b. b\<lparr>b_addr := push_bit 6 ad OR offset, b_xmem := xmem_of ad\<rparr>) d
      in kbind (if xmem_of ad \<noteq> 0 then mapalloc 1 env (upd_ubuf 1 (\<lambda>b. b\<lparr>b_wcount := - n\<rparr>) d) else Inr (env, d))
         (\<lambda>(env, d).
            let d = d\<lparr>impi_adr := ad, impi_offset := offset, impi_wcnt := n, spi := b_addr (ub_buf d 1), iwcnt := - n\<rparr>
            in Inr (env, set_istat (hmasrdy + iienab + push_bit 4 (b_xmem (ub_buf d 1)) + igo) d)))"

text \<open>Output of a buffer of \<open>len\<close> bytes in the block \<open>loc\<close>, the last of its message if \<open>eom\<close>.\<close>

definition i11a_write :: "u16 \<Rightarrow> u16 \<Rightarrow> bool \<Rightarrow> denv \<Rightarrow> i11a \<Rightarrow> stop + denv \<times> i11a" where
  "i11a_write loc len eom env d =
     (let d = upd_ubuf 2 (\<lambda>b. b\<lparr>b_xmem := xmem_of loc, b_addr := push_bit 6 loc,
                b_wcount := - signed_drop_bit 1 (len + 1)\<rparr>) d
      in kbind (mapalloc 2 env d) (\<lambda>(env, d).
           let b = ub_buf d 2 in
           Inr (env, set_ostat ((if eom then oendmsg else 0) + oienab + push_bit 4 (b_xmem b) + ogo)
                       (d\<lparr>spo := b_addr b, owcnt := b_wcount b\<rparr>))))"

text \<open>What i11a_iint notes of the status.\<close>

definition note_status :: "i11a \<Rightarrow> i11a" where
  "note_status d =
     (let d = d\<lparr>st_endmsg := istat d AND iendmsg\<rparr>;
          d = (if st_endmsg d \<noteq> 0 \<and> imp_trying d \<noteq> 0 then d\<lparr>imp_trying := imp_trying d - 1\<rparr> else d)
      in d\<lparr>st_error := istat d AND (ierror OR irdyerr)\<rparr>)"

definition i11a_iint :: "denv \<Rightarrow> i11a \<Rightarrow> stop + denv \<times> i11a" where
  "i11a_iint env d =
     (if istat d AND iienab = 0 then Inr (env, d) else
      kbind (if xmem_of (impi_adr d) \<noteq> 0 then mapfree 1 d else Inr d) (\<lambda>d.
        let trying = imp_trying d; d = note_status d
        in if (st_error d \<noteq> 0 \<or> sint trying \<ge> sint TRYING) \<and> trying \<noteq> 0 then
             i11a_read (impi_adr d) (impi_offset d) (push_bit 1 (impi_wcnt d)) env (set_istat (hmasrdy + irst) d)
           else
             let d = d\<lparr>st_inpwcnt := iwcnt d\<rparr> in
             Inr (env, dev_emit (WakeImp (st_error d \<noteq> 0)) (set_istat hmasrdy d))))"

definition set_HMR :: "denv \<Rightarrow> i11a \<Rightarrow> stop + denv \<times> i11a" where
  "set_HMR env d =
     (if HMR_interval d \<noteq> 0 then
        kbind (if istat d AND irdyerr \<noteq> 0 \<and> istat d AND iienab \<noteq> 0 then i11a_iint env d else Inr (env, d))
          (\<lambda>(env, d). Inr (env, dev_emit (Timeout (HMR_interval d)) d))
      else Inr (env, dev_emit WakeHMR d))"

definition i11a_reset :: "denv \<Rightarrow> i11a \<Rightarrow> stop + denv \<times> i11a" where
  "i11a_reset env d =
     (let d = dev_emit (Said ''IMP:Reset'') d in
      kbind (if HMR_interval d \<noteq> 0 then
               (case env of [] \<Rightarrow> Inl Asleep | e # env \<Rightarrow> Inr (env, e (d\<lparr>HMR_interval := 0\<rparr>)))
             else Inr (env, d)) (\<lambda>(env, d).
        Inr (env, set_ostat 0 (set_ostat orst (set_istat 0 (set_istat irst d))))))"

primrec wait_ready :: "denv \<Rightarrow> i11a \<Rightarrow> stop + denv \<times> i11a" where
  "wait_ready [] d = (if istat d AND impnotrdy \<noteq> 0 then Inl Asleep else Inr ([], d))"
| "wait_ready (e # env) d = (if istat d AND impnotrdy \<noteq> 0 then wait_ready env (e d) else Inr (e # env, d))"

definition imp_init :: "denv \<Rightarrow> i11a \<Rightarrow> stop + denv \<times> i11a" where
  "imp_init env d =
     kbind (i11a_reset env d) (\<lambda>(env, d).
     kbind (set_HMR env (d\<lparr>HMR_interval := 60\<rparr>)) (\<lambda>(env, d).
     kbind (wait_ready env (set_istat hmasrdy d)) (\<lambda>(env, d).
     Inr (env, d\<lparr>imp_trying := TRYING\<rparr>))))"

text \<open>An input interrupt: the interface has put its status and the words left to do into the registers.\<close>

definition iinterrupt :: "u16 \<times> u16 \<Rightarrow> i11a \<Rightarrow> stop + i11a" where
  "iinterrupt r d = kbind (i11a_iint [] (d\<lparr>istat := fst r, iwcnt := snd r\<rparr>)) (\<lambda>(_, d). Inr d)"

primrec iinterrupts :: "(u16 \<times> u16) list \<Rightarrow> i11a \<Rightarrow> stop + i11a" where
  "iinterrupts [] d = Inr d"
| "iinterrupts (r # rs) d = kbind (iinterrupt r d) (iinterrupts rs)"

section \<open>The map leaves the registers alone\<close>

lemma mapfree_more: "mapfree bp u = Inr u' \<Longrightarrow> uni.more u' = uni.more u"
  by (auto simp: mapfree_def upd_ubuf_def Let_def split: if_splits option.splits)

lemma map_wait_more: "map_wait n [] u = Inr (b, e, u') \<Longrightarrow> uni.more u' = uni.more u \<and> e = []"
  by (auto simp: split: prod.splits if_splits)

lemma mapalloc_more:
  assumes "mapalloc bp [] u = Inr (e, u')"
  shows "uni.more u' = uni.more u \<and> e = []"
proof -
  obtain b e1 v where "map_wait (map_pages (b_wcount (ub_buf (upd_ubuf bp (\<lambda>b. b\<lparr>b_map := True\<rparr>) u) bp))) []
      (upd_ubuf bp (\<lambda>b. b\<lparr>b_map := True\<rparr>) u) = Inr (b, e1, v)" "uni.more u' = uni.more v" "e = e1"
    using assms unfolding mapalloc_def Let_def kbind_eq_Inr by (auto simp: upd_ubuf_def simp del: map_wait.simps)
  then show ?thesis using map_wait_more [of _ "upd_ubuf bp (\<lambda>b. b\<lparr>b_map := True\<rparr>) u" b e1 v] by (simp add: upd_ubuf_def)
qed

lemma i11a_more:
  assumes "uni.more d' = uni.more (d :: i11a)"
  shows "istat d' = istat d" "iwcnt d' = iwcnt d" "imp_trying d' = imp_trying d" "d_ev d' = d_ev d"
    "impi_adr d' = impi_adr d" "impi_offset d' = impi_offset d" "impi_wcnt d' = impi_wcnt d" "HMR_interval d' = HMR_interval d"
  using assms by (cases d; cases d'; simp)+

lemma i11a_read_frame:
  assumes "i11a_read ad off sz [] d = Inr (e, d')"
  shows "imp_trying d' = imp_trying d \<and> (\<exists>w. d_ev d' = d_ev d @ [Istat w]) \<and> e = []"
proof -
  define d1 where "d1 = upd_ubuf 1 (\<lambda>b. b\<lparr>b_addr := push_bit 6 ad OR off, b_xmem := xmem_of ad\<rparr>) d"
  define d2 where "d2 = upd_ubuf 1 (\<lambda>b. b\<lparr>b_wcount := - signed_drop_bit 1 sz\<rparr>) d1"
  obtain e1 d3 where r: "(if xmem_of ad \<noteq> 0 then mapalloc 1 [] d2 else Inr ([], d1)) = Inr (e1, d3)"
    and d': "e = e1" "imp_trying d' = imp_trying d3" "\<exists>w. d_ev d' = d_ev d3 @ [Istat w]"
    using assms unfolding i11a_read_def Let_def d1_def [symmetric] d2_def [symmetric]
    by (auto simp: kbind_eq_Inr set_istat_def dev_emit_def)
  have f: "uni.more d1 = uni.more d" "uni.more d2 = uni.more d" by (simp_all add: d1_def d2_def upd_ubuf_def)
  have "uni.more d3 = uni.more d \<and> e1 = []" using r f mapalloc_more [of 1 d2 e1 d3] by (auto split: if_splits)
  then show ?thesis using d' i11a_more [of d3 d] by auto
qed

section \<open>The start of the interface\<close>

definition eom_intr :: "u16 \<times> u16 \<Rightarrow> bool" where
  "eom_intr r \<longleftrightarrow> fst r AND iienab \<noteq> 0 \<and> fst r AND iendmsg \<noteq> 0"

abbreviation eoms :: "(u16 \<times> u16) list \<Rightarrow> nat" where
  "eoms rs \<equiv> length (filter eom_intr rs)"

lemma iinterrupt_step:
  assumes r: "iinterrupt r d = Inr d'" and t: "unat (imp_trying d) \<le> 3"
  shows "unat (imp_trying d') = unat (imp_trying d) - (if eom_intr r then 1 else 0) \<and>
    (\<exists>evs. d_ev d' = d_ev d @ evs \<and>
      (\<forall>err. WakeImp err \<in> set evs \<longrightarrow> unat (imp_trying d) < 3 \<and> (err \<longrightarrow> imp_trying d = 0)))"
proof -
  define d0 where "d0 = d\<lparr>istat := fst r, iwcnt := snd r\<rparr>"
  obtain e where i: "i11a_iint [] d0 = Inr (e, d')" using r by (auto simp: iinterrupt_def kbind_eq_Inr d0_def)
  have d0: "imp_trying d0 = imp_trying d" "d_ev d0 = d_ev d" "istat d0 = fst r" by (simp_all add: d0_def)
  show ?thesis
  proof (cases "fst r AND iienab = 0")
    case True
    then have "d' = d0" using i d0 by (simp add: i11a_iint_def)
    then show ?thesis using d0 True by (simp add: eom_intr_def)
  next
    case False
    obtain d1 where m: "(if xmem_of (impi_adr d0) \<noteq> 0 then mapfree 1 d0 else Inr d0) = Inr d1"
      using i False d0 by (auto simp: i11a_iint_def kbind_eq_Inr)
    have "uni.more d1 = uni.more d0" using m mapfree_more [of 1 d0 d1] by (auto split: if_splits)
    note d1 = i11a_more [OF this]
    have st: "sint (imp_trying d) \<ge> sint TRYING \<longleftrightarrow> unat (imp_trying d) = 3"
    proof -
      have "unat (imp_trying d) \<in> {0, 1, 2, 3}" using t by auto
      then consider "imp_trying d = 0" | "imp_trying d = 1" | "imp_trying d = 2" | "imp_trying d = 3"
        by (auto simp: word_unat_eq_iff)
      then show ?thesis by cases (simp_all add: TRYING_def)
    qed
    have u1: "imp_trying d \<noteq> 0 \<Longrightarrow> unat (imp_trying d - 1) = unat (imp_trying d) - 1"
      by (simp add: unat_minus_one)
    let ?d = "note_status d1"
    have n: "unat (imp_trying ?d) = unat (imp_trying d) - (if eom_intr r then 1 else 0)" "d_ev ?d = d_ev d"
      using False u1 d1 d0 by (auto simp: note_status_def eom_intr_def Let_def)
    let ?c = "(st_error ?d \<noteq> 0 \<or> sint (imp_trying d) \<ge> sint TRYING) \<and> imp_trying d \<noteq> 0"
    have se: "st_error (?d\<lparr>st_inpwcnt := w\<rparr>) = st_error ?d" for w by simp
    have k: "(if ?c then i11a_read (impi_adr ?d) (impi_offset ?d) (push_bit 1 (impi_wcnt ?d)) [] (set_istat (hmasrdy + irst) ?d)
       else Inr ([], dev_emit (WakeImp (st_error ?d \<noteq> 0)) (set_istat hmasrdy (?d\<lparr>st_inpwcnt := iwcnt ?d\<rparr>)))) = Inr (e, d')"
      using i unfolding i11a_iint_def m kbind_simps Let_def d1(3) d0(1,3) if_not_P [OF False] se .
    show ?thesis
    proof (cases ?c)
      case True
      have "i11a_read (impi_adr ?d) (impi_offset ?d) (push_bit 1 (impi_wcnt ?d)) [] (set_istat (hmasrdy + irst) ?d) = Inr (e, d')"
        using k unfolding if_P [OF True] .
      from i11a_read_frame [OF this] show ?thesis using n by (auto simp: set_istat_def dev_emit_def)
    next
      case c: False
      have "d' = dev_emit (WakeImp (st_error ?d \<noteq> 0)) (set_istat hmasrdy (?d\<lparr>st_inpwcnt := iwcnt ?d\<rparr>))"
        using k unfolding if_not_P [OF c] by (simp only: sum.inject prod.inject)
      then show ?thesis using n c st t by (auto simp: set_istat_def dev_emit_def)
    qed
  qed
qed

lemma iinterrupts_snoc: "iinterrupts (rs @ [r]) d = kbind (iinterrupts rs d) (iinterrupt r)"
proof (induction rs arbitrary: d)
  case (Cons a rs)
  show ?case
  proof (cases "iinterrupt a d")
    case (Inr d1)
    then show ?thesis using Cons.IH [of d1] by simp
  qed simp
qed (simp add: kbind_def split: sum.splits)

text \<open>C36: after the start of the interface (imp_trying = 3) an error of the input side is reported to the input
  process only behind three interrupts with the end of message bit, and nothing at all is reported before
  the first of them; imp_trying counts down with these interrupts and stays 0.\<close>

theorem start_ignores_errors:
  assumes "iinterrupts rs d = Inr d'" "imp_trying d = TRYING"
  shows "unat (imp_trying d') = 3 - eoms rs \<and> (\<exists>evs. d_ev d' = d_ev d @ evs \<and>
    (\<forall>err. WakeImp err \<in> set evs \<longrightarrow> 1 \<le> eoms (butlast rs) \<and> (err \<longrightarrow> 3 \<le> eoms (butlast rs))))"
  using assms(1)
proof (induction rs arbitrary: d' rule: rev_induct)
  case Nil
  then show ?case using assms(2) by (simp add: TRYING_def)
next
  case (snoc r rs)
  obtain d1 where a: "iinterrupts rs d = Inr d1" "iinterrupt r d1 = Inr d'"
    using snoc.prems by (auto simp: iinterrupts_snoc kbind_eq_Inr)
  obtain evs where t: "unat (imp_trying d1) = 3 - eoms rs" and e: "d_ev d1 = d_ev d @ evs"
    "\<forall>err. WakeImp err \<in> set evs \<longrightarrow> 1 \<le> eoms (butlast rs) \<and> (err \<longrightarrow> 3 \<le> eoms (butlast rs))"
    using snoc.IH [OF a(1)] by blast
  have le: "eoms (butlast rs) \<le> eoms rs" by (cases rs rule: rev_cases) simp_all
  have t3: "unat (imp_trying d1) \<le> 3" using t by simp
  from iinterrupt_step [OF a(2) t3] obtain evs' where s: "unat (imp_trying d') = unat (imp_trying d1) - (if eom_intr r then 1 else 0)"
    "d_ev d' = d_ev d1 @ evs'" "\<forall>err. WakeImp err \<in> set evs' \<longrightarrow> unat (imp_trying d1) < 3 \<and> (err \<longrightarrow> imp_trying d1 = 0)"
    by blast
  have z: "imp_trying d1 = 0 \<Longrightarrow> 3 \<le> eoms rs" using t by (cases "3 \<le> eoms rs") auto
  have "WakeImp err \<in> set (evs @ evs') \<Longrightarrow> 1 \<le> eoms rs \<and> (err \<longrightarrow> 3 \<le> eoms rs)" for err
    using e(2) s(3) le t z by fastforce
  then show ?case using t s(1,2) e(1) by (auto intro!: exI [of _ "evs @ evs'"])
qed







section \<open>Samples\<close>

text \<open>The interface behind imp_init, with a read of 64 bytes under way into the block 2048 of 64 bytes; its buffer has page 8 of the
  map.\<close>

definition dev0 :: i11a where
  "dev0 = \<lparr>um = [\<lparr>us_size = 22, us_addr = 9\<rparr>], ub_bufp = (\<lambda>_. 0)(0 := 1), ub_size = (\<lambda>_. 0)(0 := 1), ub_wanted = False,
     ub_reg = \<lambda>_. 0, ub_buf = (\<lambda>_. \<lparr>b_map = False, b_wcount = 0, b_addr = 0, b_xmem = 0\<rparr>)
       (1 := \<lparr>b_map = True, b_wcount = - 32, b_addr = 0, b_xmem = 1\<rparr>),
     istat = iienab + ierror, iwcnt = 0, spi = 0, ostat = 0, owcnt = 0, spo = 0, HMR_interval = 60, imp_trying = 3,
     impi_adr = 0x800, impi_offset = 0, impi_wcnt = 32, st_endmsg = 0, st_error = 0, st_inpwcnt = 0, d_ev = []\<rparr>"


lemma start_ignores_errors_witness:
  "case iinterrupts (replicate 4 (iienab + iendmsg + ierror, 0)) (dev0\<lparr>impi_adr := 0\<rparr>) of Inl _ \<Rightarrow> False | Inr d \<Rightarrow> unat (imp_trying d) = 0"
proof -
  have "case iinterrupts (replicate 4 (iienab + iendmsg + ierror, 0)) (dev0\<lparr>impi_adr := 0\<rparr>) of Inl _ \<Rightarrow> False | Inr d \<Rightarrow> True" by code_simp
  then obtain d where d: "iinterrupts (replicate 4 (iienab + iendmsg + ierror, 0)) (dev0\<lparr>impi_adr := 0\<rparr>) = Inr d" by (auto split: sum.splits)
  have "imp_trying (dev0\<lparr>impi_adr := 0\<rparr>) = TRYING" by (simp add: dev0_def TRYING_def)
  moreover have "eoms (replicate 4 (iienab + iendmsg + ierror, 0)) = 4" by code_simp
  ultimately have "unat (imp_trying d) = 0" using start_ignores_errors [OF d] by simp
  then show ?thesis unfolding d by simp
qed



end
