(* ===== verification/Ncp_Await.thy ===== *)
theory Ncp_Await
  imports Net_Prelude
begin

text \<open>
  Waiting for activity (src/jnc_bbn-files/ken/awaitr.c), the way a process of the PDP-11 system waits
  for one of several network files.  A file descriptor is enabled in \<open>itab\<close>, which has AWTPER slots of a process
  number and a descriptor for every inode; awake marks the slots of an inode and the processes in
  them; awt sleeps until that happens or its time has come, and reports the descriptors.

  Time is the variable \<open>now\<close>, which counts 1, 2, ..., 256, 1, ... once a second while somebody waits
  and is 0 otherwise.  \<open>awttim\<close> is the time at which a process is to be woken, 0 if it does not wait,
  \<open>nxttim\<close> the next time at which the table has to be looked at.  The second byte of a slot is the
  descriptor plus 1, negative after activity.
\<close>

definition AWTPER :: nat where "AWTPER = 2"
definition NPROC :: nat where "NPROC = 90"

record await_st =
  now :: nat
  nxttim :: nat
  awttim :: "nat \<Rightarrow> nat"
  ticking :: bool
  sawake :: "nat \<Rightarrow> bool"
  itab :: "nat \<Rightarrow> (int \<times> int) list"

section \<open>Time\<close>

definition cirmin :: "nat \<Rightarrow> nat \<Rightarrow> nat \<Rightarrow> nat" where
  "cirmin r x y = (let x = (if x < r then x + 256 else x); y = (if y < r then y + 256 else y)
     in if x < y then x mod 256 else y mod 256)"

text \<open>The first part of awt, for a process that has not been woken already: it sets its time and sleeps.\<close>

definition awt_start :: "nat \<Rightarrow> int \<Rightarrow> await_st \<Rightarrow> await_st" where
  "awt_start p tim s =
     (let tim = (if tim > 255 then 255 else nat tim);
          i = (now s + tim + (if now s = 0 then 1 else 0)) mod 256;
          i = (if i = 0 then i + 1 else i);
          s = s\<lparr>awttim := (awttim s)(p := i)\<rparr>
      in if now s = 0 then s\<lparr>now := now s + 1, nxttim := i, ticking := True\<rparr>
         else s\<lparr>nxttim := cirmin (now s) (nxttim s) i\<rparr>)"

text \<open>awtto runs once a second; \<open>awtto_scan\<close> is its loop over the processes.\<close>

fun awtto_scan :: "nat \<Rightarrow> nat list \<Rightarrow> await_st \<Rightarrow> await_st" where
  "awtto_scan n [] s = s"
| "awtto_scan n (p # ps) s = awtto_scan n ps
     (if awttim s p = n then s\<lparr>sawake := (sawake s)(p := True)\<rparr>
      else if awttim s p \<noteq> 0 then s\<lparr>nxttim := cirmin n (nxttim s) (awttim s p)\<rparr>
      else s)"

definition awtto :: "await_st \<Rightarrow> await_st" where
  "awtto s =
     (let s = s\<lparr>now := if now s > 255 then 1 else now s + 1\<rparr> in
      if now s = nxttim s then
        let s = awtto_scan (now s) [0..<NPROC] (s\<lparr>nxttim := 1000\<rparr>)
        in if nxttim s = 1000 then s\<lparr>now := 0, nxttim := 0, ticking := False\<rparr> else s
      else s)"

section \<open>Activity\<close>

text \<open>awake with the slots of inode \<open>n\<close>; \<open>me\<close> is the process that does it, 0 for an interrupt.\<close>

definition awake_slot :: "nat \<Rightarrow> int \<times> int \<Rightarrow> int \<times> int" where
  "awake_slot me e = (if fst e \<noteq> 0 \<and> fst e \<noteq> int me \<and> snd e \<ge> 0 then (fst e, - snd e) else e)"

definition awake :: "nat \<Rightarrow> nat \<Rightarrow> await_st \<Rightarrow> await_st" where
  "awake me n s = s\<lparr>itab := (itab s)(n := map (awake_slot me) (itab s n)),
     sawake := \<lambda>p. sawake s p \<or> (p \<noteq> me \<and> p \<noteq> 0 \<and> int p \<in> fst ` set (itab s n))\<rparr>"

text \<open>The end of awt: report the descriptors with activity, at most \<open>bbl\<close> bytes with the end mark.  The scan
  of the whole table goes through the inodes in order.\<close>

fun awt_scan :: "nat \<Rightarrow> int \<Rightarrow> (int \<times> int) list \<Rightarrow> (int \<times> int) list \<times> int list \<times> int" where
  "awt_scan p bbl [] = ([], [], bbl)"
| "awt_scan p bbl (e # es) =
     (if fst e = int p \<and> snd e < 0 then
        let (es, out, bbl') = awt_scan p (if bbl - 1 > 0 then bbl - 1 else bbl) es
        in ((fst e, - snd e) # es, if bbl - 1 > 0 then (- snd e - 1) # out else out, bbl')
      else let (es, out, bbl') = awt_scan p bbl es in (e # es, out, bbl'))"

primrec awt_scan_inodes :: "nat \<Rightarrow> int \<Rightarrow> nat list \<Rightarrow> (nat \<Rightarrow> (int \<times> int) list)
    \<Rightarrow> (nat \<Rightarrow> (int \<times> int) list) \<times> int list \<times> int" where
  "awt_scan_inodes p bbl [] t = (t, [], bbl)"
| "awt_scan_inodes p bbl (n # ns) t =
     (let (es, out, bbl) = awt_scan p bbl (t n); (t, out', bbl) = awt_scan_inodes p bbl ns (t(n := es))
      in (t, out @ out', bbl))"

definition awt_exit :: "nat \<Rightarrow> int \<Rightarrow> nat \<Rightarrow> await_st \<Rightarrow> int list \<times> await_st" where
  "awt_exit p bbl ninode s =
     (let (t, out, bbl) = awt_scan_inodes p bbl [0..<ninode] (itab s)
      in (if bbl - 1 \<ge> 0 then out @ [-1] else out,
          s\<lparr>sawake := (sawake s)(p := False), awttim := (awttim s)(p := 0), itab := t\<rparr>))"

definition awt_at_once :: "nat \<Rightarrow> int \<Rightarrow> await_st \<Rightarrow> bool" where
  "awt_at_once p tim s \<longleftrightarrow> tim \<le> 0 \<or> sawake s p"

section \<open>Enabling a descriptor on an inode\<close>

text \<open>The last free slot is taken; None is EAWTMAX.\<close>

definition slot_is :: "nat \<Rightarrow> int \<Rightarrow> int \<times> int \<Rightarrow> bool" where
  "slot_is p fd e \<longleftrightarrow> fst e = int p \<and> (snd e = fd \<or> snd e = - fd)"

definition last_free :: "(int \<times> int) list \<Rightarrow> nat option" where
  "last_free es = fold (\<lambda>i r. if fst (es ! i) = 0 then Some i else r) [0..<length es] None"

definition enablei :: "nat \<Rightarrow> nat \<Rightarrow> int \<Rightarrow> await_st \<Rightarrow> await_st option" where
  "enablei p n fd s = (let fd = fd + 1; es = itab s n in
     if list_ex (slot_is p fd) es then Some s
     else case last_free es of
       None \<Rightarrow> None
     | Some i \<Rightarrow> Some (s\<lparr>itab := (itab s)(n := es[i := (int p, fd)])\<rparr>))"

text \<open>The result tells whether somebody else still uses the inode.\<close>

definition disablei :: "nat \<Rightarrow> nat \<Rightarrow> int \<Rightarrow> await_st \<Rightarrow> bool \<times> await_st" where
  "disablei p n fd s = (let fd = fd + 1; es = itab s n in
     (list_ex (\<lambda>e. \<not> slot_is p fd e \<and> fst e \<noteq> 0) es,
      s\<lparr>itab := (itab s)(n := map (\<lambda>e. if slot_is p fd e then (0, 0) else e) es)\<rparr>))"

end
