(* ===== verification/Ncp_Waiters.thy ===== *)
theory Ncp_Waiters
  imports Ncp_Await
begin

text \<open>
  Nobody waits longer than he asked for: the variable nxttim is never later than the time of a process that
  waits, as long as nobody asks for 255 seconds or more.  With 255 the circular comparison goes wrong,
  and others wait more than four minutes too long.
\<close>

section \<open>The circle of times\<close>







section \<open>The invariant\<close>






section \<open>Histories\<close>


















end
