(* ===== verification/Ncp_Clock.thy ===== *)
theory Ncp_Clock
  imports Ncp_Buf
begin

text \<open>
  The timers of the PDP-11 kernel (src/jnc_bbn-files/ken/clock.c: timeout and the callouts of clock),
  which run awtto, set_HMR and the timer of the NCP daemon.  Every entry has the time that is to pass
  after the one in front of it.  A function is a number that is not 0; what a function that is called asks of
  timeout is a parameter \<open>act\<close>.  The table has NCALL entries with the terminator; more are \<open>Wild\<close>.

  Second half: the table represents the agenda of the functions with the time left to each, in the order they will be called.
\<close>

definition NCALL :: nat where "NCALL = 20"

record callo =
  c_time :: int
  c_arg :: nat
  c_func :: nat

section \<open>The table\<close>

fun co_insert :: "nat \<Rightarrow> nat \<Rightarrow> int \<Rightarrow> callo list \<Rightarrow> callo list" where
  "co_insert f a t [] = [\<lparr>c_time = t, c_arg = a, c_func = f\<rparr>]"
| "co_insert f a t (c # cs) =
     (if c_time c \<le> t then c # co_insert f a (t - c_time c) cs
      else \<lparr>c_time = t, c_arg = a, c_func = f\<rparr> # c\<lparr>c_time := c_time c - t\<rparr> # cs)"

definition timeout :: "nat \<Rightarrow> nat \<Rightarrow> int \<Rightarrow> callo list \<Rightarrow> stop + callo list" where
  "timeout f a t cs = (if length cs \<ge> NCALL - 1 then Inl Wild else Inr (co_insert f a t cs))"

type_synonym request = "nat \<times> nat \<times> int"

primrec timeouts :: "request list \<Rightarrow> callo list \<Rightarrow> stop + callo list" where
  "timeouts [] cs = Inr cs"
| "timeouts (r # rs) cs = (case r of (f, a, t) \<Rightarrow> kbind (timeout f a t cs) (timeouts rs))"

text \<open>The first entry whose time is not over counts down.\<close>

fun co_decr :: "callo list \<Rightarrow> callo list" where
  "co_decr [] = []"
| "co_decr (c # cs) = (if c_time c \<le> 0 then c # co_decr cs else c\<lparr>c_time := c_time c - 1\<rparr> # cs)"

text \<open>The calls, from entry \<open>i\<close> on; the result is the number of entries that are done and the calls made.
  The table never has more than NCALL entries, so that many rounds are enough.\<close>

primrec co_run :: "nat \<Rightarrow> (nat \<Rightarrow> nat \<Rightarrow> request list) \<Rightarrow> nat \<Rightarrow> callo list \<Rightarrow> stop + nat \<times> callo list \<times> (nat \<times> nat) list" where
  "co_run 0 act i cs = Inl Hang"
| "co_run (Suc n) act i cs =
     (if i < length cs \<and> c_time (cs ! i) \<le> 0 then
        let f = c_func (cs ! i); a = c_arg (cs ! i) in
        kbind (timeouts (act f a) cs) (\<lambda>cs.
        kbind (co_run n act (i + 1) cs) (\<lambda>(i, cs, out). Inr (i, cs, (f, a) # out)))
      else Inr (i, cs, []))"

text \<open>The callouts of one interrupt of the clock; \<open>high\<close>: the interrupted processor was not at priority 0.\<close>

definition clock_callouts :: "bool \<Rightarrow> (nat \<Rightarrow> nat \<Rightarrow> request list) \<Rightarrow> callo list \<Rightarrow> stop + callo list \<times> (nat \<times> nat) list" where
  "clock_callouts high act cs = (if cs = [] then Inr ([], []) else
     let cs = co_decr cs in
     if high then Inr (cs, [])
     else kbind (co_run NCALL act 0 cs) (\<lambda>(i, cs, out). Inr (drop i cs, out)))"

section \<open>The agenda\<close>

type_synonym agenda = "(int \<times> nat \<times> nat) list"

text \<open>The time left, the function and its argument.\<close>

fun agenda :: "int \<Rightarrow> callo list \<Rightarrow> agenda" where
  "agenda t0 [] = []"
| "agenda t0 (c # cs) = (t0 + c_time c, c_func c, c_arg c) # agenda (t0 + c_time c) cs"

definition agenda_add :: "request \<Rightarrow> agenda \<Rightarrow> agenda" where
  "agenda_add r g = (case r of (f, a, t) \<Rightarrow> takeWhile (\<lambda>e. fst e \<le> t) g @ (t, f, a) # dropWhile (\<lambda>e. fst e \<le> t) g)"

definition agenda_tick :: "agenda \<Rightarrow> agenda" where
  "agenda_tick = map (\<lambda>(d, x). (max 0 (d - 1), x))"

definition co_ok :: "callo list \<Rightarrow> bool" where
  "co_ok cs \<longleftrightarrow> (\<forall>c\<in>set cs. 0 \<le> c_time c)"

lemma co_ok_simps [simp]: "co_ok []" "co_ok (c # cs) \<longleftrightarrow> 0 \<le> c_time c \<and> co_ok cs"
  by (auto simp: co_ok_def)

lemma agenda_ge: "co_ok cs \<Longrightarrow> e \<in> set (agenda t0 cs) \<Longrightarrow> t0 \<le> fst e"
  by (induction cs arbitrary: t0) force+

lemma length_agenda [simp]: "length (agenda t0 cs) = length cs"
  by (induction cs arbitrary: t0) auto

lemma sorted_agenda: "co_ok cs \<Longrightarrow> sorted (map fst (agenda t0 cs))"
  by (induction cs arbitrary: t0) (auto dest: agenda_ge)

lemma co_insert_ok: "co_ok cs \<Longrightarrow> 0 \<le> t \<Longrightarrow> co_ok (co_insert f a t cs)"
  by (induction f a t cs rule: co_insert.induct) auto

lemma agenda_insert:
  "co_ok cs \<Longrightarrow> agenda t0 (co_insert f a t cs) = agenda_add (f, a, t0 + t) (agenda t0 cs)"
proof (induction f a t cs arbitrary: t0 rule: co_insert.induct)
  case (2 f a t c cs)
  show ?case
  proof (cases "c_time c \<le> t")
    case True
    then show ?thesis using 2 by (simp add: agenda_add_def)
  qed (simp add: agenda_add_def)
qed (simp add: agenda_add_def)

lemma co_decr_ok: "co_ok cs \<Longrightarrow> co_ok (co_decr cs)"
  by (induction cs rule: co_decr.induct) auto

lemma agenda_shift: "agenda (t0 - 1) cs = map (\<lambda>(d, x). (d - 1, x)) (agenda t0 cs)"
proof (induction cs arbitrary: t0)
  case (Cons c cs)
  show ?case using Cons.IH [of "t0 + c_time c"] by (simp add: algebra_simps)
qed simp

lemma agenda_decr: "co_ok cs \<Longrightarrow> agenda 0 (co_decr cs) = agenda_tick (agenda 0 cs)"
proof (induction cs rule: co_decr.induct)
  case (2 c cs)
  show ?case
  proof (cases "c_time c \<le> 0")
    case True
    then have "c_time c = 0" using "2.prems" by simp
    then show ?thesis using 2 by (simp add: agenda_tick_def)
  next
    case False
    have "agenda (c_time c - 1) cs = map (\<lambda>(d, x). (max 0 (d - 1), x)) (agenda (c_time c) cs)"
      unfolding agenda_shift
    proof (rule map_cong [OF refl])
      fix e assume "e \<in> set (agenda (c_time c) cs)"
      then have "c_time c \<le> fst e" using agenda_ge [of cs e "c_time c"] "2.prems" by simp
      then show "(case e of (d, x) \<Rightarrow> (d - 1, x)) = (case e of (d, x) \<Rightarrow> (max 0 (d - 1), x))"
        using False by (cases e) simp
    qed
    then show ?thesis using False by (simp add: agenda_tick_def)
  qed
qed (simp add: agenda_tick_def)

section \<open>The calls\<close>

text \<open>Entries whose time is over stay in front when a new one comes.\<close>

definition due :: "nat \<Rightarrow> callo list \<Rightarrow> bool" where
  "due m cs \<longleftrightarrow> m \<le> length cs \<and> (\<forall>j<m. c_time (cs ! j) = 0)"

lemma co_insert_due:
  assumes "due m cs" "0 \<le> t"
  shows "due m (co_insert f a t cs) \<and> drop m (co_insert f a t cs) = co_insert f a t (drop m cs)"
  using assms
proof (induction m arbitrary: cs)
  case (Suc m)
  then obtain c cs1 where c: "cs = c # cs1" by (cases cs) (auto simp: due_def)
  have z: "c_time c = 0" "due m cs1" using Suc.prems(1) unfolding c due_def by auto
  show ?case using Suc.IH [OF z(2) Suc.prems(2)] z Suc.prems(2) unfolding c due_def
    by (auto simp: nth_Cons split: nat.splits)
qed (simp add: due_def)

lemma timeouts_due:
  assumes "timeouts rs cs = Inr cs'" "due m cs" "co_ok cs" "\<forall>(f, a, t)\<in>set rs. 0 < t"
  shows "due m cs' \<and> co_ok cs' \<and> agenda 0 (drop m cs') = fold agenda_add rs (agenda 0 (drop m cs))"
  using assms
proof (induction rs arbitrary: cs)
  case (Cons r rs)
  obtain f a t where r: "r = (f, a, t)" by (cases r)
  have t: "0 < t" using Cons.prems(4) r by simp
  have n: "timeouts rs (co_insert f a t cs) = Inr cs'"
    using Cons.prems(1) unfolding r by (auto simp: timeout_def split: if_splits)
  have d: "due m (co_insert f a t cs) \<and> drop m (co_insert f a t cs) = co_insert f a t (drop m cs)"
    by (rule co_insert_due [OF Cons.prems(2)]) (use t in simp)
  have o: "co_ok (co_insert f a t cs)" by (rule co_insert_ok [OF Cons.prems(3)]) (use t in simp)
  have om: "co_ok (drop m cs)" using Cons.prems(3) by (auto simp: co_ok_def dest: in_set_dropD)
  have "agenda 0 (drop m (co_insert f a t cs)) = agenda_add r (agenda 0 (drop m cs))"
    using d agenda_insert [OF om, of 0 f a t] r by simp
  then show ?case using Cons.IH [OF n conjunct1 [OF d] o] Cons.prems(4) by simp
qed simp

lemma agenda_add_later:
  assumes "0 < t"
  shows "takeWhile (\<lambda>e. fst e \<le> 0) (agenda_add (f, a, t) g) = takeWhile (\<lambda>e. fst e \<le> 0) g"
    and "dropWhile (\<lambda>e. fst e \<le> 0) (agenda_add (f, a, t) g) = agenda_add (f, a, t) (dropWhile (\<lambda>e. fst e \<le> 0) g)"
proof (induction g)
  case (Cons e g)
  { case 1 show ?case using Cons(1) assms by (auto simp: agenda_add_def) }
  { case 2 show ?case using Cons(2) assms by (auto simp: agenda_add_def) }
qed (use assms in \<open>simp_all add: agenda_add_def\<close>)

lemma agenda_adds_later:
  assumes "\<forall>(f, a, t)\<in>set rs. 0 < t"
  shows "takeWhile (\<lambda>e. fst e \<le> 0) (fold agenda_add rs g) = takeWhile (\<lambda>e. fst e \<le> 0) g"
    and "dropWhile (\<lambda>e. fst e \<le> 0) (fold agenda_add rs g) = fold agenda_add rs (dropWhile (\<lambda>e. fst e \<le> 0) g)"
  using assms by (induction rs arbitrary: g) (auto simp: agenda_add_later)

text \<open>The functions ask for calls that are in the future.\<close>

definition later :: "(nat \<Rightarrow> nat \<Rightarrow> request list) \<Rightarrow> bool" where
  "later act \<longleftrightarrow> (\<forall>f' a'. \<forall>(f, a, t)\<in>set (act f' a'). 0 < t)"

lemma co_run_agenda:
  assumes "co_run n act i cs = Inr (k, cs', out)" "due i cs" "co_ok cs" "later act"
  shows "out = map snd (takeWhile (\<lambda>e. fst e \<le> 0) (agenda 0 (drop i cs))) \<and> co_ok cs' \<and>
    agenda 0 (drop k cs') = fold agenda_add (concat (map (\<lambda>(f, a). act f a) out)) (dropWhile (\<lambda>e. fst e \<le> 0) (agenda 0 (drop i cs)))"
  using assms(1-3)
proof (induction n arbitrary: i cs out)
  case (Suc n)
  have pos: "\<forall>(f, a, t)\<in>set (act f' a'). 0 < t" for f' a' using assms(4) by (simp add: later_def)
  show ?case
  proof (cases "i < length cs \<and> c_time (cs ! i) \<le> 0")
    case False
    have "takeWhile (\<lambda>e. fst e \<le> 0) (agenda 0 (drop i cs)) = [] \<and>
        dropWhile (\<lambda>e. fst e \<le> 0) (agenda 0 (drop i cs)) = agenda 0 (drop i cs)"
    proof (cases "i < length cs")
      case True
      then have "drop i cs = cs ! i # drop (Suc i) cs" by (simp add: Cons_nth_drop_Suc)
      then show ?thesis using False True by simp
    qed simp
    then show ?thesis using Suc.prems False by simp
  next
    case True
    let ?f = "c_func (cs ! i)" and ?a = "c_arg (cs ! i)"
    have "cs ! i \<in> set cs" using True by simp
    then have z: "c_time (cs ! i) = 0" using True Suc.prems(3) by (auto simp: co_ok_def intro: antisym)
    have d1: "due (Suc i) cs" using Suc.prems(2) True z by (auto simp: due_def less_Suc_eq)
    obtain cs1 out1 where r: "timeouts (act ?f ?a) cs = Inr cs1" "co_run n act (Suc i) cs1 = Inr (k, cs', out1)" "out = (?f, ?a) # out1"
      using Suc.prems(1) True by (auto simp: kbind_eq_Inr Let_def)
    note t = timeouts_due [OF r(1) d1 Suc.prems(3) pos]
    have "drop i cs = cs ! i # drop (Suc i) cs" using True by (simp add: Cons_nth_drop_Suc)
    then have g: "agenda 0 (drop i cs) = (0, ?f, ?a) # agenda 0 (drop (Suc i) cs)" using z by simp
    note ih = Suc.IH [OF r(2) conjunct1 [OF t] conjunct1 [OF conjunct2 [OF t]]]
    show ?thesis using ih t r(3) g agenda_adds_later [OF pos] by simp
  qed
qed simp

text \<open>C40: an interrupt of the clock takes one from the time left to each entry of the agenda and, unless the
  processor was at a high priority, calls those that have no time left, in the order of their times and,
  for equal times, of their requests; the requests these calls make are entered behind all that is due earlier
  or at the same time.\<close>

theorem clock_agenda:
  assumes "clock_callouts high act cs = Inr (cs', out)" "co_ok cs" "later act"
  defines "g \<equiv> agenda_tick (agenda 0 cs)"
  shows "co_ok cs' \<and> (if high then out = [] \<and> agenda 0 cs' = g
    else out = map snd (takeWhile (\<lambda>e. fst e \<le> 0) g) \<and>
      agenda 0 cs' = fold agenda_add (concat (map (\<lambda>(f, a). act f a) out)) (dropWhile (\<lambda>e. fst e \<le> 0) g))"
proof (cases "cs = []")
  case True
  then show ?thesis using assms(1) by (auto simp: clock_callouts_def g_def agenda_tick_def split: if_splits)
next
  case False
  have ok: "co_ok (co_decr cs)" and g: "agenda 0 (co_decr cs) = g"
    using co_decr_ok [OF assms(2)] agenda_decr [OF assms(2)] by (simp_all add: g_def)
  show ?thesis
  proof (cases high)
    case True
    then show ?thesis using assms(1) ok g False by (auto simp: clock_callouts_def Let_def)
  next
    case low: False
    obtain k cs1 where r: "co_run NCALL act 0 (co_decr cs) = Inr (k, cs1, out)" "cs' = drop k cs1"
      using assms(1) False low by (auto simp: clock_callouts_def Let_def kbind_eq_Inr)
    have "due 0 (co_decr cs)" by (simp add: due_def)
    from co_run_agenda [OF r(1) this ok assms(3)] g low r(2) show ?thesis
      by (auto simp: co_ok_def dest: in_set_dropD)
  qed
qed

text \<open>A table with an entry that is over because the clock could not call it, and the next tick.\<close>

definition callouts0 :: "callo list" where
  "callouts0 = [\<lparr>c_time = 0, c_arg = 7, c_func = 1\<rparr>, \<lparr>c_time = 1, c_arg = 0, c_func = 2\<rparr>, \<lparr>c_time = 4, c_arg = 0, c_func = 3\<rparr>]"

definition again :: "nat \<Rightarrow> nat \<Rightarrow> request list" where
  "again f a = (if f = 2 then [(2, a, 3)] else [])"

lemma clock_agenda_witness:
  "case clock_callouts False again callouts0 of Inl _ \<Rightarrow> False
   | Inr (cs, out) \<Rightarrow> out = [(1, 7), (2, 0)] \<and> agenda 0 cs = [(3, 2, 0), (4, 3, 0)]"
proof -
  have "case clock_callouts False again callouts0 of Inl _ \<Rightarrow> False | Inr _ \<Rightarrow> True" by code_simp
  then obtain cs out where c: "clock_callouts False again callouts0 = Inr (cs, out)" by (auto split: sum.splits)
  have "co_ok callouts0" "later again" by (auto simp: callouts0_def later_def again_def)
  from clock_agenda [OF c this] show ?thesis unfolding c
    by (simp add: callouts0_def again_def agenda_tick_def agenda_add_def)
qed

end
