(* ===== verification/Spec2Isabelle.thy ===== *)
theory Spec2Isabelle
  imports Net_Moves Recv_Stream Ip_Queue User_Ports User_Io Ncp_Fifo
    Ncp_Driver Ncp_Waiters Ncp_Clock
begin

text \<open>
  A model and verification of the two network kernels of this repository that carry its core
  logic: the BBN VAX network kernel of October 1982 (src/tape1-files/bbnnet-oct82, with the
  resource map src/tape1-files/sys/rmap.c that its buffer allocator uses), which speaks TCP/IP, and
  the network part of the PDP-11 kernel of BBN (src/jnc_bbn-files), which speaks the Arpanet's
  NCP and hands raw messages to a TCP outside the kernel.

  The first program.  A network process inside the kernel (netmain.c) sleeps until a device driver puts
  a message on the input queue of an interface.  It then hands the messages to the local network
  routine of the interface (imp_io.c for the 1822 IMP, vii_io.c for the V2LNI ring), which strips
  the local header and calls IP (ip_input.c).  IP verifies the header, reassembles fragments and
  dispatches to TCP (tcp_input.c), ICMP and GGP (icmp.c), UDP (udp.c) and to raw connections
  (raw_input.c).  TCP is a finite state machine: tcp_input.c finds the connection and the entry of
  the transition table (fsmdef.h), the action routines (tcp_states.c) call the procedures
  (tcp_procs.c) and the primitives (tcp_prim.c), which send through ip_output.c and the local
  network output routines.  User requests and expired timers come in through a work list.  All
  data is in chains of 128 byte buffers (mbuf.c) carved out of pages that come from a resource map
  (rmap.c); host.c keeps the reference counted table of hosts.

  The second program (src/jnc_bbn-files/ncpkernel, in the configuration of h/param.70: NETWORK, NCP, RMI
  and BUFMOD).  A message is a ring of 64 byte buffers; the buffers are carved eight at a time out
  of system buffers outside of the kernel space and given back with a hysteresis (kerbuf.c,
  dmr/bio.c).  vectomsg appends a vector to a message, bytesout takes bytes off its front, catmsg
  joins two.  The input process (impio.c) reads the leader and then the buffers of a message from
  the IMP driver (imp11a.c) and dispatches: host-to-host commands and RFNMs change the sockets and
  the connection tables (contab.c), data goes to the queue of its socket, raw messages to the
  entry of the raw table (rawtable.c, rawmain.c) whose range of links contains theirs, and all the rest
  to the NCP daemon, a user process, through a queue of its own.  The daemon controls the kernel by writing
  instructions to the file it reads that queue from (ncpio.c).  The host bit map and the host
  numbers are in btest.c, the system calls on connections and raw files in nopcls.c, nrdwr.c,
  rawmain.c and rawmisc.c.  The driver transfers through the UNIBUS map, a set of page registers that
  mapalloc and mapfree (dmr/bio.c) share out with malloc and mfree (ken/malloc.c) as their map of free
  pages.  A process can wait for activity on several files (ken/awaitr.c); the clock (ken/clock.c) calls
  the functions that asked for it with timeout.

  The model.  C integers are machine words where they wrap (sequence numbers, checksums, header
  fields) and naturals or integers with the truncation of their C type written out elsewhere
  (uchar, ushort, sshort for stores into u_char, u_short and short).  A buffer is a record with
  its offset, its length and the function from offsets to bytes; a chain linked by m_next is the
  list of its buffers, a queue linked by m_act, t_next or ip_next is a list of those.  Every header
  field is read and written at its byte offset.  The whole kernel state is the record \<open>net\<close>
  (Net_State), which every operation takes and returns.  Kernel panics set a flag and leave an
  event; wakeups, signals, driver starts and printed messages are events.  Waiting (sleep) is
  modelled as returning at once inside the network process, where the sleeper only waits for a
  lock; a system call takes the changes that happen during its sleeps as an argument (Netuser).

  Theories, in the order of the code:
  Net_Prelude: word types, sequence number comparisons (tcp.h), byte order (host.c).
  Rmap: sys/rmap.c.  Mbuf: the buffer and m_adj.  Mbuf_Pool: the free page table, m_get, m_free,
  pg_alloc, m_relse (mbuf.c).  Net_Cksum: ipcksum.c.  Net_State: control blocks and the routines
  every component shares (m_expand, m_get, m_copy, netlog, to_user, w_alloc).  Host_Table: host.c.
  Net_If: output of imp_io.c and vii_io.c.  Ip_Output: ip_output.c.  Tcp_Prim, Tcp_Procs,
  Tcp_States, Tcp_Input: the files of the same name and fsmdef.h.  Raw_Input: raw_input.c.
  Icmp, Udp: icmp.c, udp.c.  Ip_Input: ip_input.c.  Netmain: input of imp_io.c and vii_io.c and
  the body of netmain.c.  Netuser: netuser.c, the system calls.

  The second program: Ncp_Buf: the store of buffers and kerbuf.c.  Ncp_State: the record \<open>ncp\<close>
  (sockets, files, connection tables, leaders, queues), btest.c, contab.c.  Ncp_Daemon: ncpio.c, the output queue of
  the IMP, the release of sockets and files (nopcls.c).  Ncp_Imp: impio.c, rawtable.c, the raw
  message part of rawmain.c and rawmisc.c.  Ncp_User: nrdwr.c, netopen, rawopen and the reports
  (netstat, rawstat, rawcap and the network part of capac, sgnet).  Ncp_Unimap: ken/malloc.c, mapalloc and
  mapfree of dmr/bio.c (record \<open>uni\<close>).  Ncp_Driver: imp11a.c, the registers of the interface (record \<open>i11a\<close>,
  which extends \<open>uni\<close>).  Ncp_Await: awt, awtto, awake, enablei and disablei of ken/awaitr.c.  Ncp_Clock: timeout
  and the callouts of ken/clock.c.

  Proof theories: Frag_Queue states the contract of a queue of overlapping pieces of a byte
  stream as a locale and proves the merge algorithm that rcv_text and ip_input share; Tcp_Queue
  and Ip_Queue interpret it on the segments of TCP and the fragments of IP.  Send_Stream states the send
  queue as a byte stream in the same way and shows that what is transmitted is what was written.
  Recv_Stream is its counterpart: the receive queue, rcv_nxt and what the user is given belong to one
  byte stream, as long as no new segment ends in the first byte of a queued one; what happens then
  is shown too.  User_Ports and User_Io show what uniqport, netread, netwrite and a failed netopen do.
  Tcp_Frame shows which
  operations leave the state of a connection alone, Tcp_Machine gives the state diagram as a step
  relation and bounds the effect of one event, Net_Moves carries this through the input process.

  For the second program, Ncp_Ring shows that the messages are rings and what linking does to them, Ncp_Pool that every
  buffer is on the free list or has one holder, and Ncp_Alloc states what the users of buffers rely on
  (what happens during a sleep leaves the caller's buffers alone and keeps the pool) as the locale
  \<open>buffer_users\<close>, interpreted twice: with every queue of the kernel as a holder, and for a
  kernel in which only the caller holds buffers.  Ncp_Stream treats messages as byte strings.  Ncp_Tables
  proves the round trip of the connection table, the exactness of the host bit map, the consistency
  of the raw table and the bound on what a writer sends.  Ncp_Messages and Ncp_Queues
  show that a message built from a vector, joined, queued and taken out again keeps its bytes, and Ncp_Fifo that the
  two queues to the daemon implement two lists of commands.  Ncp_Unipages shows that every page of the UNIBUS map has one
  holder and that a transfer reaches the memory it was set up for; Ncp_Driver, which rests on it, that input
  errors during the start of the interface are not reported and the read is begun again.  Ncp_Waiters bounds the time
  a waiting process waits.  Ncp_Clock, second half, shows that the table of callouts implements an agenda.

  Sleeping in the second program: an operation that sleeps takes the list of the changes that the rest of the
  system makes during its sleeps, one per sleep.  Its result is the value and the new state, or
  Asleep when the list is used up (the process has not been woken), Panic, Hang (a loop of the code
  that does not end in this state) or Wild (the code uses a header through a bad pointer).

  Bounds and fuel.  The backward loop of m_adj is given the length of the chain as fuel and every
  round that does not return empties one more buffer.  The work list loop is given the number of
  entries that can still be processed.  The loop over TCP options may not end (an option of length
  0), so it is a partial function whose result None is that behaviour.

  The loop of the callouts is given one round for each of the NCALL entries of the table.  In the second program a ring has at most 32 headers and is walked with fuel 40, so running out of it
  means that the ring is corrupt (Hang); the retry loop of a write is given one round for every
  change in the list and two more, and each round that does not end sleeps.

  Not modelled: the buffer statistics under BUFSTAT, the tracing under MLOG and MDEBUG, the
  records of tcp_debug and the printing of tcp_prt (statistics and debugging output only); the
  C/70 (mbb) variants and the routines under #ifdef old; interrupt priorities (spl), since the
  model has no interrupts inside an operation; the device drivers of the first program, of which only the start of
  output and the initialisation are seen, as events.  Of the second program: the hardware behind the
  registers (what the IMP and the interface do is an argument), the variants for other configurations (no
  BUFMOD, FANCYLOG, NOSC, SHORT), the calls of awake inside the network code (the tables of await are a state of their own,
  Ncp_Await) and of timeout in wf_timo and set_HMR (an event there), prt_dbg and prt_odbg, the block buffers of bio.c, the rest of the V6
  kernel, and the NCP daemon and TCP, which are user programs.  The
  other systems of the repository (the 1981 version of the VAX kernel, the NOSC kernel, the
  UNIX kernels themselves, the user programs and libraries) are separate programs.
\<close>

end
